(* ===== verification/Prelude.thy ===== *)
theory Prelude
  imports
    Main
    "HOL-Library.Word"
    "HOL-Library.AList"
    "HOL-Library.Monad_Syntax"
    "HOL-Library.Multiset"
begin

text \<open>
  Shared vocabulary of the development: the machine integers of the code, the reading of a
  Rust panic as the value \<^term>\<open>None\<close>, arithmetic with and without overflow checks, byte order
  conversions, the dictionaries of \<^verbatim>\<open>std::collections::HashMap\<close> and the binary search of
  \<^verbatim>\<open>slice::binary_search_by\<close>, each with the lemmas the components use.
\<close>

section \<open>Machine integers\<close>

type_synonym u8 = "8 word"
type_synonym u16 = "16 word"
type_synonym u32 = "32 word"
type_synonym u64 = "64 word"
type_synonym u128 = "128 word"
type_synonym i32 = "32 word"
type_synonym bytes = "u8 list"

text \<open>
  A Rust expression that may panic has type \<^typ>\<open>'a option\<close>, where \<^term>\<open>None\<close> is the panic: it
  unwinds the thread, so every later step is skipped, which is what \<^const>\<open>Option.bind\<close> does.
  A \<^verbatim>\<open>Result<A, E>\<close> is a value \<^typ>\<open>'e + 'a\<close>; the two are composed where the code can do both. \<^verbatim>\<open>Option::unwrap\<close> and
  \<^verbatim>\<open>Option::expect\<close> turn a missing value into the panic, so they are the identity here.
\<close>

text \<open>The \<^verbatim>\<open>?\<close> operator: return the error to the caller, or continue with the value.\<close>

definition try_op :: "('e + 'a) option \<Rightarrow> ('a \<Rightarrow> ('e + 'b) option) \<Rightarrow> ('e + 'b) option" where
  "try_op m k = do { r \<leftarrow> m; (case r of Inl e \<Rightarrow> Some (Inl e) | Inr x \<Rightarrow> k x) }"

text \<open>\<^verbatim>\<open>Result::unwrap\<close>: the panic of an error.\<close>

definition unwrap_ok :: "'e + 'a \<Rightarrow> 'a option" where
  "unwrap_ok r = (case r of Inl _ \<Rightarrow> None | Inr x \<Rightarrow> Some x)"

lemma unwrap_ok_simps [simp]:
  "unwrap_ok (Inl e) = None"
  "unwrap_ok (Inr x) = Some x"
  by (simp_all add: unwrap_ok_def)

text \<open>
  A computation that may also run forever has type \<^typ>\<open>'a option option\<close>: the outer \<^term>\<open>None\<close> is the run that does
  not end, \<^term>\<open>Some None\<close> the panic. Its sequential composition:
\<close>

definition run_bind :: "'a option option \<Rightarrow> ('a \<Rightarrow> 'b option option) \<Rightarrow> 'b option option" where
  "run_bind m k = do { r \<leftarrow> m; (case r of None \<Rightarrow> Some None | Some x \<Rightarrow> k x) }"

lemma run_bind_simps [simp]:
  "run_bind None k = None" "run_bind (Some None) k = Some None" "run_bind (Some (Some x)) k = k x"
  by (simp_all add: run_bind_def)

lemma run_bind_SomeE:
  assumes "run_bind m k = Some (Some y)"
  obtains x where "m = Some (Some x)" "k x = Some (Some y)"
  using assms by (auto simp: run_bind_def split: bind_splits option.splits)

lemma unat_bound: "unat (w :: 'w::len word) < 2 ^ LENGTH('w)"
  by (rule unsigned_less)

lemma unat_u8_bound [simp]: "unat (b :: u8) < 256"
  using unat_bound [of b] by simp

lemma unat_of_nat_small: "n < 2 ^ LENGTH('w) \<Longrightarrow> unat (word_of_nat n :: 'w::len word) = n"
  by (simp add: unat_of_nat)

section \<open>Arithmetic\<close>

text \<open>
  Rust's \<^verbatim>\<open>+\<close>, \<^verbatim>\<open>-\<close> and \<^verbatim>\<open>*\<close> on unsigned integers panic on overflow when the crate is built
  with overflow checks (the \<^verbatim>\<open>dev\<close> profile) and wrap around when it is not (the \<^verbatim>\<open>release\<close>
  profile). The first argument is that setting.
\<close>

definition uadd :: "bool \<Rightarrow> 'w::len word \<Rightarrow> 'w word \<Rightarrow> 'w word option" where
  "uadd oc a b = (if oc \<and> 2 ^ LENGTH('w) \<le> unat a + unat b then None else Some (a + b))"

definition usub :: "bool \<Rightarrow> 'w::len word \<Rightarrow> 'w word \<Rightarrow> 'w word option" where
  "usub oc a b = (if oc \<and> unat a < unat b then None else Some (a - b))"

definition umul :: "bool \<Rightarrow> 'w::len word \<Rightarrow> 'w word \<Rightarrow> 'w word option" where
  "umul oc a b = (if oc \<and> 2 ^ LENGTH('w) \<le> unat a * unat b then None else Some (a * b))"

text \<open>\<^verbatim>\<open>saturating_add\<close> and \<^verbatim>\<open>saturating_sub\<close> never panic.\<close>

definition sat_add :: "'w::len word \<Rightarrow> 'w word \<Rightarrow> 'w word" where
  "sat_add a b = (if 2 ^ LENGTH('w) \<le> unat a + unat b then - 1 else a + b)"

definition sat_sub :: "'w::len word \<Rightarrow> 'w word \<Rightarrow> 'w word" where
  "sat_sub a b = (if unat a < unat b then 0 else a - b)"

text \<open>Addition of \<^verbatim>\<open>i32\<close> values, read as integers.\<close>

definition i32_add :: "bool \<Rightarrow> int \<Rightarrow> int \<Rightarrow> int option" where
  "i32_add oc a b =
    (if - (2 ^ 31) \<le> a + b \<and> a + b < 2 ^ 31 then Some (a + b)
     else if oc then None else Some (signed_take_bit 31 (a + b)))"

named_theorems exact_arith \<open>arithmetic that neither panics nor wraps around\<close>

lemma uadd_exact [exact_arith]:
  fixes a b :: "'w::len word"
  assumes "unat a + unat b < 2 ^ LENGTH('w)"
  shows "uadd oc a b = Some (a + b)"
  using assms by (simp add: uadd_def)

lemma usub_exact [exact_arith]: "unat b \<le> unat a \<Longrightarrow> usub oc a b = Some (a - b)"
  by (simp add: usub_def)

lemma umul_exact [exact_arith]:
  fixes a b :: "'w::len word"
  assumes "unat a * unat b < 2 ^ LENGTH('w)"
  shows "umul oc a b = Some (a * b)"
  using assms by (simp add: umul_def)

lemma unat_add_exact [exact_arith]:
  fixes a b :: "'w::len word"
  assumes "unat a + unat b < 2 ^ LENGTH('w)"
  shows "unat (a + b) = unat a + unat b"
  using assms by (simp add: unat_word_ariths)

lemma unat_sub_exact [exact_arith]:
  fixes a b :: "'w::len word"
  assumes "unat b \<le> unat a"
  shows "unat (a - b) = unat a - unat b"
  using assms by (simp add: unat_sub word_le_nat_alt)

lemma uadd_checked_SomeD:
  fixes a b :: "'w::len word"
  assumes "uadd True a b = Some c"
  shows "unat c = unat a + unat b" "unat a + unat b < 2 ^ LENGTH('w)" "c = a + b"
  using assms by (auto simp: uadd_def unat_word_ariths split: if_splits)

lemma usub_checked_SomeD:
  fixes a b :: "'w::len word"
  assumes "usub True a b = Some c"
  shows "unat c = unat a - unat b" "unat b \<le> unat a" "c = a - b"
  using assms by (auto simp: usub_def not_less unat_sub_exact split: if_splits)

lemma umul_checked_SomeD:
  fixes a b :: "'w::len word"
  assumes "umul True a b = Some c"
  shows "unat c = unat a * unat b" "unat a * unat b < 2 ^ LENGTH('w)"
  using assms by (auto simp: umul_def unat_word_ariths split: if_splits)

lemma uadd_unchecked [simp]: "uadd False a b = Some (a + b)"
  by (simp add: uadd_def)

lemma usub_unchecked [simp]: "usub False a b = Some (a - b)"
  by (simp add: usub_def)

lemma uadd_Some_value: "uadd oc a b = Some c \<Longrightarrow> c = a + b"
  by (auto simp: uadd_def split: if_splits)

lemma usub_Some_value: "usub oc a b = Some c \<Longrightarrow> c = a - b"
  by (auto simp: usub_def split: if_splits)

lemma unat_sat_sub [simp]:
  fixes a b :: "'w::len word"
  shows "unat (sat_sub a b) = unat a - unat b"
  by (simp add: sat_sub_def not_less unat_sub_exact)

lemma unat_sat_add:
  fixes a b :: "'w::len word"
  shows "unat (sat_add a b) = min (unat a + unat b) (2 ^ LENGTH('w) - 1)"
proof (cases "2 ^ LENGTH('w) \<le> unat a + unat b")
  case True
  then show ?thesis by (simp add: sat_add_def unsigned_minus_1_eq_mask mask_eq_exp_minus_1)
next
  case False
  then show ?thesis by (simp add: sat_add_def unat_add_exact)
qed

section \<open>Byte order\<close>

fun le_bytes :: "nat \<Rightarrow> nat \<Rightarrow> bytes" where
  "le_bytes 0 x = []"
| "le_bytes (Suc n) x = word_of_nat (x mod 256) # le_bytes n (x div 256)"

fun nat_of_le :: "bytes \<Rightarrow> nat" where
  "nat_of_le [] = 0"
| "nat_of_le (b # bs) = unat b + 256 * nat_of_le bs"

text \<open>\<^verbatim>\<open>u64::to_be_bytes\<close> and its relatives, for a word of \<open>n\<close> bytes.\<close>

definition to_le_bytes :: "nat \<Rightarrow> 'w::len word \<Rightarrow> bytes" where
  "to_le_bytes n w = le_bytes n (unat w)"

definition to_be_bytes :: "nat \<Rightarrow> 'w::len word \<Rightarrow> bytes" where
  "to_be_bytes n w = rev (le_bytes n (unat w))"

definition from_le_bytes :: "bytes \<Rightarrow> 'w::len word" where
  "from_le_bytes bs = word_of_nat (nat_of_le bs)"

definition from_be_bytes :: "bytes \<Rightarrow> 'w::len word" where
  "from_be_bytes bs = word_of_nat (nat_of_le (rev bs))"

lemma length_le_bytes [simp]: "length (le_bytes n x) = n"
  by (induction n arbitrary: x) auto

lemma length_to_bytes [simp]:
  "length (to_le_bytes n w) = n"
  "length (to_be_bytes n w) = n"
  by (simp_all add: to_le_bytes_def to_be_bytes_def)

lemma nat_of_le_bytes: "nat_of_le (le_bytes n x) = x mod 256 ^ n"
proof (induction n arbitrary: x)
  case 0
  then show ?case by simp
next
  case (Suc n)
  have "nat_of_le (le_bytes (Suc n) x) = x mod 256 + 256 * (x div 256 mod 256 ^ n)"
    by (simp add: Suc.IH unat_of_nat)
  also have "\<dots> = x mod (256 * 256 ^ n)"
    by (metis add.commute mod_mult2_eq)
  finally show ?case by simp
qed

lemma nat_of_le_bound: "nat_of_le bs < 256 ^ length bs"
proof (induction bs)
  case Nil
  then show ?case by simp
next
  case (Cons b bs)
  have "unat b + 256 * nat_of_le bs < 256 + 256 * nat_of_le bs"
    by simp
  also have "\<dots> \<le> 256 * 256 ^ length bs"
    using Cons.IH by linarith
  finally show ?case by simp
qed

lemma le_bytes_of_nat: "le_bytes (length bs) (nat_of_le bs) = bs"
proof (induction bs)
  case Nil
  then show ?case by simp
next
  case (Cons b bs)
  have "unat b < 256" by simp
  with Cons show ?case by simp
qed

lemma from_to_bytes:
  fixes w :: "'w::len word"
  assumes "2 ^ LENGTH('w) \<le> (256::nat) ^ n"
  shows "from_le_bytes (to_le_bytes n w) = w" "from_be_bytes (to_be_bytes n w) = w"
proof -
  have "unat w < 256 ^ n"
    using unat_bound [of w] assms by linarith
  then show "from_le_bytes (to_le_bytes n w) = w" "from_be_bytes (to_be_bytes n w) = w"
    by (simp_all add: from_le_bytes_def to_le_bytes_def from_be_bytes_def to_be_bytes_def
        nat_of_le_bytes)
qed

lemma from_to_bytes_u64 [simp]:
  "from_le_bytes (to_le_bytes 8 w) = (w :: u64)"
  "from_be_bytes (to_be_bytes 8 w) = (w :: u64)"
  by (rule from_to_bytes; simp)+

lemma to_from_be_bytes:
  fixes bs :: bytes
  assumes "length bs = n" and "256 ^ n \<le> (2::nat) ^ LENGTH('w)"
  shows "to_be_bytes n (from_be_bytes bs :: 'w::len word) = bs"
proof -
  have "nat_of_le (rev bs) < 2 ^ LENGTH('w)"
    using nat_of_le_bound [of "rev bs"] assms by simp
  then have "unat (from_be_bytes bs :: 'w word) = nat_of_le (rev bs)"
    by (simp add: from_be_bytes_def unat_of_nat_small)
  then show ?thesis
    using le_bytes_of_nat [of "rev bs"] assms(1) by (simp add: to_be_bytes_def)
qed

section \<open>Slices\<close>

text \<open>\<^verbatim>\<open>&xs[a..b]\<close> and \<^verbatim>\<open>&xs[..n]\<close> panic when the range leaves the slice.\<close>

definition slice :: "nat \<Rightarrow> nat \<Rightarrow> 'a list \<Rightarrow> 'a list option" where
  "slice a b xs = (if a \<le> b \<and> b \<le> length xs then Some (take (b - a) (drop a xs)) else None)"

abbreviation slice_to :: "nat \<Rightarrow> 'a list \<Rightarrow> 'a list option" where
  "slice_to n xs \<equiv> slice 0 n xs"

abbreviation slice_from :: "nat \<Rightarrow> 'a list \<Rightarrow> 'a list option" where
  "slice_from n xs \<equiv> slice n (length xs) xs"

text \<open>\<^verbatim>\<open>dst.copy_from_slice(src)\<close> into an array of \<open>n\<close> elements panics on another length.\<close>

definition copy_from_slice :: "nat \<Rightarrow> 'a list \<Rightarrow> 'a list option" where
  "copy_from_slice n src = (if length src = n then Some src else None)"

text \<open>\<^verbatim>\<open>xs[i]\<close> panics out of range.\<close>

definition nth_checked :: "'a list \<Rightarrow> nat \<Rightarrow> 'a option" where
  "nth_checked xs i = (if i < length xs then Some (xs ! i) else None)"

lemma slice_all [simp]: "slice 0 (length xs) xs = Some xs"
  by (simp add: slice_def)

lemma copy_from_slice_exact [simp]: "length src = n \<Longrightarrow> copy_from_slice n src = Some src"
  by (simp add: copy_from_slice_def)

lemma copy_from_slice_SomeD: "copy_from_slice n src = Some d \<Longrightarrow> d = src \<and> length d = n"
  by (auto simp: copy_from_slice_def split: if_splits)

section \<open>Dictionaries\<close>

text \<open>
  A \<^verbatim>\<open>HashMap\<close> is an association list with distinct keys, in its iteration order;
  \<^verbatim>\<open>insert\<close> is \<^const>\<open>AList.update\<close>, \<^verbatim>\<open>remove\<close> is \<^const>\<open>AList.delete\<close>, \<^verbatim>\<open>get\<close> is \<^const>\<open>map_of\<close>.
\<close>

abbreviation keys_distinct :: "('k \<times> 'v) list \<Rightarrow> bool" where
  "keys_distinct m \<equiv> distinct (map fst m)"

lemma map_of_update [simp]: "map_of (AList.update k v m) = (map_of m)(k \<mapsto> v)"
  by (rule AList.update_conv')

lemma map_of_delete [simp]: "map_of (AList.delete k m) = (map_of m)(k := None)"
  by (rule AList.delete_conv')

lemma keys_distinct_update [simp]: "keys_distinct m \<Longrightarrow> keys_distinct (AList.update k v m)"
  by (rule AList.distinct_update)

lemma keys_distinct_delete [simp]: "keys_distinct m \<Longrightarrow> keys_distinct (AList.delete k m)"
  by (rule AList.distinct_delete)

lemma length_keys: "keys_distinct m \<Longrightarrow> length m = card (dom (map_of m))"
  by (metis dom_map_of_conv_image_fst distinct_card length_map set_map)

lemma length_delete:
  "keys_distinct m \<Longrightarrow> map_of m h = Some v \<Longrightarrow> length (AList.delete h m) = length m - 1"
  by (simp add: length_keys domI)

lemma length_update:
  "keys_distinct m \<Longrightarrow> map_of m h = None \<Longrightarrow> length (AList.update h v m) = Suc (length m)"
  by (simp add: length_keys domIff finite_dom_map_of card_insert_disjoint)

section \<open>Formatting\<close>

text \<open>The conversion \<^verbatim>\<open>{:02x}\<close> of a byte.\<close>

definition hex_digit :: "nat \<Rightarrow> char" where
  "hex_digit n = ''0123456789abcdef'' ! n"

definition hex_byte :: "u8 \<Rightarrow> string" where
  "hex_byte b = [hex_digit (unat b div 16), hex_digit (unat b mod 16)]"

end
