(* ===== verification/Errors.thy ===== *)
theory Errors
  imports Prelude
begin

text \<open>
  The error values of the crates \<^verbatim>\<open>errors\<close> (src/common/errors/src/lib.rs), \<^verbatim>\<open>chain\<close>
  (src/chain/src/lib.rs) and \<^verbatim>\<open>consensus\<close> (src/consensus/src/lib.rs). The \<^verbatim>\<open>failure::Context\<close> an
  error is wrapped in carries its kind; the cause of an \<^verbatim>\<open>Error\<close> is the component's own error.
\<close>

datatype error_kind = Header_kind | BlockChain_kind | Internal_kind | Consensus_kind

datatype internal_error_kind =
    InvalidSignData | BalanceNotEnough | InvalidTxNonce | NoneSign_internal | Execute
  | Other string

datatype block_chain_error_kind =
    UnknownAncestor | KnownBlock | MismatchHash | InvalidBlockProof | InvalidBlockTime
  | InvalidBlockHeight | InvalidState | InvalidAuthority

datatype consensus_error_kind =
    NoneSign | AnotherPk | InvalidProof | InvalidKey | NotMatchEpochID | NoValidatorsInEpoch
  | EncryptedShareMsgError | DecryptShareMsgError | NotMatchLocalHolders | RecoverSharesError
  | NotEnoughShares | NotFoundSeedInfo | NotFetchAnyShares

text \<open>The chain of causes: the component error below the crate-level \<^verbatim>\<open>Error\<close>.\<close>

datatype cause =
    InternalError internal_error_kind
  | BlockChainError block_chain_error_kind
  | ConsensusError consensus_error_kind

record error =
  err_kind :: error_kind
  err_cause :: cause

text \<open>The \<^verbatim>\<open>From\<close> conversions into \<^verbatim>\<open>Error\<close>.\<close>

definition internal_into :: "internal_error_kind \<Rightarrow> error" where
  "internal_into k = \<lparr>err_kind = Internal_kind, err_cause = InternalError k\<rparr>"

definition block_chain_into :: "block_chain_error_kind \<Rightarrow> error" where
  "block_chain_into k = \<lparr>err_kind = Consensus_kind, err_cause = BlockChainError k\<rparr>"

definition consensus_into :: "consensus_error_kind \<Rightarrow> error" where
  "consensus_into k = \<lparr>err_kind = Consensus_kind, err_cause = ConsensusError k\<rparr>"

lemma into_inject [simp]:
  "internal_into a = internal_into b \<longleftrightarrow> a = b"
  "block_chain_into c = block_chain_into d \<longleftrightarrow> c = d"
  "consensus_into e = consensus_into f \<longleftrightarrow> e = f"
  by (auto simp: internal_into_def block_chain_into_def consensus_into_def)

lemma into_distinct [simp]:
  "internal_into a \<noteq> block_chain_into c"
  "internal_into a \<noteq> consensus_into e"
  "block_chain_into c \<noteq> consensus_into e"
  by (auto simp: internal_into_def block_chain_into_def consensus_into_def)

end
