(* ===== verification/Types.thy ===== *)
theory Types
  imports Errors
begin

text \<open>
  The basic types of the core crate (src/core/src/types.rs): \<^verbatim>\<open>Hash\<close> and \<^verbatim>\<open>Address\<close>, with the
  digest of src/common/hash/src/lib.rs they are computed by. The third-party crates the code
  calls are the fields of the record \<open>crates\<close>, an argument of every definition that uses one.
\<close>

section \<open>Third-party crates\<close>

datatype hex_error = InvalidHexCharacter | OddLength | InvalidStringLength

record crates =
  overflow_checks :: bool \<comment> \<open>build profile: overflow checks of the Rust compiler\<close>
  blake2b :: "bytes \<Rightarrow> bytes" \<comment> \<open>blake2b\_rs, 32 bytes, personal \<open>map-default-hash\<close>\<close>
  hex_encode :: "bytes \<Rightarrow> string"
  hex_decode :: "string \<Rightarrow> hex_error + bytes"

text \<open>
  A \<^verbatim>\<open>bincode\<close> codec of one type: \<^verbatim>\<open>bincode::serialize\<close> never fails on the types of the program
  (the code unwraps it everywhere); \<^verbatim>\<open>bincode::deserialize\<close> may, which is \<^term>\<open>None\<close>.
\<close>

record 'a codec =
  ser :: "'a \<Rightarrow> bytes"
  de :: "bytes \<Rightarrow> 'a option"

definition codec_ok :: "('a, 'z) codec_scheme \<Rightarrow> bool" where
  "codec_ok c \<longleftrightarrow> (\<forall>x. de c (ser c x) = Some x)"

lemma codec_okD [simp]: "codec_ok c \<Longrightarrow> de c (ser c x) = Some x"
  by (simp add: codec_ok_def)

lemma codec_ser_inject: "codec_ok c \<Longrightarrow> ser c x = ser c y \<longleftrightarrow> x = y"
  by (metis codec_okD option.inject)

text \<open>What the code relies on: the digest has 32 bytes; decoding inverts encoding.\<close>

definition digest_ok :: "'z crates_scheme \<Rightarrow> bool" where
  "digest_ok E \<longleftrightarrow> (\<forall>bs. length (blake2b E bs) = 32)"

definition hex_ok :: "'z crates_scheme \<Rightarrow> bool" where
  "hex_ok E \<longleftrightarrow> (\<forall>bs. hex_decode E (hex_encode E bs) = Inr bs)"

section \<open>The digest: src/common/hash\<close>

definition BLANK_HASH :: bytes where
  "BLANK_HASH =
    [68, 244, 198, 151, 68, 213, 248, 197, 93, 100, 32, 98, 148, 157, 202, 228, 155, 196, 231, 239,
     67, 211, 136, 197, 161, 47, 66, 181, 99, 61, 22, 62]"

definition inner_blake2b_256 :: "'z crates_scheme \<Rightarrow> bytes \<Rightarrow> bytes" where
  "inner_blake2b_256 E s = blake2b E s"

definition blake2b_256 :: "'z crates_scheme \<Rightarrow> bytes \<Rightarrow> bytes" where
  "blake2b_256 E s = (if s = [] then BLANK_HASH else inner_blake2b_256 E s)"

lemma length_blake2b_256 [simp]: "digest_ok E \<Longrightarrow> length (blake2b_256 E s) = 32"
  by (simp add: blake2b_256_def inner_blake2b_256_def digest_ok_def BLANK_HASH_def)

section \<open>Hash\<close>

datatype hash = Hash (as_bytes: bytes)

lemma as_bytes_inject [simp]: "as_bytes a = as_bytes b \<longleftrightarrow> a = b"
  by (cases a; cases b) simp

definition hash_wf :: "hash \<Rightarrow> bool" where
  "hash_wf h \<longleftrightarrow> length (as_bytes h) = 32"

definition hash_default :: hash where
  "hash_default = Hash (replicate 32 0)"

definition hash_from_bytes :: "bytes \<Rightarrow> hash" where
  "hash_from_bytes src =
    (if length src \<le> 32 then Hash (replicate (32 - length src) 0 @ src)
     else Hash (drop (length src - 32) src))"

text \<open>The optional prefix \<^verbatim>\<open>0x\<close> or \<^verbatim>\<open>0X\<close> every \<^verbatim>\<open>from_hex\<close> strips.\<close>

definition strip_0x :: "string \<Rightarrow> string" where
  "strip_0x text = (if take 2 text = ''0x'' \<or> take 2 text = ''0X'' then drop 2 text else text)"

definition hash_from_hex :: "'z crates_scheme \<Rightarrow> string \<Rightarrow> hex_error + hash" where
  "hash_from_hex E text =
    (case hex_decode E (strip_0x text) of Inl e \<Rightarrow> Inl e | Inr b \<Rightarrow> Inr (hash_from_bytes b))"

definition make_hash :: "'z crates_scheme \<Rightarrow> bytes \<Rightarrow> hash" where
  "make_hash E data = Hash (blake2b_256 E data)"

definition hash_from_u64 :: "u64 \<Rightarrow> hash" where
  "hash_from_u64 val =
    (let buf = to_be_bytes 8 val; s = length buf
     in hash_from_bytes (replicate (20 - s) 0 @ take s buf))"

definition hash_debug :: "hash \<Rightarrow> string" where
  "hash_debug h = concat (map hex_byte (as_bytes h))"

definition hash_display :: "hash \<Rightarrow> string" where
  "hash_display h = ''0x'' @ concat (map hex_byte (take 4 (as_bytes h)))"

text \<open>The serde implementation: a hash travels as the string \<^verbatim>\<open>0x...\<close>; decoding panics on bad hex.\<close>

definition hash_serialize :: "'z crates_scheme \<Rightarrow> hash \<Rightarrow> string" where
  "hash_serialize E h = ''0x'' @ hex_encode E (as_bytes h)"

definition hash_deserialize :: "'z crates_scheme \<Rightarrow> string \<Rightarrow> hash option" where
  "hash_deserialize E s = unwrap_ok (hash_from_hex E s)"

lemma hash_from_bytes_wf [simp]: "hash_wf (hash_from_bytes src)"
  by (simp add: hash_from_bytes_def hash_wf_def)

lemma hash_default_wf [simp]: "hash_wf hash_default"
  by (simp add: hash_default_def hash_wf_def)

lemma hash_from_as_bytes [simp]: "hash_wf h \<Longrightarrow> hash_from_bytes (as_bytes h) = h"
  by (cases h) (simp add: hash_from_bytes_def hash_wf_def)

lemma make_hash_wf [simp]: "digest_ok E \<Longrightarrow> hash_wf (make_hash E d)"
  by (simp add: make_hash_def hash_wf_def)

lemma hash_from_bytes_inject:
  assumes "length a = length b" and "length a \<le> 32" and "hash_from_bytes a = hash_from_bytes b"
  shows "a = b"
  using assms by (simp add: hash_from_bytes_def)

section \<open>Address\<close>

datatype address = Address (as_slice: bytes)

definition address_wf :: "address \<Rightarrow> bool" where
  "address_wf a \<longleftrightarrow> length (as_slice a) = 20"

definition address_default :: address where
  "address_default = Address (replicate 20 0)"

definition address_from_slice :: "bytes \<Rightarrow> address option" where
  "address_from_slice bs = do { s \<leftarrow> slice_to 20 bs; d \<leftarrow> copy_from_slice 20 s; Some (Address d) }"

definition address_zero :: address where
  "address_zero = address_default"

definition address_from_hex :: "'z crates_scheme \<Rightarrow> string \<Rightarrow> (hex_error + address) option" where
  "address_from_hex E text =
    (case hex_decode E (strip_0x text) of
       Inl e \<Rightarrow> Some (Inl e)
     | Inr b \<Rightarrow> do { d \<leftarrow> copy_from_slice 20 b; Some (Inr (Address d)) })"

definition address_from_low_u64_le :: "u64 \<Rightarrow> address option" where
  "address_from_low_u64_le val =
    (let buf = to_le_bytes 8 val; s = length buf
     in address_from_slice (replicate (20 - s) 0 @ take s buf))"

definition address_from_low_u64_be :: "u64 \<Rightarrow> address option" where
  "address_from_low_u64_be val =
    (let buf = to_be_bytes 8 val; s = length buf
     in address_from_slice (replicate (20 - s) 0 @ take s buf))"

definition address_to_low_u64_be :: "address \<Rightarrow> u64 option" where
  "address_to_low_u64_be a =
    do { buf \<leftarrow> copy_from_slice 8 (drop (20 - 8) (as_slice a)); Some (from_be_bytes buf) }"

definition address_to_low_u64_le :: "address \<Rightarrow> u64 option" where
  "address_to_low_u64_le a =
    do { buf \<leftarrow> copy_from_slice 8 (drop (20 - 8) (as_slice a)); Some (from_le_bytes buf) }"

definition address_display :: "address \<Rightarrow> string" where
  "address_display a = concat (map hex_byte (as_slice a))"

lemma address_from_slice_exact [simp]: "length bs = 20 \<Longrightarrow> address_from_slice bs = Some (Address bs)"
  by (simp add: address_from_slice_def slice_def)

lemma address_low_u64_be:
  "Option.bind (address_from_low_u64_be v) address_to_low_u64_be = Some v"
  by (simp add: address_from_low_u64_be_def address_to_low_u64_be_def)

lemma address_low_u64_le:
  "Option.bind (address_from_low_u64_le v) address_to_low_u64_le = Some v"
  by (simp add: address_from_low_u64_le_def address_to_low_u64_le_def)

end
