(* ===== verification/Keys.thy ===== *)
theory Keys
  imports Types
begin

text \<open>
  Keys and signatures (src/common/ed25519/src): thin wrappers of \<^verbatim>\<open>ed25519_dalek\<close>. A dalek value
  is represented by its byte encoding; the dalek operations are fields of the record \<open>dalek\<close>.
\<close>

record dalek = crates +
  secret_from_bytes :: "bytes \<Rightarrow> string + bytes"
  public_from_secret :: "bytes \<Rightarrow> bytes"
  public_from_bytes :: "bytes \<Rightarrow> string + bytes"
  expanded_sign :: "bytes \<Rightarrow> bytes \<Rightarrow> bytes \<Rightarrow> bytes"
  signature_from_bytes :: "bytes \<Rightarrow> string + bytes"
  public_verify :: "bytes \<Rightarrow> bytes \<Rightarrow> bytes \<Rightarrow> string + unit"

text \<open>
  What the code relies on, for the 32-byte secret \<open>sk\<close>: it parses, its public key has 32 bytes
  and parses back, a signature has 64 bytes and parses back, and it verifies under that key.
\<close>

definition dalek_key_ok :: "'z dalek_scheme \<Rightarrow> bytes \<Rightarrow> bool" where
  "dalek_key_ok E sk \<longleftrightarrow>
    length sk = 32 \<and> secret_from_bytes E sk = Inr sk \<and>
    length (public_from_secret E sk) = 32 \<and>
    public_from_bytes E (public_from_secret E sk) = Inr (public_from_secret E sk) \<and>
    (\<forall>msg. let pk = public_from_secret E sk; sig = expanded_sign E sk msg pk
           in length sig = 64 \<and> signature_from_bytes E sig = Inr sig \<and>
              public_verify E pk msg sig = Inr ())"

section \<open>Messages, keys, signatures\<close>

datatype h256 = H256 (h256_bytes: bytes)

definition to_msg :: "hash \<Rightarrow> h256" where
  "to_msg h = H256 (as_bytes h)"

record pubkey = pub_inner :: h256
record privkey = priv_inner :: h256

datatype signature_info = SignatureInfo (sig_r: bytes) (sig_s: bytes) (sig_p: bytes)

definition dalek_error :: "string \<Rightarrow> error" where
  "dalek_error e = internal_into (Other e)"

subsection \<open>signature.rs\<close>

definition signature_make :: "bytes \<Rightarrow> bytes \<Rightarrow> bytes \<Rightarrow> signature_info" where
  "signature_make r s p = SignatureInfo r s p"

definition to_signature :: "'z dalek_scheme \<Rightarrow> signature_info \<Rightarrow> error + bytes" where
  "to_signature E si =
    (case signature_from_bytes E (sig_r si @ sig_s si) of
       Inl e \<Rightarrow> Inl (dalek_error e) | Inr s \<Rightarrow> Inr s)"

definition from_signature :: "bytes \<Rightarrow> bytes \<Rightarrow> signature_info option" where
  "from_signature sign p =
    do { r \<leftarrow> slice 0 32 sign; s \<leftarrow> slice 32 64 sign; Some (SignatureInfo r s p) }"

definition signature_from_slice :: "'z dalek_scheme \<Rightarrow> bytes \<Rightarrow> (error + signature_info) option" where
  "signature_from_slice E data =
    do { sign_data \<leftarrow> slice 0 64 data;
         p \<leftarrow> slice 64 96 data;
         (case signature_from_bytes E sign_data of
            Inl e \<Rightarrow> Some (Inl (dalek_error e))
          | Inr sig \<Rightarrow> do { si \<leftarrow> from_signature sig p; Some (Inr si) }) }"

subsection \<open>pubkey.rs\<close>

definition pubkey_equal :: "pubkey \<Rightarrow> pubkey \<Rightarrow> bool" where
  "pubkey_equal a b \<longleftrightarrow> h256_bytes (pub_inner a) = h256_bytes (pub_inner b)"

definition pubkey_to_bytes :: "pubkey \<Rightarrow> bytes" where
  "pubkey_to_bytes pk = h256_bytes (pub_inner pk)"

definition pubkey_from_hex :: "'z crates_scheme \<Rightarrow> string \<Rightarrow> pubkey option" where
  "pubkey_from_hex E text =
    do { b \<leftarrow> unwrap_ok (hex_decode E (strip_0x text));
         pk \<leftarrow> copy_from_slice 32 b;
         Some \<lparr>pub_inner = H256 pk\<rparr> }"

definition pubkey_from_bytes :: "bytes \<Rightarrow> pubkey option" where
  "pubkey_from_bytes bs =
    do { s \<leftarrow> slice_to 32 bs; pk \<leftarrow> copy_from_slice 32 s; Some \<lparr>pub_inner = H256 pk\<rparr> }"

definition pubkey_to_pubkey :: "'z dalek_scheme \<Rightarrow> pubkey \<Rightarrow> error + bytes" where
  "pubkey_to_pubkey E pk =
    (case public_from_bytes E (pubkey_to_bytes pk) of
       Inl e \<Rightarrow> Inl (dalek_error e) | Inr k \<Rightarrow> Inr k)"

definition pubkey_verify ::
  "'z dalek_scheme \<Rightarrow> pubkey \<Rightarrow> h256 \<Rightarrow> signature_info \<Rightarrow> (error + unit) option" where
  "pubkey_verify E pk message signinfo =
    do { sign \<leftarrow> unwrap_ok (to_signature E signinfo);
         (case pubkey_to_pubkey E pk of
            Inl e \<Rightarrow> Some (Inl e)
          | Inr k \<Rightarrow> Some (case public_verify E k (h256_bytes message) sign of
                            Inl e \<Rightarrow> Inl (dalek_error e) | Inr u \<Rightarrow> Inr u)) }"

text \<open>\<^verbatim>\<open>impl From<Pubkey> for Address\<close>: the last 20 bytes of the key's digest.\<close>

definition pubkey_into_address :: "'z crates_scheme \<Rightarrow> pubkey \<Rightarrow> address option" where
  "pubkey_into_address E pk =
    do { d \<leftarrow> copy_from_slice 20 (drop 12 (blake2b_256 E (pubkey_to_bytes pk)));
         Some (Address d) }"

subsection \<open>privkey.rs\<close>

definition privkey_to_bytes :: "privkey \<Rightarrow> bytes" where
  "privkey_to_bytes k = h256_bytes (priv_inner k)"

definition privkey_from_bytes :: "bytes \<Rightarrow> privkey option" where
  "privkey_from_bytes bs =
    do { s \<leftarrow> slice_to 32 bs; pk \<leftarrow> copy_from_slice 32 s; Some \<lparr>priv_inner = H256 pk\<rparr> }"

definition to_secrit_key :: "'z dalek_scheme \<Rightarrow> privkey \<Rightarrow> error + bytes" where
  "to_secrit_key E k =
    (case secret_from_bytes E (privkey_to_bytes k) of
       Inl e \<Rightarrow> Inl (dalek_error e) | Inr s \<Rightarrow> Inr s)"

definition privkey_to_pubkey :: "'z dalek_scheme \<Rightarrow> privkey \<Rightarrow> error + pubkey" where
  "privkey_to_pubkey E k =
    (case to_secrit_key E k of
       Inl e \<Rightarrow> Inl e | Inr sk \<Rightarrow> Inr \<lparr>pub_inner = H256 (public_from_secret E sk)\<rparr>)"

definition privkey_sign :: "'z dalek_scheme \<Rightarrow> privkey \<Rightarrow> bytes \<Rightarrow> (error + signature_info) option" where
  "privkey_sign E k message =
    (case to_secrit_key E k of
       Inl e \<Rightarrow> Some (Inl e)
     | Inr sk \<Rightarrow>
        (case privkey_to_pubkey E k of
           Inl e \<Rightarrow> Some (Inl e)
         | Inr p \<Rightarrow>
            (case pubkey_to_pubkey E p of
               Inl e \<Rightarrow> Some (Inl e)
             | Inr pk \<Rightarrow>
                do { pb \<leftarrow> copy_from_slice 32 pk;
                     si \<leftarrow> from_signature (expanded_sign E sk message pk) pb;
                     Some (Inr si) })))"

definition privkey_from_hex :: "'z crates_scheme \<Rightarrow> string \<Rightarrow> hex_error + privkey" where
  "privkey_from_hex E text =
    (case hex_decode E (strip_0x text) of
       Inl e \<Rightarrow> Inl e
     | Inr b \<Rightarrow>
        (if length b \<noteq> 32 then Inl InvalidStringLength
         else Inr \<lparr>priv_inner = H256 b\<rparr>))"

section \<open>Signing and verifying\<close>

lemma pubkey_from_bytes_exact [simp]:
  "length bs = 32 \<Longrightarrow> pubkey_from_bytes bs = Some \<lparr>pub_inner = H256 bs\<rparr>"
  by (simp add: pubkey_from_bytes_def slice_def)

lemma privkey_from_bytes_exact [simp]:
  "length bs = 32 \<Longrightarrow> privkey_from_bytes bs = Some \<lparr>priv_inner = H256 bs\<rparr>"
  by (simp add: privkey_from_bytes_def slice_def)

lemma from_signature_split:
  "length sig = 64 \<Longrightarrow> from_signature sig p = Some (SignatureInfo (take 32 sig) (drop 32 sig) p)"
  by (simp add: from_signature_def slice_def)

lemma privkey_sign_ok:
  fixes E :: "'z dalek_scheme" and sk msg :: bytes
  assumes ok: "dalek_key_ok E sk"
  defines "sig \<equiv> expanded_sign E sk msg (public_from_secret E sk)"
  shows "privkey_sign E \<lparr>priv_inner = H256 sk\<rparr> msg =
    Some (Inr (SignatureInfo (take 32 sig) (drop 32 sig) (public_from_secret E sk)))"
proof -
  from ok have len: "length sig = 64"
    by (simp add: dalek_key_ok_def sig_def Let_def)
  show ?thesis
    using ok from_signature_split [OF len]
    by (simp add: privkey_sign_def to_secrit_key_def privkey_to_bytes_def privkey_to_pubkey_def
        pubkey_to_pubkey_def pubkey_to_bytes_def dalek_key_ok_def sig_def)
qed

lemma privkey_to_pubkey_ok:
  "dalek_key_ok E sk \<Longrightarrow>
   privkey_to_pubkey E \<lparr>priv_inner = H256 sk\<rparr> = Inr \<lparr>pub_inner = H256 (public_from_secret E sk)\<rparr>"
  by (simp add: privkey_to_pubkey_def to_secrit_key_def privkey_to_bytes_def dalek_key_ok_def)

lemma sign_then_verify:
  assumes ok: "dalek_key_ok E sk"
    and s: "privkey_sign E \<lparr>priv_inner = H256 sk\<rparr> msg = Some (Inr si)"
  shows "pubkey_verify E \<lparr>pub_inner = H256 (public_from_secret E sk)\<rparr> (H256 msg) si = Some (Inr ())"
proof -
  let ?pk = "public_from_secret E sk"
  let ?sig = "expanded_sign E sk msg ?pk"
  from s privkey_sign_ok [OF ok, of msg]
  have si: "si = SignatureInfo (take 32 ?sig) (drop 32 ?sig) ?pk" by simp
  show ?thesis
    using ok
    by (simp add: si pubkey_verify_def to_signature_def pubkey_to_pubkey_def pubkey_to_bytes_def
        dalek_key_ok_def Let_def)
qed

end
