(* ===== verification/Store.thy ===== *)
theory Store
  imports Keys
begin

text \<open>
  The key-value stores (src/common/store/src): the trait \<^verbatim>\<open>KVDB\<close>, its implementation \<^verbatim>\<open>MemoryKV\<close>
  on a \<^verbatim>\<open>HashMap\<close>, and \<^verbatim>\<open>MapDB\<close> on RocksDB. The trait's contract is the locale \<open>kvdb\<close>; \<^verbatim>\<open>MemoryKV\<close>
  is an interpretation of it. RocksDB is a parameter, the record \<open>rocksdb\<close>.
\<close>

datatype io_error = IoError string

section \<open>The trait KVDB\<close>

record 'kv kvdb_impl =
  kv_get :: "'kv \<Rightarrow> bytes \<Rightarrow> io_error + bytes option"
  kv_put :: "'kv \<Rightarrow> bytes \<Rightarrow> bytes \<Rightarrow> io_error + 'kv"
  kv_remove :: "'kv \<Rightarrow> bytes \<Rightarrow> io_error + 'kv"

text \<open>
  The contract: every call succeeds and the store behaves as a dictionary. \<open>content\<close> is the
  dictionary a store stands for.
\<close>

locale kvdb =
  fixes get :: "'kv \<Rightarrow> bytes \<Rightarrow> io_error + bytes option"
    and put :: "'kv \<Rightarrow> bytes \<Rightarrow> bytes \<Rightarrow> io_error + 'kv"
    and remove :: "'kv \<Rightarrow> bytes \<Rightarrow> io_error + 'kv"
    and content :: "'kv \<Rightarrow> bytes \<Rightarrow> bytes option"
  assumes get_content: "get db k = Inr (content db k)"
    and put_content: "\<exists>db'. put db k v = Inr db' \<and> content db' = (content db)(k \<mapsto> v)"
    and remove_content: "\<exists>db'. remove db k = Inr db' \<and> content db' = (content db)(k := None)"
begin

lemma get_put_same: "put db k v = Inr db' \<Longrightarrow> get db' k = Inr (Some v)"
  using put_content [of db k v] by (auto simp: get_content)

lemma get_put_other: "put db k v = Inr db' \<Longrightarrow> k' \<noteq> k \<Longrightarrow> get db' k' = get db k'"
  using put_content [of db k v] by (auto simp: get_content)

lemma get_remove: "remove db k = Inr db' \<Longrightarrow> get db' k' = (if k' = k then Inr None else get db k')"
  using remove_content [of db k] by (auto simp: get_content)

end

section \<open>MemoryKV\<close>

record memory_kv = kv_map :: "(bytes \<times> bytes) list"

definition memory_kv_new :: memory_kv where
  "memory_kv_new = \<lparr>kv_map = []\<rparr>"

definition memory_kv_put :: "memory_kv \<Rightarrow> bytes \<Rightarrow> bytes \<Rightarrow> io_error + memory_kv" where
  "memory_kv_put db k v = Inr (db\<lparr>kv_map := AList.update k v (kv_map db)\<rparr>)"

definition memory_kv_get :: "memory_kv \<Rightarrow> bytes \<Rightarrow> io_error + bytes option" where
  "memory_kv_get db k = Inr (case map_of (kv_map db) k of Some v \<Rightarrow> Some v | None \<Rightarrow> None)"

definition memory_kv_remove :: "memory_kv \<Rightarrow> bytes \<Rightarrow> io_error + memory_kv" where
  "memory_kv_remove db k = Inr (db\<lparr>kv_map := AList.delete k (kv_map db)\<rparr>)"

definition memory_kv_impl :: "memory_kv kvdb_impl" where
  "memory_kv_impl = \<lparr>kv_get = memory_kv_get, kv_put = memory_kv_put, kv_remove = memory_kv_remove\<rparr>"

interpretation mem: kvdb memory_kv_get memory_kv_put memory_kv_remove "\<lambda>db. map_of (kv_map db)"
  by unfold_locales
    (auto simp: memory_kv_get_def memory_kv_put_def memory_kv_remove_def split: option.splits)

text \<open>The contract of a chosen implementation, as a hypothesis on its record of operations.\<close>

definition kvdb_ok :: "('kv, 'z) kvdb_impl_scheme \<Rightarrow> ('kv \<Rightarrow> bytes \<Rightarrow> bytes option) \<Rightarrow> bool" where
  "kvdb_ok K content \<longleftrightarrow> kvdb (kv_get K) (kv_put K) (kv_remove K) content"

lemma memory_kv_ok: "kvdb_ok memory_kv_impl (\<lambda>db. map_of (kv_map db))"
  by (simp add: kvdb_ok_def memory_kv_impl_def mem.kvdb_axioms)

section \<open>MapDB\<close>

text \<open>
  RocksDB, the parameter: reads, writes and deletes that may fail. The inherent methods of
  \<^verbatim>\<open>MapDB\<close> hand the write errors on and unwrap the read errors.
\<close>

record 'r rocksdb =
  rocks_get :: "'r \<Rightarrow> bytes \<Rightarrow> string + bytes option"
  rocks_put :: "'r \<Rightarrow> bytes \<Rightarrow> bytes \<Rightarrow> string + 'r"
  rocks_delete :: "'r \<Rightarrow> bytes \<Rightarrow> string + 'r"

record 'r map_db = db_inner :: 'r

definition map_db_put :: "('r, 'z) rocksdb_scheme \<Rightarrow> 'r map_db \<Rightarrow> bytes \<Rightarrow> bytes \<Rightarrow> string + 'r map_db" where
  "map_db_put R db k v =
    (case rocks_put R (db_inner db) k v of Inl e \<Rightarrow> Inl e | Inr r \<Rightarrow> Inr (db\<lparr>db_inner := r\<rparr>))"

definition map_db_get :: "('r, 'z) rocksdb_scheme \<Rightarrow> 'r map_db \<Rightarrow> bytes \<Rightarrow> bytes option option" where
  "map_db_get R db k = unwrap_ok (rocks_get R (db_inner db) k)"

definition map_db_remove :: "('r, 'z) rocksdb_scheme \<Rightarrow> 'r map_db \<Rightarrow> bytes \<Rightarrow> string + 'r map_db" where
  "map_db_remove R db k =
    (case rocks_delete R (db_inner db) k of Inl e \<Rightarrow> Inl e | Inr r \<Rightarrow> Inr (db\<lparr>db_inner := r\<rparr>))"

definition map_db_exists :: "('r, 'z) rocksdb_scheme \<Rightarrow> 'r map_db \<Rightarrow> bytes \<Rightarrow> string + bool" where
  "map_db_exists R db k =
    (case rocks_get R (db_inner db) k of Inl e \<Rightarrow> Inl e | Inr val \<Rightarrow> Inr (val \<noteq> None))"

text \<open>What the code relies on: RocksDB is a dictionary whose calls succeed.\<close>

definition rocksdb_ok :: "('r, 'z) rocksdb_scheme \<Rightarrow> ('r \<Rightarrow> bytes \<Rightarrow> bytes option) \<Rightarrow> bool" where
  "rocksdb_ok R content \<longleftrightarrow>
    (\<forall>r k. rocks_get R r k = Inr (content r k)) \<and>
    (\<forall>r k v. \<exists>r'. rocks_put R r k v = Inr r' \<and> content r' = (content r)(k \<mapsto> v)) \<and>
    (\<forall>r k. \<exists>r'. rocks_delete R r k = Inr r' \<and> content r' = (content r)(k := None))"

definition map_db_content :: "('r \<Rightarrow> bytes \<Rightarrow> bytes option) \<Rightarrow> 'r map_db \<Rightarrow> bytes \<Rightarrow> bytes option" where
  "map_db_content content db = content (db_inner db)"

lemma map_db_getD: "rocksdb_ok R c \<Longrightarrow> map_db_get R db k = Some (map_db_content c db k)"
  by (simp add: rocksdb_ok_def map_db_get_def map_db_content_def)

lemma map_db_putD:
  assumes "rocksdb_ok R c"
  obtains db' where "map_db_put R db k v = Inr db'"
    "map_db_content c db' = (map_db_content c db)(k \<mapsto> v)"
proof -
  from assms obtain r' where "rocks_put R (db_inner db) k v = Inr r'"
      "c r' = (c (db_inner db))(k \<mapsto> v)"
    unfolding rocksdb_ok_def by blast
  then show thesis
    by (intro that [of "db\<lparr>db_inner := r'\<rparr>"]) (simp_all add: map_db_put_def map_db_content_def fun_eq_iff)
qed

lemma map_db_removeD:
  assumes "rocksdb_ok R c"
  obtains db' where "map_db_remove R db k = Inr db'"
    "map_db_content c db' = (map_db_content c db)(k := None)"
proof -
  from assms obtain r' where "rocks_delete R (db_inner db) k = Inr r'"
      "c r' = (c (db_inner db))(k := None)"
    unfolding rocksdb_ok_def by blast
  then show thesis
    by (intro that [of "db\<lparr>db_inner := r'\<rparr>"]) (simp_all add: map_db_remove_def map_db_content_def fun_eq_iff)
qed

text \<open>\<^verbatim>\<open>impl KVDB for MapDB\<close>: a RocksDB error is a panic of the caller, not an \<^verbatim>\<open>io::Error\<close>.\<close>

definition map_db_kv_put :: "('r, 'z) rocksdb_scheme \<Rightarrow> 'r map_db \<Rightarrow> bytes \<Rightarrow> bytes \<Rightarrow> (io_error + 'r map_db) option" where
  "map_db_kv_put R db k v = do { r \<leftarrow> unwrap_ok (rocks_put R (db_inner db) k v); Some (Inr (db\<lparr>db_inner := r\<rparr>)) }"

definition map_db_kv_get :: "('r, 'z) rocksdb_scheme \<Rightarrow> 'r map_db \<Rightarrow> bytes \<Rightarrow> (io_error + bytes option) option" where
  "map_db_kv_get R db k = do { v \<leftarrow> unwrap_ok (rocks_get R (db_inner db) k); Some (Inr v) }"

definition map_db_kv_remove :: "('r, 'z) rocksdb_scheme \<Rightarrow> 'r map_db \<Rightarrow> bytes \<Rightarrow> (io_error + 'r map_db) option" where
  "map_db_kv_remove R db k = do { r \<leftarrow> unwrap_ok (rocks_delete R (db_inner db) k); Some (Inr (db\<lparr>db_inner := r\<rparr>)) }"

end
