(* ===== verification/State.thy ===== *)
theory State
  imports Store
begin

text \<open>
  The state storage of the core crate (src/core/src/state.rs, with the hasher and constants of
  src/core/src/trie.rs): \<^verbatim>\<open>ArchiveDB\<close> and \<^verbatim>\<open>CachingDB\<close>, two node stores that put a reference
  counted \<^verbatim>\<open>MemoryDB\<close> in front of a \<^verbatim>\<open>KVDB\<close>, and \<^verbatim>\<open>StateDB\<close>, the key-value state of the chain:
  a trie in an \<^verbatim>\<open>ArchiveDB\<close> under a layer of uncommitted changes. \<^verbatim>\<open>MemoryDB\<close> (crate memory-db) and
  the Patricia trie (crate trie-db) are parameters.
\<close>

section \<open>Parameters\<close>

text \<open>The prefix of \<^verbatim>\<open>hash_db::Prefix\<close>, handed through to the \<^verbatim>\<open>MemoryDB\<close>.\<close>

type_synonym prefix = "bytes \<times> u8 option"

abbreviation EMPTY_PREFIX :: prefix where
  "EMPTY_PREFIX \<equiv> ([], None)"

record 'm memory_db_impl =
  mdb_new :: "bytes \<Rightarrow> 'm"
  mdb_raw :: "'m \<Rightarrow> hash \<Rightarrow> prefix \<Rightarrow> (bytes \<times> int) option"
  mdb_insert :: "'m \<Rightarrow> prefix \<Rightarrow> bytes \<Rightarrow> 'm \<times> hash"
  mdb_emplace :: "'m \<Rightarrow> hash \<Rightarrow> prefix \<Rightarrow> bytes \<Rightarrow> 'm"
  mdb_remove :: "'m \<Rightarrow> hash \<Rightarrow> prefix \<Rightarrow> 'm"
  mdb_drain :: "'m \<Rightarrow> (hash \<times> bytes \<times> int) list \<times> 'm"

text \<open>
  The trie reads nodes through \<^verbatim>\<open>HashDB::get\<close>, a function \<open>lookup\<close> here, and a \<^verbatim>\<open>TrieDBMut\<close> that
  is dropped writes its new nodes with the \<^verbatim>\<open>HashDB\<close> operations it returns, in order.
\<close>

type_synonym lookup = "hash \<Rightarrow> prefix \<Rightarrow> bytes option option"

datatype db_op =
    Insert prefix bytes
  | Emplace hash prefix bytes
  | Remove hash prefix

record 't trie_impl =
  trie_new :: "lookup \<Rightarrow> hash \<Rightarrow> bool"
  trie_get :: "lookup \<Rightarrow> hash \<Rightarrow> bytes \<Rightarrow> bytes option option"
  tmut_from_existing :: "lookup \<Rightarrow> hash \<Rightarrow> 't option"
  tmut_insert :: "lookup \<Rightarrow> 't \<Rightarrow> bytes \<Rightarrow> bytes \<Rightarrow> 't option"
  tmut_remove :: "lookup \<Rightarrow> 't \<Rightarrow> bytes \<Rightarrow> 't option"
  tmut_drop :: "lookup \<Rightarrow> 't \<Rightarrow> db_op list \<times> hash"

record payload =
  p_count :: u32
  p_value :: bytes

record ('kv, 'm, 't) storage_env = dalek +
  kv :: "'kv kvdb_impl"
  mdb :: "'m memory_db_impl"
  trie :: "'t trie_impl"
  payload_codec :: "payload codec"

section \<open>The hasher of the trie\<close>

definition HASHED_NULL_NODE_BYTES :: bytes where
  "HASHED_NULL_NODE_BYTES =
    [0x3a, 0xc4, 0xbf, 0x3c, 0xc9, 0x2d, 0x05, 0x46, 0x3d, 0x1e, 0x9c, 0x40, 0x24, 0xca, 0xab, 0x4c,
     0x78, 0x0f, 0x9d, 0x99, 0xd2, 0x4d, 0xd2, 0xf4, 0x55, 0x70, 0x86, 0x94, 0xb5, 0x0a, 0x00, 0xc9]"

definition NULL_ROOT :: hash where
  "NULL_ROOT = Hash HASHED_NULL_NODE_BYTES"

definition EMPTY_TRIE :: bytes where
  "EMPTY_TRIE = [0x80]"

definition blake2_hasher_hash :: "'z crates_scheme \<Rightarrow> bytes \<Rightarrow> hash" where
  "blake2_hasher_hash E x = hash_from_bytes (blake2b_256 E x)"

section \<open>ArchiveDB\<close>

record ('kv, 'm) archive_db =
  backend :: 'kv
  cached :: 'm

definition archive_new :: "('kv, 'm, 't, 'z) storage_env_scheme \<Rightarrow> 'kv \<Rightarrow> ('kv, 'm) archive_db" where
  "archive_new E b = \<lparr>backend = b, cached = mdb_new (mdb E) EMPTY_TRIE\<rparr>"

definition archive_payload ::
  "('kv, 'm, 't, 'z) storage_env_scheme \<Rightarrow> ('kv, 'm) archive_db \<Rightarrow> hash \<Rightarrow> bytes option option" where
  "archive_payload E db key = unwrap_ok (kv_get (kv E) (backend db) (as_bytes key))"

fun archive_commit_loop ::
  "('kv, 'm, 't, 'z) storage_env_scheme \<Rightarrow> 'kv \<Rightarrow> (hash \<times> bytes \<times> int) list \<Rightarrow> 'kv option" where
  "archive_commit_loop E b [] = Some b"
| "archive_commit_loop E b ((key, value, rc) # rest) =
    (if rc > 0
     then do { b' \<leftarrow> unwrap_ok (kv_put (kv E) b (as_bytes key) value); archive_commit_loop E b' rest }
     else archive_commit_loop E b rest)"

definition archive_commit ::
  "('kv, 'm, 't, 'z) storage_env_scheme \<Rightarrow> ('kv, 'm) archive_db \<Rightarrow> ('kv, 'm) archive_db option" where
  "archive_commit E db =
    (let (entries, m) = mdb_drain (mdb E) (cached db)
     in do { b \<leftarrow> archive_commit_loop E (backend db) entries; Some \<lparr>backend = b, cached = m\<rparr> })"

definition archive_get ::
  "('kv, 'm, 't, 'z) storage_env_scheme \<Rightarrow> ('kv, 'm) archive_db \<Rightarrow> hash \<Rightarrow> prefix \<Rightarrow> bytes option option" where
  "archive_get E db key prefix =
    (case mdb_raw (mdb E) (cached db) key prefix of
       Some (d, rc) \<Rightarrow> if rc > 0 then Some (Some d) else archive_payload E db key
     | None \<Rightarrow> archive_payload E db key)"

definition archive_contains ::
  "('kv, 'm, 't, 'z) storage_env_scheme \<Rightarrow> ('kv, 'm) archive_db \<Rightarrow> hash \<Rightarrow> prefix \<Rightarrow> bool option" where
  "archive_contains E db key prefix = do { r \<leftarrow> archive_get E db key prefix; Some (r \<noteq> None) }"

definition archive_insert ::
  "('kv, 'm, 't, 'z) storage_env_scheme \<Rightarrow> ('kv, 'm) archive_db \<Rightarrow> prefix \<Rightarrow> bytes
     \<Rightarrow> ('kv, 'm) archive_db \<times> hash" where
  "archive_insert E db prefix value =
    (let (m, key) = mdb_insert (mdb E) (cached db) prefix value in (db\<lparr>cached := m\<rparr>, key))"

definition archive_emplace ::
  "('kv, 'm, 't, 'z) storage_env_scheme \<Rightarrow> ('kv, 'm) archive_db \<Rightarrow> hash \<Rightarrow> prefix \<Rightarrow> bytes
     \<Rightarrow> ('kv, 'm) archive_db" where
  "archive_emplace E db key prefix value =
    db\<lparr>cached := mdb_emplace (mdb E) (cached db) key prefix value\<rparr>"

definition archive_remove ::
  "('kv, 'm, 't, 'z) storage_env_scheme \<Rightarrow> ('kv, 'm) archive_db \<Rightarrow> hash \<Rightarrow> prefix
     \<Rightarrow> ('kv, 'm) archive_db" where
  "archive_remove E db key prefix = db\<lparr>cached := mdb_remove (mdb E) (cached db) key prefix\<rparr>"

text \<open>The operations of a dropped \<^verbatim>\<open>TrieDBMut\<close>, run against the store it borrows.\<close>

fun archive_apply ::
  "('kv, 'm, 't, 'z) storage_env_scheme \<Rightarrow> ('kv, 'm) archive_db \<Rightarrow> db_op list \<Rightarrow> ('kv, 'm) archive_db" where
  "archive_apply E db [] = db"
| "archive_apply E db (Insert p v # ops) = archive_apply E (fst (archive_insert E db p v)) ops"
| "archive_apply E db (Emplace k p v # ops) = archive_apply E (archive_emplace E db k p v) ops"
| "archive_apply E db (Remove k p # ops) = archive_apply E (archive_remove E db k p) ops"

section \<open>CachingDB\<close>

type_synonym ('kv, 'm) caching_db = "('kv, 'm) archive_db"

definition payload_new :: "u32 \<Rightarrow> bytes \<Rightarrow> payload" where
  "payload_new c v = \<lparr>p_count = c, p_value = v\<rparr>"

definition caching_payload ::
  "('kv, 'm, 't, 'z) storage_env_scheme \<Rightarrow> 'kv \<Rightarrow> hash \<Rightarrow> payload option option" where
  "caching_payload E b key =
    do { r \<leftarrow> unwrap_ok (kv_get (kv E) b (as_bytes key));
         (case r of
            Some data \<Rightarrow> do { x \<leftarrow> de (payload_codec E) data; Some (Some x) }
          | None \<Rightarrow> Some None) }"

fun caching_commit_loop ::
  "('kv, 'm, 't, 'z) storage_env_scheme \<Rightarrow> 'kv \<Rightarrow> (hash \<times> bytes \<times> int) list \<Rightarrow> 'kv option" where
  "caching_commit_loop E b [] = Some b"
| "caching_commit_loop E b ((key, value, rc) # rest) =
    (if rc \<noteq> 0
     then do {
       p \<leftarrow> caching_payload E b key;
       b' \<leftarrow> (case p of
          Some x \<Rightarrow> do {
            total_rc \<leftarrow> i32_add (overflow_checks E) (sint (p_count x)) rc;
            (if total_rc < 0 then None
             else unwrap_ok (kv_put (kv E) b (as_bytes key)
               (ser (payload_codec E) (payload_new (word_of_int total_rc) (p_value x))))) }
        | None \<Rightarrow>
            (if rc < 0 then None
             else unwrap_ok (kv_put (kv E) b (as_bytes key)
               (ser (payload_codec E) (payload_new (word_of_int rc) value)))));
       caching_commit_loop E b' rest }
     else caching_commit_loop E b rest)"

definition caching_commit ::
  "('kv, 'm, 't, 'z) storage_env_scheme \<Rightarrow> ('kv, 'm) caching_db \<Rightarrow> ('kv, 'm) caching_db option" where
  "caching_commit E db =
    (let (entries, m) = mdb_drain (mdb E) (cached db)
     in do { b \<leftarrow> caching_commit_loop E (backend db) entries; Some \<lparr>backend = b, cached = m\<rparr> })"

definition caching_get ::
  "('kv, 'm, 't, 'z) storage_env_scheme \<Rightarrow> ('kv, 'm) caching_db \<Rightarrow> hash \<Rightarrow> prefix \<Rightarrow> bytes option option" where
  "caching_get E db key prefix =
    (let k = mdb_raw (mdb E) (cached db) key prefix
     in case k of
          Some (d, rc) \<Rightarrow>
            (if rc > 0 then Some (Some d)
             else do {
               p \<leftarrow> caching_payload E (backend db) key;
               (case p of
                  Some x \<Rightarrow> do {
                    s \<leftarrow> i32_add (overflow_checks E) (sint (p_count x)) rc;
                    Some (if s > 0 then Some (p_value x) else None) }
                | None \<Rightarrow> Some None) })
        | None \<Rightarrow> do {
            p \<leftarrow> caching_payload E (backend db) key;
            (case p of
               Some x \<Rightarrow> do {
                 s \<leftarrow> i32_add (overflow_checks E) (sint (p_count x)) 0;
                 Some (if s > 0 then Some (p_value x) else None) }
             | None \<Rightarrow> Some None) })"

definition caching_contains ::
  "('kv, 'm, 't, 'z) storage_env_scheme \<Rightarrow> ('kv, 'm) caching_db \<Rightarrow> hash \<Rightarrow> prefix \<Rightarrow> bool option" where
  "caching_contains E db key prefix =
    (let k = mdb_raw (mdb E) (cached db) key prefix
     in if (case k of Some (_, rc) \<Rightarrow> rc > 0 | None \<Rightarrow> False) then Some True
        else let memrc = (case k of Some (_, rc) \<Rightarrow> rc | None \<Rightarrow> 0)
             in do {
               p \<leftarrow> caching_payload E (backend db) key;
               (case p of
                  Some x \<Rightarrow> do {
                    s \<leftarrow> i32_add (overflow_checks E) (sint (p_count x)) memrc;
                    Some (s > 0) }
                | None \<Rightarrow> Some False) })"

section \<open>StateDB\<close>

record ('kv, 'm) state_db =
  sdb :: "('kv, 'm) archive_db"
  state_root :: hash
  local_changes :: "(hash \<times> bytes option) list"

definition state_new :: "('kv, 'm) archive_db \<Rightarrow> ('kv, 'm) state_db" where
  "state_new d = \<lparr>sdb = d, state_root = NULL_ROOT, local_changes = []\<rparr>"

definition state_from_existing :: "('kv, 'm) archive_db \<Rightarrow> hash \<Rightarrow> ('kv, 'm) state_db" where
  "state_from_existing d root = \<lparr>sdb = d, state_root = root, local_changes = []\<rparr>"

definition set_storage :: "('kv, 'm) state_db \<Rightarrow> hash \<Rightarrow> bytes \<Rightarrow> ('kv, 'm) state_db" where
  "set_storage s key value = s\<lparr>local_changes := AList.update key (Some value) (local_changes s)\<rparr>"

definition get_storage ::
  "('kv, 'm, 't, 'z) storage_env_scheme \<Rightarrow> ('kv, 'm) state_db \<Rightarrow> hash \<Rightarrow> bytes option option" where
  "get_storage E s key =
    (case map_of (local_changes s) key of
       Some data \<Rightarrow> Some data
     | None \<Rightarrow>
        (if trie_new (trie E) (archive_get E (sdb s)) (state_root s)
         then trie_get (trie E) (archive_get E (sdb s)) (state_root s) (as_bytes key)
         else Some None))"

definition remove_storage :: "('kv, 'm) state_db \<Rightarrow> hash \<Rightarrow> ('kv, 'm) state_db" where
  "remove_storage s key = s\<lparr>local_changes := AList.update key None (local_changes s)\<rparr>"

fun state_commit_loop ::
  "('kv, 'm, 't, 'z) storage_env_scheme \<Rightarrow> lookup \<Rightarrow> 't \<Rightarrow> (hash \<times> bytes option) list \<Rightarrow> 't option" where
  "state_commit_loop E lk t [] = Some t"
| "state_commit_loop E lk t ((key, data) # rest) =
    (case data of
       Some d \<Rightarrow> do { t' \<leftarrow> tmut_insert (trie E) lk t (as_bytes key) d; state_commit_loop E lk t' rest }
     | None \<Rightarrow> do { t' \<leftarrow> tmut_remove (trie E) lk t (as_bytes key); state_commit_loop E lk t' rest })"

definition state_commit ::
  "('kv, 'm, 't, 'z) storage_env_scheme \<Rightarrow> ('kv, 'm) state_db \<Rightarrow> ('kv, 'm) state_db option" where
  "state_commit E s =
    (let lk = archive_get E (sdb s)
     in do {
       t \<leftarrow> tmut_from_existing (trie E) lk (state_root s);
       t' \<leftarrow> state_commit_loop E lk t (local_changes s);
       (let (ops, root) = tmut_drop (trie E) lk t'
        in do {
          d \<leftarrow> archive_commit E (archive_apply E (sdb s) ops);
          Some (s\<lparr>sdb := d, state_root := root\<rparr>) }) })"


section \<open>Interfaces\<close>

text \<open>The reading half of the trait \<^verbatim>\<open>hash_db::HashDB\<close>: \<^verbatim>\<open>contains\<close> answers whether \<^verbatim>\<open>get\<close> finds a value.\<close>

locale hash_db_read =
  fixes get :: "'db \<Rightarrow> hash \<Rightarrow> prefix \<Rightarrow> bytes option option"
    and contains :: "'db \<Rightarrow> hash \<Rightarrow> prefix \<Rightarrow> bool option"
  assumes contains_get: "contains d k p = map_option (\<lambda>r. r \<noteq> None) (get d k p)"
begin

lemma contains_TrueD: "contains d k p = Some True \<Longrightarrow> \<exists>v. get d k p = Some (Some v)"
  by (auto simp: contains_get)

lemma contains_FalseD: "contains d k p = Some False \<Longrightarrow> get d k p = Some None"
  by (auto simp: contains_get)

end

interpretation arch: hash_db_read "archive_get E" "archive_contains E" for E
  by unfold_locales (auto simp: archive_contains_def map_option_case split: option.splits)

interpretation cach: hash_db_read "caching_get E" "caching_contains E" for E
proof (unfold_locales, goal_cases)
  case (1 d k p)
  show ?case
  proof (cases "mdb_raw (mdb E) (cached d) k p")
    case None
    then show ?thesis
      by (cases "caching_payload E (backend d) k")
        (auto simp: caching_contains_def caching_get_def Let_def split: option.splits bind_splits)
  next
    case (Some a)
    then show ?thesis
      by (cases a; cases "caching_payload E (backend d) k")
        (auto simp: caching_contains_def caching_get_def Let_def split: option.splits bind_splits)
  qed
qed

text \<open>
  What \<^verbatim>\<open>Balance\<close> and \<^verbatim>\<open>Staking\<close> use of a \<^verbatim>\<open>StateDB\<close>: a dictionary from hashes to byte strings in
  which a read may panic (the outer \<^term>\<open>None\<close>) on keys that were not written.
\<close>

locale storage =
  fixes get :: "'s \<Rightarrow> hash \<Rightarrow> bytes option option"
    and set :: "'s \<Rightarrow> hash \<Rightarrow> bytes \<Rightarrow> 's"
    and remove :: "'s \<Rightarrow> hash \<Rightarrow> 's"
  assumes get_set: "get (set s k v) = (get s)(k \<mapsto> Some v)"
    and get_remove: "get (remove s k) = (get s)(k \<mapsto> None)"
begin

lemma get_set_same: "get (set s k v) k = Some (Some v)"
  by (simp add: get_set)

lemma get_set_other: "k' \<noteq> k \<Longrightarrow> get (set s k v) k' = get s k'"
  by (simp add: get_set)

lemma get_remove_same: "get (remove s k) k = Some None"
  by (simp add: get_remove)

end

interpretation st: storage "get_storage E" set_storage remove_storage for E
  by unfold_locales
    (auto simp: get_storage_def set_storage_def remove_storage_def fun_eq_iff split: option.splits)

lemmas storage_simps [simp] = st.get_set st.get_remove

section \<open>What the code relies on\<close>

text \<open>
  \<^verbatim>\<open>MemoryDB\<close> with \<^verbatim>\<open>HashKey\<close>: a reference counted dictionary that ignores the prefix and answers the
  null node itself. A value is replaced when its count is not positive.
\<close>

fun mdb_emplaced :: "(bytes \<times> int) option \<Rightarrow> bytes \<Rightarrow> bytes \<times> int" where
  "mdb_emplaced None v = (v, 1)"
| "mdb_emplaced (Some (old, rc)) v = (if rc \<le> 0 then v else old, rc + 1)"

fun mdb_removed :: "(bytes \<times> int) option \<Rightarrow> bytes \<times> int" where
  "mdb_removed None = ([], - 1)"
| "mdb_removed (Some (old, rc)) = (old, rc - 1)"

definition mdb_empty :: "('m, 'z) memory_db_impl_scheme \<Rightarrow> 'm \<Rightarrow> bool" where
  "mdb_empty M m \<longleftrightarrow> (\<forall>k p. mdb_raw M m k p = (if k = NULL_ROOT then Some (EMPTY_TRIE, 1) else None))"

lemma mdb_emptyD:
  "mdb_empty M m \<Longrightarrow> mdb_raw M m k p = (if k = NULL_ROOT then Some (EMPTY_TRIE, 1) else None)"
  unfolding mdb_empty_def by blast

definition memory_db_ok :: "('kv, 'm, 't, 'z) storage_env_scheme \<Rightarrow> bool" where
  "memory_db_ok E \<longleftrightarrow>
    mdb_empty (mdb E) (mdb_new (mdb E) EMPTY_TRIE) \<and>
    (\<forall>m k p v k' p'. mdb_raw (mdb E) (mdb_emplace (mdb E) m k p v) k' p' =
       (if k' = k \<and> k \<noteq> NULL_ROOT \<and> v \<noteq> EMPTY_TRIE then Some (mdb_emplaced (mdb_raw (mdb E) m k p) v)
        else mdb_raw (mdb E) m k' p')) \<and>
    (\<forall>m p v. mdb_insert (mdb E) m p v =
       (if v = EMPTY_TRIE then (m, NULL_ROOT)
        else (mdb_emplace (mdb E) m (blake2_hasher_hash E v) p v, blake2_hasher_hash E v))) \<and>
    (\<forall>m k p k' p'. mdb_raw (mdb E) (mdb_remove (mdb E) m k p) k' p' =
       (if k' = k \<and> k \<noteq> NULL_ROOT then Some (mdb_removed (mdb_raw (mdb E) m k p))
        else mdb_raw (mdb E) m k' p')) \<and>
    (\<forall>m. keys_distinct (fst (mdb_drain (mdb E) m)) \<and> mdb_empty (mdb E) (snd (mdb_drain (mdb E) m)) \<and>
       (\<forall>k p. k \<noteq> NULL_ROOT \<longrightarrow> map_of (fst (mdb_drain (mdb E) m)) k = mdb_raw (mdb E) m k p) \<and>
       (\<forall>p. mdb_raw (mdb E) m NULL_ROOT p = Some (EMPTY_TRIE, 1)))"

lemma memory_db_okD:
  assumes "memory_db_ok E"
  shows "mdb_empty (mdb E) (mdb_new (mdb E) EMPTY_TRIE)"
    and "mdb_raw (mdb E) (mdb_emplace (mdb E) m k p v) k' p' =
       (if k' = k \<and> k \<noteq> NULL_ROOT \<and> v \<noteq> EMPTY_TRIE then Some (mdb_emplaced (mdb_raw (mdb E) m k p) v)
        else mdb_raw (mdb E) m k' p')"
    and "mdb_insert (mdb E) m p v =
       (if v = EMPTY_TRIE then (m, NULL_ROOT)
        else (mdb_emplace (mdb E) m (blake2_hasher_hash E v) p v, blake2_hasher_hash E v))"
    and "mdb_raw (mdb E) (mdb_remove (mdb E) m k p) k' p' =
       (if k' = k \<and> k \<noteq> NULL_ROOT then Some (mdb_removed (mdb_raw (mdb E) m k p))
        else mdb_raw (mdb E) m k' p')"
    and "keys_distinct (fst (mdb_drain (mdb E) m))"
    and "mdb_empty (mdb E) (snd (mdb_drain (mdb E) m))"
    and "k \<noteq> NULL_ROOT \<Longrightarrow> map_of (fst (mdb_drain (mdb E) m)) k = mdb_raw (mdb E) m k p"
    and "mdb_raw (mdb E) m NULL_ROOT p = Some (EMPTY_TRIE, 1)"
  using assms unfolding memory_db_ok_def by blast+

section \<open>ArchiveDB: a commit keeps what can be read\<close>

definition archive_clean :: "('kv, 'm, 't, 'z) storage_env_scheme \<Rightarrow> ('kv, 'm) archive_db \<Rightarrow> bool" where
  "archive_clean E d \<longleftrightarrow> mdb_empty (mdb E) (cached d)"

lemma archive_new_clean: "memory_db_ok E \<Longrightarrow> archive_clean E (archive_new E b)"
  by (simp add: archive_clean_def archive_new_def memory_db_okD(1))

lemma archive_payload_content:
  "kvdb_ok (kv E) c \<Longrightarrow> archive_payload E d k = Some (c (backend d) (as_bytes k))"
  by (simp add: kvdb_ok_def archive_payload_def kvdb.get_content)

lemma archive_get_content:
  assumes "kvdb_ok (kv E) c"
  shows "archive_get E d k p =
    Some (case mdb_raw (mdb E) (cached d) k p of
       Some (v, rc) \<Rightarrow> if rc > 0 then Some v else c (backend d) (as_bytes k)
     | None \<Rightarrow> c (backend d) (as_bytes k))"
  by (auto simp: archive_get_def archive_payload_content [OF assms] split: option.splits)

lemma kv_putD:
  assumes "kvdb_ok K c"
  obtains b' where "kv_put K b k v = Inr b'" "c b' = (c b)(k \<mapsto> v)"
  using assms kvdb.put_content unfolding kvdb_ok_def by metis

lemma archive_commit_loop_content:
  assumes "kvdb_ok (kv E) c" "keys_distinct xs"
  shows "\<exists>b'. archive_commit_loop E b xs = Some b' \<and>
    (\<forall>k. c b' (as_bytes k) =
      (case map_of xs k of
         Some (v, rc) \<Rightarrow> if rc > 0 then Some v else c b (as_bytes k)
       | None \<Rightarrow> c b (as_bytes k)))"
  using assms(2)
proof (induction xs arbitrary: b)
  case (Cons x xs)
  obtain key v rc where x: "x = (key, v, rc)" by (cases x) auto
  from Cons.prems have d: "keys_distinct xs" "map_of xs key = None"
    by (auto simp: x map_of_eq_None_iff)
  obtain b1 where b1: "kv_put (kv E) b (as_bytes key) v = Inr b1" "c b1 = (c b)(as_bytes key \<mapsto> v)"
    using kv_putD [OF assms(1)] by blast
  let ?c = "if rc > 0 then b1 else b"
  obtain b' where b': "archive_commit_loop E ?c xs = Some b'"
      "\<And>k. c b' (as_bytes k) = (case map_of xs k of
         Some (v, rc) \<Rightarrow> if rc > 0 then Some v else c ?c (as_bytes k) | None \<Rightarrow> c ?c (as_bytes k))"
    using Cons.IH [OF d(1), of ?c] by metis
  have "archive_commit_loop E b (x # xs) = Some b'"
    using b'(1) b1(1) by (simp add: x unwrap_ok_def split: if_splits)
  moreover have "c b' (as_bytes k) = (case map_of (x # xs) k of
      Some (v, rc) \<Rightarrow> if rc > 0 then Some v else c b (as_bytes k) | None \<Rightarrow> c b (as_bytes k))" for k
    using d(2) b1(2) by (cases "k = key") (simp_all add: b'(2) x split: option.split)
  ultimately show ?case by blast
qed auto

lemma archive_commit_reads:
  assumes "kvdb_ok (kv E) c" "memory_db_ok E"
  obtains d' where "archive_commit E d = Some d'" "archive_clean E d'"
    "\<And>k p. archive_get E d' k p = archive_get E d k p"
proof -
  obtain xs m where dr: "mdb_drain (mdb E) (cached d) = (xs, m)" by fastforce
  note D = memory_db_okD(5-8) [OF assms(2), where m = "cached d", unfolded dr fst_conv snd_conv]
  obtain b' where b': "archive_commit_loop E (backend d) xs = Some b'"
      "\<And>k. c b' (as_bytes k) = (case map_of xs k of
         Some (v, rc) \<Rightarrow> if rc > 0 then Some v else c (backend d) (as_bytes k)
       | None \<Rightarrow> c (backend d) (as_bytes k))"
    using archive_commit_loop_content [OF assms(1) D(1)] by metis
  show thesis
  proof (rule that)
    show "archive_commit E d = Some \<lparr>backend = b', cached = m\<rparr>"
      by (simp add: archive_commit_def dr b')
    show "archive_clean E \<lparr>backend = b', cached = m\<rparr>"
      using D(2) by (simp add: archive_clean_def)
    show "archive_get E \<lparr>backend = b', cached = m\<rparr> k p = archive_get E d k p" for k p
    proof -
      have "mdb_raw (mdb E) m k p = (if k = NULL_ROOT then Some (EMPTY_TRIE, 1) else None)"
        using D(2) by (rule mdb_emptyD)
      then show ?thesis
        using D(3) [of k p] D(4) [of p]
        by (cases "k = NULL_ROOT") (simp_all add: archive_get_content [OF assms(1)] b')
    qed
  qed
qed


section \<open>StateDB: a commit persists the changes\<close>

text \<open>
  What the code relies on of \<^verbatim>\<open>trie_db\<close> and of the stores below it, with ghost functions: the dictionary a
  \<^verbatim>\<open>KVDB\<close> stands for, the content of a mutable trie, when that trie is usable with a store, and the
  node with a given hash (nodes are addressed by their digest, which is taken not to collide).
\<close>

record ('kv, 't) ghost =
  g_content :: "'kv \<Rightarrow> bytes \<Rightarrow> bytes option"
  g_trie :: "'t \<Rightarrow> bytes \<Rightarrow> bytes option"
  g_live :: "lookup \<Rightarrow> 't \<Rightarrow> bool"
  g_node :: "hash \<Rightarrow> bytes"

text \<open>
  A root stands for a dictionary in a store (\<open>trie_at\<close>). Opening it yields a mutable trie with that
  content, updated by insertions (an empty value removes the key) and removals; dropping it hands its
  nodes to the store and yields a root. The nodes of that root are already in the store or are inserted
  there more often than they are removed (\<open>nodes_written\<close>), and every store that has them shows the
  content under the root. The root is a function of the content, and more nodes do not change what a
  root stands for.
\<close>

definition trie_at :: "('kv, 'm, 't, 'z) storage_env_scheme \<Rightarrow> lookup \<Rightarrow> hash \<Rightarrow> (bytes \<Rightarrow> bytes option) \<Rightarrow> bool" where
  "trie_at E lk root f \<longleftrightarrow>
    trie_new (trie E) lk root \<and> (\<forall>k. trie_get (trie E) lk root k = Some (f k))"

fun op_count :: "('kv, 'm, 't, 'z) storage_env_scheme \<Rightarrow> hash \<Rightarrow> db_op list \<Rightarrow> int" where
  "op_count E k [] = 0"
| "op_count E k (Insert p v # ops) =
    (if v \<noteq> EMPTY_TRIE \<and> blake2_hasher_hash E v = k then 1 else 0) + op_count E k ops"
| "op_count E k (Emplace k' p v # ops) = (if v \<noteq> EMPTY_TRIE \<and> k' = k then 1 else 0) + op_count E k ops"
| "op_count E k (Remove k' p # ops) = (if k' = k then - 1 else 0) + op_count E k ops"

fun op_values :: "('kv, 'm, 't, 'z) storage_env_scheme \<Rightarrow> hash \<Rightarrow> db_op list \<Rightarrow> bytes set" where
  "op_values E k [] = {}"
| "op_values E k (Insert p v # ops) = (if blake2_hasher_hash E v = k then {v} else {}) \<union> op_values E k ops"
| "op_values E k (Emplace k' p v # ops) = (if k' = k then {v} else {}) \<union> op_values E k ops"
| "op_values E k (Remove k' p # ops) = op_values E k ops"

definition nodes_written ::
  "('kv, 'm, 't, 'z) storage_env_scheme \<Rightarrow> ('kv, 't) ghost \<Rightarrow> lookup \<Rightarrow> db_op list \<Rightarrow> hash set \<Rightarrow> bool" where
  "nodes_written E G lk ops N \<longleftrightarrow>
    (\<forall>k. k \<noteq> NULL_ROOT \<longrightarrow> op_values E k ops \<subseteq> {g_node G k}) \<and>
    (\<forall>k \<in> N. (\<forall>p. lk k p = Some (Some (g_node G k))) \<or> k \<noteq> NULL_ROOT \<and> op_count E k ops > 0)"

definition has_nodes :: "('kv, 't) ghost \<Rightarrow> lookup \<Rightarrow> hash set \<Rightarrow> bool" where
  "has_nodes G lk N \<longleftrightarrow> (\<forall>k \<in> N. \<forall>p. lk k p = Some (Some (g_node G k)))"

definition extends :: "lookup \<Rightarrow> lookup \<Rightarrow> bool" where
  "extends lk lk' \<longleftrightarrow> (\<forall>k p v. lk k p = Some (Some v) \<longrightarrow> lk' k p = Some (Some v))"

definition trie_ok :: "('kv, 'm, 't, 'z) storage_env_scheme \<Rightarrow> ('kv, 't) ghost \<Rightarrow> bool" where
  "trie_ok E G \<longleftrightarrow>
    (\<forall>lk root f. trie_at E lk root f \<longrightarrow>
       (\<exists>t. tmut_from_existing (trie E) lk root = Some t \<and> g_live G lk t \<and> g_trie G t = f)) \<and>
    (\<forall>lk t k v. g_live G lk t \<longrightarrow>
       (\<exists>t'. tmut_insert (trie E) lk t k v = Some t' \<and> g_live G lk t' \<and>
          g_trie G t' = (g_trie G t)(k := (if v = [] then None else Some v)))) \<and>
    (\<forall>lk t k. g_live G lk t \<longrightarrow>
       (\<exists>t'. tmut_remove (trie E) lk t k = Some t' \<and> g_live G lk t' \<and> g_trie G t' = (g_trie G t)(k := None))) \<and>
    (\<forall>lk t. g_live G lk t \<longrightarrow>
       (\<exists>N. nodes_written E G lk (fst (tmut_drop (trie E) lk t)) N \<and>
          (\<forall>lk'. has_nodes G lk' N \<longrightarrow> trie_at E lk' (snd (tmut_drop (trie E) lk t)) (g_trie G t)))) \<and>
    (\<forall>lk lk' t t'. g_live G lk t \<and> g_live G lk' t' \<and> g_trie G t = g_trie G t' \<longrightarrow>
       snd (tmut_drop (trie E) lk t) = snd (tmut_drop (trie E) lk' t')) \<and>
    (\<forall>lk lk' root f. trie_at E lk root f \<and> extends lk lk' \<longrightarrow> trie_at E lk' root f)"

lemma trie_okD:
  assumes "trie_ok E G"
  shows "trie_at E lk root f \<Longrightarrow>
      \<exists>t. tmut_from_existing (trie E) lk root = Some t \<and> g_live G lk t \<and> g_trie G t = f"
    and "g_live G lk t \<Longrightarrow> \<exists>t'. tmut_insert (trie E) lk t k v = Some t' \<and> g_live G lk t' \<and>
      g_trie G t' = (g_trie G t)(k := (if v = [] then None else Some v))"
    and "g_live G lk t \<Longrightarrow> \<exists>t'. tmut_remove (trie E) lk t k = Some t' \<and> g_live G lk t' \<and>
      g_trie G t' = (g_trie G t)(k := None)"
    and "g_live G lk t \<Longrightarrow> \<exists>N. nodes_written E G lk (fst (tmut_drop (trie E) lk t)) N \<and>
      (\<forall>lk'. has_nodes G lk' N \<longrightarrow> trie_at E lk' (snd (tmut_drop (trie E) lk t)) (g_trie G t))"
    and "\<lbrakk>g_live G lk t; g_live G lk' t'; g_trie G t = g_trie G t'\<rbrakk> \<Longrightarrow>
      snd (tmut_drop (trie E) lk t) = snd (tmut_drop (trie E) lk' t')"
    and "\<lbrakk>trie_at E lk root f; extends lk lk'\<rbrakk> \<Longrightarrow> trie_at E lk' root f"
proof -
  note D = assms [unfolded trie_ok_def]
  note D2 = D [THEN conjunct2] and D3 = D [THEN conjunct2, THEN conjunct2]
  note D4 = D3 [THEN conjunct2] and D5 = D3 [THEN conjunct2, THEN conjunct2]
  show "trie_at E lk root f \<Longrightarrow>
      \<exists>t. tmut_from_existing (trie E) lk root = Some t \<and> g_live G lk t \<and> g_trie G t = f"
    using conjunct1 [OF D] by blast
  show "g_live G lk t \<Longrightarrow> \<exists>t'. tmut_insert (trie E) lk t k v = Some t' \<and> g_live G lk t' \<and>
      g_trie G t' = (g_trie G t)(k := (if v = [] then None else Some v))"
    using conjunct1 [OF D2] by blast
  show "g_live G lk t \<Longrightarrow> \<exists>t'. tmut_remove (trie E) lk t k = Some t' \<and> g_live G lk t' \<and>
      g_trie G t' = (g_trie G t)(k := None)"
    using conjunct1 [OF D3] by blast
  show "g_live G lk t \<Longrightarrow> \<exists>N. nodes_written E G lk (fst (tmut_drop (trie E) lk t)) N \<and>
      (\<forall>lk'. has_nodes G lk' N \<longrightarrow> trie_at E lk' (snd (tmut_drop (trie E) lk t)) (g_trie G t))"
    using conjunct1 [OF D4] by blast
  show "\<lbrakk>g_live G lk t; g_live G lk' t'; g_trie G t = g_trie G t'\<rbrakk> \<Longrightarrow>
      snd (tmut_drop (trie E) lk t) = snd (tmut_drop (trie E) lk' t')"
    using conjunct1 [OF D5] by blast
  show "\<lbrakk>trie_at E lk root f; extends lk lk'\<rbrakk> \<Longrightarrow> trie_at E lk' root f"
    using conjunct2 [OF D5] by blast
qed

definition storage_ok :: "('kv, 'm, 't, 'z) storage_env_scheme \<Rightarrow> ('kv, 't) ghost \<Rightarrow> bool" where
  "storage_ok E G \<longleftrightarrow> kvdb_ok (kv E) (g_content G) \<and> memory_db_ok E \<and> trie_ok E G"

lemma storage_okD:
  assumes "storage_ok E G"
  shows "kvdb_ok (kv E) (g_content G)" "memory_db_ok E" "trie_ok E G"
  using assms by (simp_all add: storage_ok_def)

text \<open>A store at rest: nothing cached, and under every key the node with that hash.\<close>

definition archive_ok ::
  "('kv, 'm, 't, 'z) storage_env_scheme \<Rightarrow> ('kv, 't) ghost \<Rightarrow> ('kv, 'm) archive_db \<Rightarrow> bool" where
  "archive_ok E G d \<longleftrightarrow> archive_clean E d \<and>
    (\<forall>k p v. k \<noteq> NULL_ROOT \<longrightarrow> archive_get E d k p = Some (Some v) \<longrightarrow> v = g_node G k)"

subsection \<open>The operations of a dropped trie\<close>

lemma archive_apply_backend [simp]: "backend (archive_apply E d ops) = backend d"
  by (induction E d ops rule: archive_apply.induct)
    (auto simp: archive_insert_def archive_emplace_def archive_remove_def split: prod.splits)

text \<open>The entry of a key other than the null node after a run of operations.\<close>

definition raw_tracks :: "(bytes \<times> int) option \<Rightarrow> int \<Rightarrow> bytes set \<Rightarrow> bool" where
  "raw_tracks r n V \<longleftrightarrow> (case r of None \<Rightarrow> n = 0 | Some (v, rc) \<Rightarrow> rc = n \<and> (rc > 0 \<longrightarrow> v \<in> V))"

lemma raw_tracks_emplaced: "raw_tracks r n V \<Longrightarrow> raw_tracks (Some (mdb_emplaced r v)) (n + 1) (insert v V)"
  by (cases "(r, v)" rule: mdb_emplaced.cases) (auto simp: raw_tracks_def)

lemma raw_tracks_removed: "raw_tracks r n V \<Longrightarrow> raw_tracks (Some (mdb_removed r)) (n - 1) V"
  by (cases r rule: mdb_removed.cases) (auto simp: raw_tracks_def)

lemma raw_tracks_mono: "raw_tracks r n V \<Longrightarrow> V \<subseteq> W \<Longrightarrow> raw_tracks r n W"
  by (auto simp: raw_tracks_def split: option.splits)

lemma mdb_raw_prefix:
  "memory_db_ok E \<Longrightarrow> k \<noteq> NULL_ROOT \<Longrightarrow> mdb_raw (mdb E) m k p = mdb_raw (mdb E) m k q"
  using memory_db_okD(7) [of E k m p] memory_db_okD(7) [of E k m q] by simp

lemma archive_apply_step_tracks:
  assumes "memory_db_ok E" "k \<noteq> NULL_ROOT"
    and "raw_tracks (mdb_raw (mdb E) (cached d) k p) n V"
  shows "raw_tracks (mdb_raw (mdb E) (cached (archive_apply E d [a])) k p)
    (n + op_count E k [a]) (V \<union> op_values E k [a])"
proof -
  obtain r where r: "\<And>q. mdb_raw (mdb E) (cached d) k q = r"
    using mdb_raw_prefix [OF assms(1,2)] by blast
  note M = memory_db_okD(2-4) [OF assms(1)] r
  note T = assms(2,3) [unfolded r] raw_tracks_emplaced [of r] raw_tracks_removed [of r] raw_tracks_mono [of r]
  show ?thesis
    using T(1,2) by (cases a)
      (auto simp: archive_insert_def archive_emplace_def archive_remove_def M intro: T(3-5))
qed

lemma archive_apply_tracks:
  assumes "memory_db_ok E" "k \<noteq> NULL_ROOT"
    and "raw_tracks (mdb_raw (mdb E) (cached d) k p) n V"
  shows "raw_tracks (mdb_raw (mdb E) (cached (archive_apply E d ops)) k p)
    (n + op_count E k ops) (V \<union> op_values E k ops)"
  using assms(3)
proof (induction ops arbitrary: d n V)
  case (Cons a ops)
  have "archive_apply E d (a # ops) = archive_apply E (archive_apply E d [a]) ops"
    "op_count E k (a # ops) = op_count E k [a] + op_count E k ops"
    "op_values E k (a # ops) = op_values E k [a] \<union> op_values E k ops"
    by (cases a; simp)+
  then show ?case
    using Cons.IH [OF archive_apply_step_tracks [OF assms(1,2) Cons.prems, of a]]
    by (simp add: Un_assoc add.assoc)
qed simp

text \<open>A run of operations and a commit: the nodes of the new root are there, and no node is lost.\<close>

lemma archive_get_after_apply:
  assumes "storage_ok E G" "archive_ok E G d" "\<forall>k. k \<noteq> NULL_ROOT \<longrightarrow> op_values E k ops \<subseteq> {g_node G k}"
  shows "archive_get E (archive_apply E d ops) k p =
    (if k \<noteq> NULL_ROOT \<and> op_count E k ops > 0 then Some (Some (g_node G k)) else archive_get E d k p)"
proof -
  note S = storage_okD [OF assms(1)]
  from assms(2) have clean: "mdb_raw (mdb E) (cached d) k p = (if k = NULL_ROOT then Some (EMPTY_TRIE, 1) else None)"
    by (intro mdb_emptyD) (simp add: archive_ok_def archive_clean_def)
  show ?thesis
  proof (cases "k = NULL_ROOT")
    case True
    then show ?thesis
      using memory_db_okD(8) [OF S(2)] clean by (simp add: archive_get_content [OF S(1)])
  next
    case False
    then have "raw_tracks (mdb_raw (mdb E) (cached d) k p) 0 {}"
      by (simp add: clean raw_tracks_def)
    from archive_apply_tracks [OF S(2) False this, of ops] assms(3) clean False
    show ?thesis
      by (auto simp: archive_get_content [OF S(1)] raw_tracks_def split: option.splits)
  qed
qed

lemma archive_apply_commit:
  assumes "storage_ok E G" "archive_ok E G d" "nodes_written E G (archive_get E d) ops N"
  obtains d' where "archive_commit E (archive_apply E d ops) = Some d'" "archive_ok E G d'"
    "has_nodes G (archive_get E d') N" "extends (archive_get E d) (archive_get E d')"
proof -
  note S = storage_okD [OF assms(1)]
  from assms(3) have W: "\<forall>k. k \<noteq> NULL_ROOT \<longrightarrow> op_values E k ops \<subseteq> {g_node G k}"
    "\<And>k p. k \<in> N \<Longrightarrow> archive_get E d k p = Some (Some (g_node G k)) \<or> k \<noteq> NULL_ROOT \<and> op_count E k ops > 0"
    unfolding nodes_written_def by blast+
  obtain d' where d': "archive_commit E (archive_apply E d ops) = Some d'" "archive_clean E d'"
      "\<And>k p. archive_get E d' k p = archive_get E (archive_apply E d ops) k p"
    using archive_commit_reads [OF S(1,2)] by blast
  have get: "archive_get E d' k p =
      (if k \<noteq> NULL_ROOT \<and> op_count E k ops > 0 then Some (Some (g_node G k)) else archive_get E d k p)" for k p
    using archive_get_after_apply [OF assms(1,2) W(1)] d'(3) by simp
  have node: "k \<noteq> NULL_ROOT \<Longrightarrow> archive_get E d k p = Some (Some v) \<Longrightarrow> v = g_node G k" for k p v
    using assms(2) unfolding archive_ok_def by blast
  have "archive_ok E G d'"
    using d'(2) node unfolding archive_ok_def get by (metis option.inject)
  moreover have "has_nodes G (archive_get E d') N"
    using W(2) unfolding has_nodes_def get by metis
  moreover have "extends (archive_get E d) (archive_get E d')"
    using node unfolding extends_def get by metis
  ultimately show thesis using d'(1) that by blast
qed

subsection \<open>The content of a StateDB\<close>

definition apply_change :: "(bytes \<Rightarrow> bytes option) \<Rightarrow> hash \<times> bytes option \<Rightarrow> bytes \<Rightarrow> bytes option" where
  "apply_change f x = f(as_bytes (fst x) := (if snd x = Some [] then None else snd x))"

lemma state_commit_loop_content:
  assumes "trie_ok E G" "g_live G lk t"
  shows "\<exists>t'. state_commit_loop E lk t xs = Some t' \<and> g_live G lk t' \<and>
    g_trie G t' = foldl apply_change (g_trie G t) xs"
  using assms(2)
proof (induction xs arbitrary: t)
  case (Cons x xs)
  obtain key dat where x: "x = (key, dat)" by fastforce
  obtain t1 where t1: "state_commit_loop E lk t (x # xs) = state_commit_loop E lk t1 xs" "g_live G lk t1"
      "g_trie G t1 = apply_change (g_trie G t) x"
  proof (cases dat)
    case None
    then show ?thesis
      using trie_okD(3) [OF assms(1) Cons.prems, of "as_bytes key"] that
      by (fastforce simp: x apply_change_def)
  next
    case (Some v)
    then show ?thesis
      using trie_okD(2) [OF assms(1) Cons.prems, of "as_bytes key" v] that
      by (fastforce simp: x apply_change_def)
  qed
  then show ?case
    using Cons.IH [OF t1(2)] by simp
qed simp

lemma foldl_apply_change:
  "keys_distinct xs \<Longrightarrow> foldl apply_change f xs (as_bytes k) =
    (case map_of xs k of None \<Rightarrow> f (as_bytes k) | Some v \<Rightarrow> if v = Some [] then None else v)"
proof (induction xs arbitrary: f)
  case (Cons x xs)
  then have "map_of xs (fst x) = None" by (auto simp: map_of_eq_None_iff)
  with Cons show ?case by (cases "k = fst x") (auto simp: apply_change_def split: option.splits)
qed simp

definition state_ok ::
  "('kv, 'm, 't, 'z) storage_env_scheme \<Rightarrow> ('kv, 't) ghost \<Rightarrow> ('kv, 'm) state_db \<Rightarrow> (bytes \<Rightarrow> bytes option) \<Rightarrow> bool" where
  "state_ok E G s f \<longleftrightarrow> archive_ok E G (sdb s) \<and> keys_distinct (local_changes s) \<and>
    trie_at E (archive_get E (sdb s)) (state_root s) f"

lemma state_ok_get_storage:
  "state_ok E G s f \<Longrightarrow> get_storage E s k =
    Some (case map_of (local_changes s) k of Some v \<Rightarrow> v | None \<Rightarrow> f (as_bytes k))"
  by (auto simp: state_ok_def get_storage_def trie_at_def split: option.splits)

lemma state_ok_set [intro]: "state_ok E G s f \<Longrightarrow> state_ok E G (set_storage s k v) f"
  by (simp add: state_ok_def set_storage_def distinct_update)

lemma state_ok_remove [intro]: "state_ok E G s f \<Longrightarrow> state_ok E G (remove_storage s k) f"
  by (simp add: state_ok_def remove_storage_def distinct_update)

lemma state_from_existing_sel [simp]:
  "sdb (state_from_existing d r) = d" "state_root (state_from_existing d r) = r"
  "local_changes (state_from_existing d r) = []"
  by (simp_all add: state_from_existing_def)

lemma state_commit_ok:
  assumes "storage_ok E G" "state_ok E G s f"
  obtains s' t where "state_commit E s = Some s'" "local_changes s' = local_changes s"
    "state_ok E G s' (foldl apply_change f (local_changes s))"
    "extends (archive_get E (sdb s)) (archive_get E (sdb s'))"
    "g_live G (archive_get E (sdb s)) t" "g_trie G t = foldl apply_change f (local_changes s)"
    "state_root s' = snd (tmut_drop (trie E) (archive_get E (sdb s)) t)"
proof -
  let ?lk = "archive_get E (sdb s)" and ?f = "foldl apply_change f (local_changes s)"
  note T = trie_okD [OF storage_okD(3) [OF assms(1)]]
  from assms(2) have s: "archive_ok E G (sdb s)" "keys_distinct (local_changes s)" "trie_at E ?lk (state_root s) f"
    by (simp_all add: state_ok_def)
  from T(1) [OF s(3)] obtain t
    where t: "tmut_from_existing (trie E) ?lk (state_root s) = Some t" "g_live G ?lk t" "g_trie G t = f" by blast
  from state_commit_loop_content [OF storage_okD(3) [OF assms(1)] t(2), of "local_changes s"] obtain t'
    where t': "state_commit_loop E ?lk t (local_changes s) = Some t'" "g_live G ?lk t'" "g_trie G t' = ?f"
    by (auto simp: t(3))
  obtain ops root where dr: "tmut_drop (trie E) ?lk t' = (ops, root)" by fastforce
  from T(4) [OF t'(2)] obtain N
    where N: "nodes_written E G ?lk ops N" "\<And>lk'. has_nodes G lk' N \<Longrightarrow> trie_at E lk' root ?f"
    by (auto simp: dr t'(3))
  obtain d' where d': "archive_commit E (archive_apply E (sdb s) ops) = Some d'" "archive_ok E G d'"
      "has_nodes G (archive_get E d') N" "extends ?lk (archive_get E d')"
    using archive_apply_commit [OF assms(1) s(1) N(1)] by blast
  with N(2) [OF d'(3)] s(2) t'(2,3) show thesis
    by (intro that [of "s\<lparr>sdb := d', state_root := root\<rparr>" t'])
      (simp_all add: state_commit_def state_ok_def t(1) t'(1) dr)
qed

lemma archive_get_clean:
  assumes "kvdb_ok (kv E) c" "archive_clean E d" "archive_clean E d'" "backend d' = backend d"
  shows "archive_get E d' = archive_get E d"
  using mdb_emptyD [OF assms(2) [unfolded archive_clean_def]] mdb_emptyD [OF assms(3) [unfolded archive_clean_def]]
  by (intro ext) (simp add: archive_get_content [OF assms(1)] assms(4))

text \<open>A store at rest is determined by its backend.\<close>

lemma archive_ok_reopen:
  assumes "storage_ok E G" "archive_ok E G d" "archive_clean E d'" "backend d' = backend d"
  shows "archive_ok E G d'" "archive_get E d' = archive_get E d"
proof -
  show "archive_get E d' = archive_get E d"
    using assms(2-4) by (intro archive_get_clean [OF storage_okD(1) [OF assms(1)]]) (auto simp: archive_ok_def)
  then show "archive_ok E G d'" using assms(2,3) by (simp add: archive_ok_def)
qed

lemma state_commit_get:
  assumes "storage_ok E G" "state_ok E G s f"
  obtains s' f' where "state_commit E s = Some s'" "state_ok E G s' f'"
    "\<And>k. get_storage E s' k = get_storage E s k"
    "extends (archive_get E (sdb s)) (archive_get E (sdb s'))"
proof -
  obtain s' where s': "state_commit E s = Some s'" "local_changes s' = local_changes s"
    "state_ok E G s' (foldl apply_change f (local_changes s))"
    "extends (archive_get E (sdb s)) (archive_get E (sdb s'))"
    using state_commit_ok [OF assms] by metis
  have kd: "keys_distinct (local_changes s)" using assms(2) by (simp add: state_ok_def)
  show thesis
    using s' by (intro that [of s']) (auto simp: state_ok_get_storage [OF s'(3)] state_ok_get_storage [OF assms(2)]
      foldl_apply_change [OF kd] split: option.splits)
qed

text \<open>
  C5. A commit of a \<^verbatim>\<open>StateDB\<close> succeeds and loses nothing: the state itself, a state opened at the new
  root on the same store, and a state opened at the new root on a fresh \<^verbatim>\<open>ArchiveDB\<close> over the same
  backend (a restart) read what was readable before; a key whose value was set to the empty byte
  string reads as absent in the reopened states. Every older root still stands for the dictionary it
  stood for.
\<close>

theorem state_commit_persists:
  assumes "storage_ok E G" "state_ok E G s f"
  shows "\<exists>s'. state_commit E s = Some s' \<and>
    (\<forall>k. get_storage E s' k = get_storage E s k \<and>
      (\<forall>r \<in> {state_from_existing (sdb s') (state_root s'),
              state_from_existing (archive_new E (backend (sdb s'))) (state_root s')}.
        get_storage E r k = (if get_storage E s k = Some (Some []) \<and> map_of (local_changes s) k \<noteq> None
          then Some None else get_storage E s k))) \<and>
    (\<forall>root g. trie_at E (archive_get E (sdb s)) root g \<longrightarrow> trie_at E (archive_get E (sdb s')) root g)"
proof -
  obtain s' where s': "state_commit E s = Some s'" "local_changes s' = local_changes s"
    "state_ok E G s' (foldl apply_change f (local_changes s))"
    "extends (archive_get E (sdb s)) (archive_get E (sdb s'))"
    using state_commit_ok [OF assms] by metis
  let ?f = "foldl apply_change f (local_changes s)"
  have kd: "keys_distinct (local_changes s)" using assms(2) by (simp add: state_ok_def)
  have "archive_clean E (archive_new E (backend (sdb s')))" "backend (archive_new E (backend (sdb s'))) = backend (sdb s')"
    using archive_new_clean [OF storage_okD(2) [OF assms(1)]] by (auto simp: archive_new_def)
  then have r: "state_ok E G (state_from_existing (sdb s') (state_root s')) ?f"
    "state_ok E G (state_from_existing (archive_new E (backend (sdb s'))) (state_root s')) ?f"
    using s'(3) archive_ok_reopen [OF assms(1), of "sdb s'" "archive_new E (backend (sdb s'))"]
    by (auto simp: state_ok_def)
  have "get_storage E s' k = get_storage E s k \<and>
      (\<forall>r \<in> {state_from_existing (sdb s') (state_root s'),
              state_from_existing (archive_new E (backend (sdb s'))) (state_root s')}.
        get_storage E r k = (if get_storage E s k = Some (Some []) \<and> map_of (local_changes s) k \<noteq> None
          then Some None else get_storage E s k))" for k
    by (auto simp: s'(2) state_ok_get_storage [OF s'(3)] state_ok_get_storage [OF assms(2)] state_ok_get_storage [OF r(1)]
        state_ok_get_storage [OF r(2)] foldl_apply_change [OF kd] split: option.splits)
  then show ?thesis
    using s'(1,4) trie_okD(6) [OF storage_okD(3) [OF assms(1)]] by blast
qed

text \<open>
  C6. The root of a commit does not depend on the order in which the \<^verbatim>\<open>HashMap\<close> of changes is iterated.
\<close>

theorem state_commit_root_order:
  assumes "storage_ok E G" "state_ok E G s f"
    and "mset (local_changes s2) = mset (local_changes s)" "sdb s2 = sdb s" "state_root s2 = state_root s"
  shows "map_option state_root (state_commit E s2) = map_option state_root (state_commit E s)"
proof -
  have d2: "keys_distinct (local_changes s2)" "state_ok E G s2 f" "map_of (local_changes s2) = map_of (local_changes s)"
    using assms(2) mset_eq_imp_distinct_iff [OF arg_cong [OF assms(3), of "image_mset fst", folded mset_map]]
      map_of_inject_set [of "local_changes s2" "local_changes s"] mset_eq_setD [OF assms(3)]
    by (auto simp: state_ok_def assms(4,5))
  then have "foldl apply_change f (local_changes s2) (as_bytes (Hash k)) = foldl apply_change f (local_changes s) (as_bytes (Hash k))" for k
    using assms(2) by (subst (1 2) foldl_apply_change) (auto simp: state_ok_def)
  then have eq: "foldl apply_change f (local_changes s2) = foldl apply_change f (local_changes s)"
    by (simp add: fun_eq_iff)
  obtain a t where a: "state_commit E s = Some a" "g_live G (archive_get E (sdb s)) t"
      "g_trie G t = foldl apply_change f (local_changes s)"
      "state_root a = snd (tmut_drop (trie E) (archive_get E (sdb s)) t)"
    using state_commit_ok [OF assms(1,2)] by metis
  obtain b u where b: "state_commit E s2 = Some b" "g_live G (archive_get E (sdb s2)) u"
      "g_trie G u = foldl apply_change f (local_changes s2)"
      "state_root b = snd (tmut_drop (trie E) (archive_get E (sdb s2)) u)"
    using state_commit_ok [OF assms(1) d2(2)] by metis
  show ?thesis
    using a b trie_okD(5) [OF storage_okD(3) [OF assms(1)] a(2) b(2)] by (simp add: eq)
qed

end
