(* ===== verification/Transaction.thy ===== *)
theory Transaction
  imports State
begin

text \<open>
  Transactions (src/core/src/transaction.rs): the signed record, the part of it the signature
  covers, signing and verification. The \<^verbatim>\<open>bincode\<close> codecs are fields of the environment.
\<close>

definition CHAIN_ID :: u32 where
  "CHAIN_ID = 1"

record transaction =
  tx_sender :: address
  tx_nonce :: u64
  tx_gas_price :: u64
  tx_gas :: u64
  tx_call :: bytes
  tx_data :: bytes
  tx_sign_data :: "bytes \<times> bytes \<times> bytes"

record msg_transfer =
  mt_receiver :: address
  mt_value :: u128

record tx_hash_type =
  ht_chainid :: u32
  ht_nonce :: u64
  ht_gas_price :: u64
  ht_gas :: u64
  ht_call :: bytes
  ht_data :: bytes

record ('kv, 'm, 't) tx_env = "('kv, 'm, 't) storage_env" +
  transfer_codec :: "msg_transfer codec"
  tx_hash_codec :: "tx_hash_type codec"

definition tx_hash_type_new :: "transaction \<Rightarrow> tx_hash_type" where
  "tx_hash_type_new tx =
    \<lparr>ht_chainid = CHAIN_ID, ht_nonce = tx_nonce tx, ht_gas_price = tx_gas_price tx, ht_gas = tx_gas tx,
     ht_call = tx_call tx, ht_data = tx_data tx\<rparr>"

definition get_to_address :: "('kv, 'm, 't, 'z) tx_env_scheme \<Rightarrow> transaction \<Rightarrow> address option" where
  "get_to_address E tx = do { input \<leftarrow> de (transfer_codec E) (tx_data tx); Some (mt_receiver input) }"

definition get_from_address :: "transaction \<Rightarrow> address" where
  "get_from_address tx = tx_sender tx"

definition get_nonce :: "transaction \<Rightarrow> u64" where
  "get_nonce tx = tx_nonce tx"

definition get_gas_price :: "transaction \<Rightarrow> u64" where
  "get_gas_price tx = tx_gas_price tx"

definition get_value :: "('kv, 'm, 't, 'z) tx_env_scheme \<Rightarrow> transaction \<Rightarrow> u128 option" where
  "get_value E tx = do { input \<leftarrow> de (transfer_codec E) (tx_data tx); Some (mt_value input) }"

definition get_sign_data :: "transaction \<Rightarrow> signature_info" where
  "get_sign_data tx = (case tx_sign_data tx of (r, s, p) \<Rightarrow> signature_make r s p)"

definition transaction_new ::
  "address \<Rightarrow> u64 \<Rightarrow> u64 \<Rightarrow> u64 \<Rightarrow> bytes \<Rightarrow> bytes \<Rightarrow> transaction" where
  "transaction_new s n gp g method dat =
    \<lparr>tx_sender = s, tx_nonce = n, tx_gas_price = gp, tx_gas = g, tx_call = method, tx_data = dat,
     tx_sign_data = (replicate 32 0, replicate 32 0, replicate 32 0)\<rparr>"

definition tx_hash :: "('kv, 'm, 't, 'z) tx_env_scheme \<Rightarrow> transaction \<Rightarrow> hash" where
  "tx_hash E tx = Hash (blake2b_256 E (ser (tx_hash_codec E) (tx_hash_type_new tx)))"

definition set_sign_data :: "transaction \<Rightarrow> signature_info \<Rightarrow> transaction" where
  "set_sign_data tx si = tx\<lparr>tx_sign_data := (sig_r si, sig_s si, sig_p si)\<rparr>"

definition tx_sign ::
  "('kv, 'm, 't, 'z) tx_env_scheme \<Rightarrow> transaction \<Rightarrow> bytes \<Rightarrow> (error + transaction) option" where
  "tx_sign E tx priv_data =
    (let h = tx_hash E tx
     in do {
       priv_key \<leftarrow> privkey_from_bytes priv_data;
       r \<leftarrow> privkey_sign E priv_key (as_bytes h);
       (case r of Inl e \<Rightarrow> Some (Inl e) | Inr si \<Rightarrow> Some (Inr (set_sign_data tx si))) })"

definition verify_sign :: "('kv, 'm, 't, 'z) tx_env_scheme \<Rightarrow> transaction \<Rightarrow> (error + unit) option" where
  "verify_sign E tx =
    do { pk \<leftarrow> pubkey_from_bytes (snd (snd (tx_sign_data tx)));
         pubkey_verify E pk (to_msg (tx_hash E tx)) (get_sign_data tx) }"

section \<open>Signing and verification\<close>

lemma tx_hash_sign_data [simp]: "tx_hash E (set_sign_data tx si) = tx_hash E tx"
  by (simp add: tx_hash_def tx_hash_type_new_def set_sign_data_def)

lemma tx_hash_sign_field [simp]: "tx_hash E (tx\<lparr>tx_sign_data := x\<rparr>) = tx_hash E tx"
  by (simp add: tx_hash_def tx_hash_type_new_def)

lemma tx_hash_sender [simp]: "tx_hash E (tx\<lparr>tx_sender := a\<rparr>) = tx_hash E tx"
  by (simp add: tx_hash_def tx_hash_type_new_def)

lemma tx_sign_ok:
  fixes E :: "('kv, 'm, 't, 'z) tx_env_scheme"
  assumes "dalek_key_ok E sk"
  shows "\<exists>si. tx_sign E tx sk = Some (Inr (set_sign_data tx si)) \<and>
    verify_sign E (set_sign_data tx si) = Some (Inr ())"
proof -
  let ?pk = "public_from_secret E sk"
  from assms have len: "length sk = 32" "length ?pk = 32" by (simp_all add: dalek_key_ok_def)
  obtain si where si: "privkey_sign E \<lparr>priv_inner = H256 sk\<rparr> (as_bytes (tx_hash E tx)) = Some (Inr si)" "sig_p si = ?pk"
    using privkey_sign_ok [OF assms, of "as_bytes (tx_hash E tx)"] by simp
  have "signature_make (sig_r si) (sig_s si) (sig_p si) = si"
    by (cases si) (simp add: signature_make_def)
  then show ?thesis
    using sign_then_verify [OF assms si(1)] si len
    by (intro exI [of _ si])
      (simp add: tx_sign_def verify_sign_def get_sign_data_def to_msg_def set_sign_data_def [of tx si])
qed

lemma verify_sign_sender [simp]: "verify_sign E (tx\<lparr>tx_sender := a\<rparr>) = verify_sign E tx"
  by (simp add: verify_sign_def get_sign_data_def)

end
