(* ===== verification/Block.thy ===== *)
theory Block
  imports Transaction
begin

text \<open>
  Blocks (src/core/src/block.rs): the header and its hash, the roots of the transactions and of the
  signatures, and the proof that names the producer.
\<close>

datatype vrf_proof = VRFProof (vrf_gamma: bytes) (vrf_rest: bytes)

definition vrf_proof_new :: "bytes \<Rightarrow> vrf_proof option" where
  "vrf_proof_new proof =
    do { a \<leftarrow> slice_to 32 proof; a' \<leftarrow> copy_from_slice 32 a;
         b \<leftarrow> slice_from 32 proof; b' \<leftarrow> copy_from_slice 32 b;
         Some (VRFProof a' b') }"

definition vrf_proof_bytes :: "vrf_proof \<Rightarrow> bytes" where
  "vrf_proof_bytes p = vrf_gamma p @ vrf_rest p"

record header =
  h_height :: u64
  h_parent_hash :: hash
  h_slot :: u64
  h_vrf_output :: bytes
  h_vrf_proof :: vrf_proof
  h_tx_root :: hash
  h_sign_root :: hash
  h_state_root :: hash
  h_time :: u64

definition header_default :: header where
  "header_default =
    \<lparr>h_height = 0, h_parent_hash = hash_default, h_slot = 0, h_vrf_output = replicate 32 0,
     h_vrf_proof = VRFProof (replicate 32 0) (replicate 32 0), h_tx_root = hash_default,
     h_sign_root = hash_default, h_state_root = hash_default, h_time = 0\<rparr>"

record verification_item =
  v_msg :: hash
  v_signs :: signature_info

definition verification_item_to_msg :: "verification_item \<Rightarrow> h256" where
  "verification_item_to_msg v = to_msg (v_msg v)"

definition verification_item_new :: "hash \<Rightarrow> signature_info \<Rightarrow> verification_item" where
  "verification_item_new m si = \<lparr>v_msg = m, v_signs = si\<rparr>"

datatype block_proof = BlockProof (bp_0: bytes) (bp_1: bytes) (bp_2: u8)

definition block_proof_new :: "u8 \<Rightarrow> bytes \<Rightarrow> block_proof option" where
  "block_proof_new t pk =
    (if t = 0 then do { o1 \<leftarrow> slice 0 32 pk; Some (BlockProof o1 (replicate 32 0) t) }
     else do { o1 \<leftarrow> slice 0 32 pk; o2 \<leftarrow> slice 32 64 pk; Some (BlockProof o1 o2 t) })"

text \<open>\<^verbatim>\<open>get_pk\<close> writes into the caller's 64-byte buffer and returns the type of the proof.\<close>

definition get_pk :: "block_proof \<Rightarrow> bytes \<Rightarrow> bytes \<times> u8" where
  "get_pk b pk =
    (if bp_2 b = 0 then (bp_0 b @ drop 32 pk, bp_2 b)
     else (bp_0 b @ bp_1 b @ drop 64 pk, bp_2 b))"

definition block_proof_to_address :: "'z crates_scheme \<Rightarrow> block_proof \<Rightarrow> address option" where
  "block_proof_to_address E b =
    (if bp_2 b = 0 then do { pk \<leftarrow> pubkey_from_bytes (bp_0 b); pubkey_into_address E pk }
     else Some (Address (replicate 20 0)))"

record block =
  b_header :: header
  b_signs :: "verification_item list"
  b_txs :: "transaction list"
  b_proofs :: "block_proof list"

record ('kv, 'm, 't) block_env = "('kv, 'm, 't) tx_env" +
  header_codec :: "header codec"
  txs_codec :: "transaction list codec"
  signs_codec :: "verification_item list codec"

definition header_hash :: "('kv, 'm, 't, 'z) block_env_scheme \<Rightarrow> header \<Rightarrow> hash" where
  "header_hash E h = Hash (blake2b_256 E (ser (header_codec E) h))"

definition get_hash_from_txs :: "('kv, 'm, 't, 'z) block_env_scheme \<Rightarrow> transaction list \<Rightarrow> hash" where
  "get_hash_from_txs E txs = Hash (blake2b_256 E (ser (txs_codec E) txs))"

definition get_hash_from_signs :: "('kv, 'm, 't, 'z) block_env_scheme \<Rightarrow> verification_item list \<Rightarrow> hash" where
  "get_hash_from_signs E signs = Hash (blake2b_256 E (ser (signs_codec E) signs))"

definition block_default :: block where
  "block_default = \<lparr>b_header = header_default, b_signs = [], b_txs = [], b_proofs = []\<rparr>"

definition block_new ::
  "('kv, 'm, 't, 'z) block_env_scheme \<Rightarrow> header \<Rightarrow> transaction list \<Rightarrow> verification_item list
     \<Rightarrow> block_proof list \<Rightarrow> block" where
  "block_new E h txs signs proofs =
    \<lparr>b_header = h\<lparr>h_tx_root := get_hash_from_txs E txs, h_sign_root := get_hash_from_signs E signs\<rparr>,
     b_signs = signs, b_txs = txs, b_proofs = proofs\<rparr>"

definition set_sign_hash :: "block \<Rightarrow> hash \<Rightarrow> block" where
  "set_sign_hash b h = b\<lparr>b_header := (b_header b)\<lparr>h_sign_root := h\<rparr>\<rparr>"

definition set_state_root :: "block \<Rightarrow> hash \<Rightarrow> block" where
  "set_state_root b h = b\<lparr>b_header := (b_header b)\<lparr>h_state_root := h\<rparr>\<rparr>"

definition block_height :: "block \<Rightarrow> u64" where
  "block_height b = h_height (b_header b)"

definition block_hash :: "('kv, 'm, 't, 'z) block_env_scheme \<Rightarrow> block \<Rightarrow> hash" where
  "block_hash E b = header_hash E (b_header b)"

definition block_state_root :: "block \<Rightarrow> hash" where
  "block_state_root b = h_state_root (b_header b)"

definition add_proof :: "block \<Rightarrow> block_proof \<Rightarrow> block" where
  "add_proof b p = b\<lparr>b_proofs := b_proofs b @ [p]\<rparr>"

definition proof_one :: "block \<Rightarrow> block_proof option" where
  "proof_one b = nth_checked (b_proofs b) 0"

definition get_proofs :: "block \<Rightarrow> block_proof list" where
  "get_proofs b = b_proofs b"

definition add_verify_item :: "block \<Rightarrow> verification_item \<Rightarrow> block" where
  "add_verify_item b v = b\<lparr>b_signs := b_signs b @ [v]\<rparr>"

definition get_signs :: "block \<Rightarrow> verification_item list" where
  "get_signs b = b_signs b"

definition sign_one :: "block \<Rightarrow> verification_item option" where
  "sign_one b = nth_checked (b_signs b) 0"

definition get_txs :: "block \<Rightarrow> transaction list" where
  "get_txs b = b_txs b"

definition is_equal_hash :: "hash option \<Rightarrow> hash option \<Rightarrow> bool" where
  "is_equal_hash hash1 hash2 =
    (case hash1 of None \<Rightarrow> False | Some v \<Rightarrow> (case hash2 of None \<Rightarrow> False | Some v2 \<Rightarrow> v = v2))"

lemma is_equal_hash_iff: "is_equal_hash a b \<longleftrightarrow> (\<exists>h. a = Some h \<and> b = Some h)"
  by (auto simp: is_equal_hash_def split: option.splits)

lemma vrf_proof_roundtrip: "length p = 64 \<Longrightarrow> map_option vrf_proof_bytes (vrf_proof_new p) = Some p"
  by (simp add: vrf_proof_new_def vrf_proof_bytes_def slice_def)

lemma block_proof_roundtrip:
  assumes "length pk = 32" "length buf = 64"
  shows "map_option (\<lambda>b. get_pk b buf) (block_proof_new 0 pk) = Some (pk @ drop 32 buf, 0)"
  using assms by (simp add: block_proof_new_def get_pk_def slice_def)

lemma block_update_sel [simp]:
  "block_height (set_sign_hash b h) = block_height b" "block_height (set_state_root b h) = block_height b"
  "block_state_root (set_state_root b h) = h" "block_state_root (set_sign_hash b h) = block_state_root b"
  "b_txs (set_sign_hash b h) = b_txs b" "b_txs (set_state_root b h) = b_txs b"
  "b_signs (set_sign_hash b h) = b_signs b" "b_signs (set_state_root b h) = b_signs b"
  "b_proofs (set_sign_hash b h) = b_proofs b" "b_proofs (set_state_root b h) = b_proofs b"
  by (simp_all add: block_height_def block_state_root_def set_sign_hash_def set_state_root_def)

end
