(* ===== verification/Balance.thy ===== *)
theory Balance
  imports Block
begin

text \<open>
  The balance module (src/core/src/balance.rs): accounts in the shared \<^verbatim>\<open>StateDB\<close>, one storage cell per
  address. The \<^verbatim>\<open>Rc<RefCell<StateDB>>\<close> is passed and returned explicitly; the field \<^verbatim>\<open>root_hash\<close>, which
  the code writes and never reads, is the second result of \<open>balance_commit\<close>.
\<close>

definition BALANCE_POS :: u64 where
  "BALANCE_POS = 1"

definition NONCE_POS :: u64 where
  "NONCE_POS = 2"

record account =
  a_balance :: u128
  a_nonce :: u64
  a_locked_balance :: u128

definition account_default :: account where
  "account_default = \<lparr>a_balance = 0, a_nonce = 0, a_locked_balance = 0\<rparr>"

record ('kv, 'm, 't) balance_env = "('kv, 'm, 't) block_env" +
  account_codec :: "account codec"

section \<open>Storage keys\<close>

definition address_key :: "'z crates_scheme \<Rightarrow> address \<Rightarrow> hash" where
  "address_key E addr = (let h = hash_from_bytes (as_slice addr) in Hash (blake2b_256 E (as_bytes h)))"

definition balance_key :: "'z crates_scheme \<Rightarrow> address \<Rightarrow> hash" where
  "balance_key E addr =
    (let raw = as_bytes (hash_from_bytes (as_slice addr)) @ as_bytes (hash_from_bytes (to_be_bytes 8 BALANCE_POS))
     in Hash (blake2b_256 E raw))"

definition nonce_key :: "'z crates_scheme \<Rightarrow> address \<Rightarrow> hash" where
  "nonce_key E addr =
    (let raw = as_bytes (hash_from_bytes (as_slice addr)) @ as_bytes (hash_from_bytes (to_be_bytes 8 NONCE_POS))
     in Hash (blake2b_256 E raw))"

section \<open>Operations\<close>

definition load_account ::
  "('kv, 'm, 't, 'z) balance_env_scheme \<Rightarrow> ('kv, 'm) state_db \<Rightarrow> address \<Rightarrow> account option" where
  "load_account E s addr =
    do { r \<leftarrow> get_storage E s (address_key E addr);
         (case r of Some serialized \<Rightarrow> de (account_codec E) serialized | None \<Rightarrow> Some account_default) }"

definition set_account ::
  "('kv, 'm, 't, 'z) balance_env_scheme \<Rightarrow> ('kv, 'm) state_db \<Rightarrow> address \<Rightarrow> account \<Rightarrow> ('kv, 'm) state_db" where
  "set_account E s addr acc = set_storage s (address_key E addr) (ser (account_codec E) acc)"

definition balance ::
  "('kv, 'm, 't, 'z) balance_env_scheme \<Rightarrow> ('kv, 'm) state_db \<Rightarrow> address \<Rightarrow> u128 option" where
  "balance E s addr = do { acc \<leftarrow> load_account E s addr; Some (a_balance acc) }"

definition nonce ::
  "('kv, 'm, 't, 'z) balance_env_scheme \<Rightarrow> ('kv, 'm) state_db \<Rightarrow> address \<Rightarrow> u64 option" where
  "nonce E s addr = do { acc \<leftarrow> load_account E s addr; Some (a_nonce acc) }"

definition locked ::
  "('kv, 'm, 't, 'z) balance_env_scheme \<Rightarrow> ('kv, 'm) state_db \<Rightarrow> address \<Rightarrow> u128 option" where
  "locked E s addr = do { acc \<leftarrow> load_account E s addr; Some (a_locked_balance acc) }"

definition get_account ::
  "('kv, 'm, 't, 'z) balance_env_scheme \<Rightarrow> ('kv, 'm) state_db \<Rightarrow> address \<Rightarrow> account option" where
  "get_account E s addr = load_account E s addr"

definition inc_nonce ::
  "('kv, 'm, 't, 'z) balance_env_scheme \<Rightarrow> ('kv, 'm) state_db \<Rightarrow> address \<Rightarrow> ('kv, 'm) state_db option" where
  "inc_nonce E s addr =
    do { acc \<leftarrow> load_account E s addr;
         n \<leftarrow> uadd (overflow_checks E) (a_nonce acc) 1;
         Some (set_account E s addr (acc\<lparr>a_nonce := n\<rparr>)) }"

definition add_balance ::
  "('kv, 'm, 't, 'z) balance_env_scheme \<Rightarrow> ('kv, 'm) state_db \<Rightarrow> address \<Rightarrow> u128 \<Rightarrow> ('kv, 'm) state_db option" where
  "add_balance E s addr v =
    do { acc \<leftarrow> load_account E s addr;
         b \<leftarrow> uadd (overflow_checks E) (a_balance acc) v;
         Some (set_account E s addr (acc\<lparr>a_balance := b\<rparr>)) }"

definition sub_balance ::
  "('kv, 'm, 't, 'z) balance_env_scheme \<Rightarrow> ('kv, 'm) state_db \<Rightarrow> address \<Rightarrow> u128 \<Rightarrow> ('kv, 'm) state_db option" where
  "sub_balance E s addr v =
    do { acc \<leftarrow> load_account E s addr;
         b \<leftarrow> usub (overflow_checks E) (a_balance acc) v;
         Some (set_account E s addr (acc\<lparr>a_balance := b\<rparr>)) }"

definition slash ::
  "('kv, 'm, 't, 'z) balance_env_scheme \<Rightarrow> ('kv, 'm) state_db \<Rightarrow> address \<Rightarrow> u128 \<Rightarrow> ('kv, 'm) state_db option" where
  "slash E s addr v =
    do { acc \<leftarrow> load_account E s addr;
         l \<leftarrow> usub (overflow_checks E) (a_locked_balance acc) v;
         Some (set_account E s addr (acc\<lparr>a_locked_balance := l\<rparr>)) }"

definition lock_balance ::
  "('kv, 'm, 't, 'z) balance_env_scheme \<Rightarrow> ('kv, 'm) state_db \<Rightarrow> address \<Rightarrow> u128 \<Rightarrow> ('kv, 'm) state_db option" where
  "lock_balance E s addr v =
    do { acc \<leftarrow> load_account E s addr;
         b \<leftarrow> usub (overflow_checks E) (a_balance acc) v;
         l \<leftarrow> uadd (overflow_checks E) (a_locked_balance acc) v;
         Some (set_account E s addr (acc\<lparr>a_balance := b, a_locked_balance := l\<rparr>)) }"

definition unlock_balance ::
  "('kv, 'm, 't, 'z) balance_env_scheme \<Rightarrow> ('kv, 'm) state_db \<Rightarrow> address \<Rightarrow> u128 \<Rightarrow> ('kv, 'm) state_db option" where
  "unlock_balance E s addr v =
    do { acc \<leftarrow> load_account E s addr;
         b \<leftarrow> uadd (overflow_checks E) (a_balance acc) v;
         l \<leftarrow> usub (overflow_checks E) (a_locked_balance acc) v;
         Some (set_account E s addr (acc\<lparr>a_balance := b, a_locked_balance := l\<rparr>)) }"

definition transfer ::
  "('kv, 'm, 't, 'z) balance_env_scheme \<Rightarrow> ('kv, 'm) state_db \<Rightarrow> address \<Rightarrow> address \<Rightarrow> u128
     \<Rightarrow> ('kv, 'm) state_db option" where
  "transfer E s from_addr to_addr amount =
    do { b \<leftarrow> balance E s from_addr;
         (if b \<ge> amount
          then do { s1 \<leftarrow> sub_balance E s from_addr amount; add_balance E s1 to_addr amount }
          else Some s) }"

definition exec_transfer ::
  "('kv, 'm, 't, 'z) balance_env_scheme \<Rightarrow> ('kv, 'm) state_db \<Rightarrow> address \<Rightarrow> bytes \<Rightarrow> ('kv, 'm) state_db option" where
  "exec_transfer E s from_addr input =
    do { msg \<leftarrow> de (transfer_codec E) input; transfer E s from_addr (mt_receiver msg) (mt_value msg) }"

definition balance_commit ::
  "('kv, 'm, 't, 'z) balance_env_scheme \<Rightarrow> ('kv, 'm) state_db \<Rightarrow> (('kv, 'm) state_db \<times> hash) option" where
  "balance_commit E s = do { s' \<leftarrow> state_commit E s; Some (s', state_root s') }"

section \<open>What the code relies on\<close>

text \<open>
  The codec of accounts inverts, and two addresses have two storage cells: the digest does not
  collide on the \<open>2 ^ 160\<close> padded addresses.
\<close>

definition balance_ok :: "('kv, 'm, 't, 'z) balance_env_scheme \<Rightarrow> bool" where
  "balance_ok E \<longleftrightarrow> codec_ok (account_codec E) \<and> inj_on (address_key E) {a. address_wf a}"

lemma balance_okD:
  assumes "balance_ok E"
  shows "codec_ok (account_codec E)"
    and "\<lbrakk>address_wf a; address_wf b\<rbrakk> \<Longrightarrow> address_key E a = address_key E b \<longleftrightarrow> a = b"
  using assms by (auto simp: balance_ok_def inj_on_eq_iff)

section \<open>Accounts as a dictionary\<close>

text \<open>
  The interface the executor and the staking module use: loading and storing accounts. \<open>ok\<close> is
  what the provider relies on.
\<close>

locale accounts =
  fixes ok :: "'e \<Rightarrow> bool"
    and load :: "'e \<Rightarrow> 's \<Rightarrow> address \<Rightarrow> account option"
    and store :: "'e \<Rightarrow> 's \<Rightarrow> address \<Rightarrow> account \<Rightarrow> 's"
  assumes load_store: "\<lbrakk>ok e; address_wf a; address_wf b\<rbrakk> \<Longrightarrow>
    load e (store e s a x) b = (if b = a then Some x else load e s b)"
begin

text \<open>A state shows a ledger on the well-formed addresses.\<close>

lemma ledger_store:
  assumes "ok e" "address_wf a" "\<forall>b. address_wf b \<longrightarrow> load e s b = Some (L b)"
  shows "\<forall>b. address_wf b \<longrightarrow> load e (store e s a x) b = Some ((L(a := x)) b)"
  using assms by (simp add: load_store)

end

interpretation acc: accounts balance_ok load_account set_account
  by unfold_locales (simp add: load_account_def set_account_def balance_okD)

definition ledger_of ::
  "('kv, 'm, 't, 'z) balance_env_scheme \<Rightarrow> ('kv, 'm) state_db \<Rightarrow> (address \<Rightarrow> account) \<Rightarrow> bool" where
  "ledger_of E s L \<longleftrightarrow> (\<forall>a. address_wf a \<longrightarrow> load_account E s a = Some (L a))"

lemma ledger_ofD: "ledger_of E s L \<Longrightarrow> address_wf a \<Longrightarrow> load_account E s a = Some (L a)"
  by (simp add: ledger_of_def)

lemma ledger_of_set [intro]:
  "\<lbrakk>balance_ok E; ledger_of E s L; address_wf a\<rbrakk> \<Longrightarrow> ledger_of E (set_account E s a x) (L(a := x))"
  unfolding ledger_of_def by (rule acc.ledger_store)

section \<open>The ledger\<close>

text \<open>The specification of the operations on the ledger, and the supply held by a set of addresses.\<close>

definition credit :: "address \<Rightarrow> u128 \<Rightarrow> (address \<Rightarrow> account) \<Rightarrow> address \<Rightarrow> account" where
  "credit a v L = L(a := (L a)\<lparr>a_balance := a_balance (L a) + v\<rparr>)"

definition debit :: "address \<Rightarrow> u128 \<Rightarrow> (address \<Rightarrow> account) \<Rightarrow> address \<Rightarrow> account" where
  "debit a v L = L(a := (L a)\<lparr>a_balance := a_balance (L a) - v\<rparr>)"

definition next_nonce :: "address \<Rightarrow> (address \<Rightarrow> account) \<Rightarrow> address \<Rightarrow> account" where
  "next_nonce a L = L(a := (L a)\<lparr>a_nonce := a_nonce (L a) + 1\<rparr>)"

definition lock :: "address \<Rightarrow> u128 \<Rightarrow> (address \<Rightarrow> account) \<Rightarrow> address \<Rightarrow> account" where
  "lock a v L = L(a := (L a)\<lparr>a_balance := a_balance (L a) - v, a_locked_balance := a_locked_balance (L a) + v\<rparr>)"

definition move :: "address \<Rightarrow> address \<Rightarrow> u128 \<Rightarrow> (address \<Rightarrow> account) \<Rightarrow> address \<Rightarrow> account" where
  "move f t v L = (if v \<le> a_balance (L f) then credit t v (debit f v L) else L)"

definition worth :: "account \<Rightarrow> nat" where
  "worth x = unat (a_balance x) + unat (a_locked_balance x)"

definition total_supply :: "address set \<Rightarrow> (address \<Rightarrow> account) \<Rightarrow> nat" where
  "total_supply A L = (\<Sum>a\<in>A. worth (L a))"

lemma supply_upd:
  assumes "finite A" "a \<in> A"
  shows "total_supply A (L(a := x)) + worth (L a) = total_supply A L + worth x"
proof -
  have "total_supply A (L(a := x)) = worth x + total_supply (A - {a}) L" "total_supply A L = worth (L a) + total_supply (A - {a}) L"
    using assms by (auto simp: total_supply_def sum.remove intro!: sum.cong)
  then show ?thesis by simp
qed

lemma worth_le_supply: "finite A \<Longrightarrow> a \<in> A \<Longrightarrow> worth (L a) \<le> total_supply A L"
  unfolding total_supply_def by (rule member_le_sum) auto

lemma balance_le_supply: "finite A \<Longrightarrow> a \<in> A \<Longrightarrow> unat (a_balance (L a)) \<le> total_supply A L"
  using worth_le_supply [of A a L] by (simp add: worth_def)

lemma supply_debit:
  assumes "finite A" "a \<in> A" "v \<le> a_balance (L a)"
  shows "total_supply A (debit a v L) + unat v = total_supply A L"
  using supply_upd [OF assms(1,2), of L "(L a)\<lparr>a_balance := a_balance (L a) - v\<rparr>"] assms(3)
  by (simp add: debit_def worth_def unat_sub_exact word_le_nat_alt)

lemma supply_credit:
  assumes "finite A" "a \<in> A" "unat (a_balance (L a)) + unat v < 2 ^ 128"
  shows "total_supply A (credit a v L) = total_supply A L + unat v"
  using supply_upd [OF assms(1,2), of L "(L a)\<lparr>a_balance := a_balance (L a) + v\<rparr>"] assms(3)
  by (simp add: credit_def worth_def unat_add_exact)

lemma supply_next_nonce [simp]: "total_supply A (next_nonce a L) = total_supply A L"
  unfolding total_supply_def by (rule sum.cong) (auto simp: next_nonce_def worth_def)

lemma supply_lock:
  assumes "finite A" "a \<in> A" "v \<le> a_balance (L a)" "total_supply A L < 2 ^ 128"
  shows "total_supply A (lock a v L) = total_supply A L"
proof -
  have "worth (L a) < 2 ^ 128" using worth_le_supply [OF assms(1,2), of L] assms(4) by simp
  then show ?thesis
    using supply_upd [OF assms(1,2), of L "(L a)\<lparr>a_balance := a_balance (L a) - v,
        a_locked_balance := a_locked_balance (L a) + v\<rparr>"] assms(3)
    by (simp add: lock_def worth_def unat_sub_exact unat_add_exact word_le_nat_alt)
qed

section \<open>The operations implement the ledger\<close>

lemma add_balance_ledger:
  assumes "balance_ok E" "ledger_of E s L" "address_wf a" "unat (a_balance (L a)) + unat v < 2 ^ 128"
  obtains s' where "add_balance E s a v = Some s'" "ledger_of E s' (credit a v L)"
  using assms by (auto simp: add_balance_def ledger_ofD uadd_exact credit_def)

lemma sub_balance_ledger:
  assumes "balance_ok E" "ledger_of E s L" "address_wf a" "v \<le> a_balance (L a)"
  obtains s' where "sub_balance E s a v = Some s'" "ledger_of E s' (debit a v L)"
  using assms by (auto simp: sub_balance_def ledger_ofD usub_exact word_le_nat_alt debit_def)

lemma inc_nonce_ledger:
  assumes "balance_ok E" "ledger_of E s L" "address_wf a" "unat (a_nonce (L a)) + 1 < 2 ^ 64"
  obtains s' where "inc_nonce E s a = Some s'" "ledger_of E s' (next_nonce a L)"
  using assms by (auto simp: inc_nonce_def ledger_ofD uadd_exact next_nonce_def)

lemma lock_balance_ledger:
  assumes "balance_ok E" "ledger_of E s L" "address_wf a" "v \<le> a_balance (L a)"
    and "unat (a_locked_balance (L a)) + unat v < 2 ^ 128"
  obtains s' where "lock_balance E s a v = Some s'" "ledger_of E s' (lock a v L)"
  using assms by (auto simp: lock_balance_def ledger_ofD usub_exact uadd_exact word_le_nat_alt lock_def)

lemma supply_move:
  assumes "finite A" "f \<in> A" "t \<in> A" "total_supply A L < 2 ^ 128"
  shows "total_supply A (move f t v L) = total_supply A L"
proof (cases "v \<le> a_balance (L f)")
  case True
  note d = supply_debit [where L = L, OF assms(1,2) True]
  have "unat (a_balance (debit f v L t)) + unat v < 2 ^ 128"
    using balance_le_supply [OF assms(1,3), of "debit f v L"] d assms(4) by simp
  from supply_credit [where L = "debit f v L", OF assms(1,3) this] d True show ?thesis
    by (simp add: move_def)
qed (simp add: move_def)

lemma transfer_ledger:
  assumes "balance_ok E" "ledger_of E s L" "address_wf f" "address_wf t"
    and "finite A" "f \<in> A" "t \<in> A" "total_supply A L < 2 ^ 128"
  obtains s' where "transfer E s f t v = Some s'" "ledger_of E s' (move f t v L)"
proof (cases "v \<le> a_balance (L f)")
  case True
  obtain s1 where s1: "sub_balance E s f v = Some s1" "ledger_of E s1 (debit f v L)"
    using sub_balance_ledger [OF assms(1-3) True] .
  have "unat (a_balance (debit f v L t)) + unat v < 2 ^ 128"
    using balance_le_supply [OF assms(5,7), of "debit f v L"]
      supply_debit [where L = L, OF assms(5,6) True] assms(8) by simp
  from add_balance_ledger [where L = "debit f v L", OF assms(1) s1(2) assms(4) this] obtain s2
    where "add_balance E s1 t v = Some s2" "ledger_of E s2 (credit t v (debit f v L))" .
  with s1 True assms(2,3) show thesis
    by (intro that [of s2]) (auto simp: transfer_def balance_def ledger_ofD move_def)
next
  case False
  with assms(2,3) show thesis
    by (intro that [of s]) (auto simp: transfer_def balance_def ledger_ofD move_def)
qed

text \<open>
  C9. \<^verbatim>\<open>Balance::transfer\<close> never panics on a ledger whose supply fits in a \<^verbatim>\<open>u128\<close>. It moves the amount
  from the sender to the receiver when the sender has it and changes nothing otherwise; nonces,
  locked balances and every other account stay, and so does the supply of every set of addresses that
  contains both.
\<close>

theorem transfer_refines_move:
  assumes "balance_ok E" "ledger_of E s L" "address_wf f" "address_wf t"
    and "finite A" "f \<in> A" "t \<in> A" "total_supply A L < 2 ^ 128"
  shows "\<exists>s'. transfer E s f t v = Some s' \<and> ledger_of E s' (move f t v L) \<and>
    total_supply A (move f t v L) = total_supply A L"
  using transfer_ledger [OF assms] supply_move [OF assms(5-8)] by metis

text \<open>
  C16. \<^verbatim>\<open>Balance::lock_balance\<close> moves an amount the account has from its balance to its locked balance and
  keeps the supply; for an amount it does not have, it panics with overflow checks, and without them
  the balance wraps around to more than it was.
\<close>

theorem lock_balance_cases:
  assumes "balance_ok E" "ledger_of E s L" "address_wf a"
    and "finite A" "a \<in> A" "total_supply A L < 2 ^ 128"
  shows "(v \<le> a_balance (L a) \<longrightarrow>
      (\<exists>s'. lock_balance E s a v = Some s' \<and> ledger_of E s' (lock a v L) \<and> total_supply A (lock a v L) = total_supply A L)) \<and>
    (a_balance (L a) < v \<and> overflow_checks E \<longrightarrow> lock_balance E s a v = None) \<and>
    (a_balance (L a) < v \<and> \<not> overflow_checks E \<longrightarrow>
      (\<exists>s'. lock_balance E s a v = Some s' \<and> ledger_of E s' (lock a v L) \<and> a_balance (L a) < a_balance (lock a v L a)))"
proof (intro conjI impI; (elim conjE)?)
  assume v: "v \<le> a_balance (L a)"
  have "worth (L a) < 2 ^ 128" using worth_le_supply [OF assms(4,5), of L] assms(6) by simp
  with v have "unat (a_locked_balance (L a)) + unat v < 2 ^ 128"
    by (simp add: worth_def word_le_nat_alt)
  from lock_balance_ledger [OF assms(1-3) v this] supply_lock [OF assms(4,5) v assms(6)]
  show "\<exists>s'. lock_balance E s a v = Some s' \<and> ledger_of E s' (lock a v L) \<and> total_supply A (lock a v L) = total_supply A L"
    by metis
next
  assume "a_balance (L a) < v" "overflow_checks E"
  then show "lock_balance E s a v = None"
    using assms(2,3) by (simp add: lock_balance_def ledger_ofD usub_def word_less_nat_alt)
next
  assume v: "a_balance (L a) < v" "\<not> overflow_checks E"
  have "a_balance (L a) < a_balance (L a) - v"
    using v(1) by (metis word_sub_less_iff not_less order.strict_iff_not)
  then show "\<exists>s'. lock_balance E s a v = Some s' \<and> ledger_of E s' (lock a v L) \<and> a_balance (L a) < a_balance (lock a v L a)"
    using v(2) assms(1-3) by (auto simp: lock_balance_def ledger_ofD lock_def)
qed

end
