(* ===== verification/Staking.thy ===== *)
theory Staking
  imports Balance
begin

text \<open>
  The staking module (src/core/src/staking.rs, with the list cells of src/core/src/storage.rs):
  the validators are a doubly linked list in the shared \<^verbatim>\<open>StateDB\<close>, one cell per validator and a
  head cell. The refinement theorems show that the operations on the cells are the operations on the
  list of validators.
\<close>

section \<open>Data\<close>

record locking_balance =
  lb_amount :: u128
  lb_height :: u64

record validator =
  val_address :: address
  val_pubkey :: bytes
  val_balance :: u128
  val_effective_balance :: u128
  val_activate_height :: u64
  val_exit_height :: u64
  val_deposit_queue :: "locking_balance list"
  val_unlocked_queue :: "locking_balance list"

record msg_validator_create =
  mvc_pubkey :: bytes
  mvc_amount :: u128

record 'p list_entry =
  le_pre :: "hash option"
  le_next :: "hash option"
  le_payload :: 'p

record ('kv, 'm, 't) staking_env = "('kv, 'm, 't) balance_env" +
  entry_codec :: "validator list_entry codec"
  validator_create_codec :: "msg_validator_create codec"
  u128_codec :: "u128 codec"

text \<open>\<^verbatim>\<open>StatePrefix::Validator\<close>, the position of the list of validators.\<close>

definition prefix_validator :: u64 where
  "prefix_validator = 2"

definition validator_create :: "address \<Rightarrow> validator" where
  "validator_create addr =
    \<lparr>val_address = addr, val_pubkey = [], val_balance = 0, val_effective_balance = 0,
     val_activate_height = 0, val_exit_height = 0, val_deposit_queue = [], val_unlocked_queue = []\<rparr>"

definition key_index :: "'z crates_scheme \<Rightarrow> address \<Rightarrow> hash" where
  "key_index E addr =
    (let raw = as_bytes (hash_from_bytes (as_slice addr)) @ as_bytes (hash_from_bytes (to_be_bytes 8 prefix_validator))
     in Hash (blake2b_256 E raw))"

definition map_key :: "'z crates_scheme \<Rightarrow> validator \<Rightarrow> hash" where
  "map_key E v =
    (let raw = as_bytes (hash_from_bytes (as_slice (val_address v))) @
           as_bytes (hash_from_bytes (to_be_bytes 8 prefix_validator))
     in Hash (blake2b_256 E raw))"

text \<open>\<^verbatim>\<open>Staking::new\<close> and \<^verbatim>\<open>Staking::from_state\<close> place the head of the list here.\<close>

definition head_key :: hash where
  "head_key = hash_from_bytes (to_be_bytes 8 prefix_validator)"

section \<open>The linked list\<close>

text \<open>\<^verbatim>\<open>deserialize(get_storage(key).unwrap()).unwrap()\<close>, which the operations repeat.\<close>

definition load_entry ::
  "('kv, 'm, 't, 'z) staking_env_scheme \<Rightarrow> ('kv, 'm) state_db \<Rightarrow> hash \<Rightarrow> validator list_entry option" where
  "load_entry E s key =
    do { r \<leftarrow> get_storage E s key; encoded \<leftarrow> r; de (entry_codec E) encoded }"

definition staking_insert ::
  "('kv, 'm, 't, 'z) staking_env_scheme \<Rightarrow> ('kv, 'm) state_db \<Rightarrow> validator \<Rightarrow> ('kv, 'm) state_db option" where
  "staking_insert E s item =
    do { head \<leftarrow> get_storage E s head_key;
         (case head of
            None \<Rightarrow>
              (let entry = \<lparr>le_pre = None, le_next = None, le_payload = item\<rparr>;
                   s1 = set_storage s (map_key E item) (ser (entry_codec E) entry)
               in Some (set_storage s1 head_key (as_bytes (map_key E item))))
          | Some h \<Rightarrow>
              (let head_ref = hash_from_bytes h;
                   entry = \<lparr>le_pre = None, le_next = Some head_ref, le_payload = item\<rparr>;
                   s1 = set_storage s (map_key E item) (ser (entry_codec E) entry)
               in do {
                 nxt \<leftarrow> load_entry E s1 head_ref;
                 (let nxt' = nxt\<lparr>le_pre := Some (map_key E item)\<rparr>;
                      s2 = set_storage s1 (map_key E (le_payload nxt')) (ser (entry_codec E) nxt')
                  in Some (set_storage s2 head_key (as_bytes (map_key E item)))) })) }"

definition set_item ::
  "('kv, 'm, 't, 'z) staking_env_scheme \<Rightarrow> ('kv, 'm) state_db \<Rightarrow> validator \<Rightarrow> ('kv, 'm) state_db option" where
  "set_item E s item =
    do { r \<leftarrow> get_storage E s (map_key E item);
         (case r of
            None \<Rightarrow> staking_insert E s item
          | Some encoded \<Rightarrow> do {
              entry \<leftarrow> de (entry_codec E) encoded;
              Some (set_storage s (map_key E item) (ser (entry_codec E) (entry\<lparr>le_payload := item\<rparr>))) }) }"

text \<open>The two halves of \<^verbatim>\<open>delete\<close>: the link before the cell, or the head, and the link after it.\<close>

definition delete_before ::
  "('kv, 'm, 't, 'z) staking_env_scheme \<Rightarrow> ('kv, 'm) state_db \<Rightarrow> validator list_entry \<Rightarrow> ('kv, 'm) state_db option" where
  "delete_before E s item =
    (case le_pre item of
       Some pre \<Rightarrow> do {
         pre_node \<leftarrow> load_entry E s pre;
         Some (set_storage s pre (ser (entry_codec E) (pre_node\<lparr>le_next := le_next item\<rparr>))) }
     | None \<Rightarrow>
         (case le_next item of
            Some nxt \<Rightarrow> Some (set_storage s head_key (as_bytes nxt))
          | None \<Rightarrow> Some (remove_storage s head_key)))"

definition delete_after ::
  "('kv, 'm, 't, 'z) staking_env_scheme \<Rightarrow> ('kv, 'm) state_db \<Rightarrow> validator list_entry \<Rightarrow> ('kv, 'm) state_db option" where
  "delete_after E s item =
    (case le_next item of
       Some nxt \<Rightarrow> do {
         next_node \<leftarrow> load_entry E s nxt;
         Some (set_storage s nxt (ser (entry_codec E) (next_node\<lparr>le_pre := le_pre item\<rparr>))) }
     | None \<Rightarrow> Some s)"

definition staking_delete ::
  "('kv, 'm, 't, 'z) staking_env_scheme \<Rightarrow> ('kv, 'm) state_db \<Rightarrow> address \<Rightarrow> ('kv, 'm) state_db option" where
  "staking_delete E s addr =
    do { r \<leftarrow> get_storage E s (key_index E addr);
         (case r of
            None \<Rightarrow> Some s
          | Some encoded \<Rightarrow> do {
              item \<leftarrow> de (entry_codec E) encoded;
              s1 \<leftarrow> delete_before E s item;
              s2 \<leftarrow> delete_after E s1 item;
              Some (remove_storage s2 (key_index E addr)) }) }"

text \<open>
  The loop of \<^verbatim>\<open>validator_set\<close> follows the links and ends only if they do: the outer \<^term>\<open>None\<close> is a
  loop that does not return, the inner one a panic.
\<close>

partial_function (option) validator_set_loop ::
  "('kv, 'm, 't, 'z) staking_env_scheme \<Rightarrow> ('kv, 'm) state_db \<Rightarrow> hash option \<Rightarrow> validator list
     \<Rightarrow> validator list option option" where
  "validator_set_loop E s next_ref items =
    (case next_ref of
       None \<Rightarrow> Some (Some items)
     | Some r \<Rightarrow>
        (case load_entry E s r of
           None \<Rightarrow> Some None
         | Some item \<Rightarrow> validator_set_loop E s (le_next item) (items @ [le_payload item])))"

definition validator_set ::
  "('kv, 'm, 't, 'z) staking_env_scheme \<Rightarrow> ('kv, 'm) state_db \<Rightarrow> validator list option option" where
  "validator_set E s =
    (case get_storage E s head_key of
       None \<Rightarrow> Some None
     | Some None \<Rightarrow> Some (Some [])
     | Some (Some head_ref) \<Rightarrow> validator_set_loop E s (Some (hash_from_bytes head_ref)) [])"

definition get_validator ::
  "('kv, 'm, 't, 'z) staking_env_scheme \<Rightarrow> ('kv, 'm) state_db \<Rightarrow> address \<Rightarrow> validator option option" where
  "get_validator E s addr =
    do { r \<leftarrow> get_storage E s (key_index E addr);
         (case r of
            None \<Rightarrow> Some None
          | Some encoded \<Rightarrow> do { obj \<leftarrow> de (entry_codec E) encoded; Some (Some (le_payload obj)) }) }"

section \<open>Validators\<close>

definition validate ::
  "('kv, 'm, 't, 'z) staking_env_scheme \<Rightarrow> ('kv, 'm) state_db \<Rightarrow> address \<Rightarrow> bytes \<Rightarrow> u128
     \<Rightarrow> ('kv, 'm) state_db option" where
  "validate E s addr pk amount =
    do { v \<leftarrow> get_validator E s addr;
         (if v \<noteq> None then Some s
          else do {
            s1 \<leftarrow> staking_insert E s
              \<lparr>val_address = addr, val_pubkey = pk, val_balance = amount, val_effective_balance = amount,
               val_activate_height = 0, val_exit_height = 0, val_deposit_queue = [], val_unlocked_queue = []\<rparr>;
            lock_balance E s1 addr amount }) }"

definition deposit ::
  "('kv, 'm, 't, 'z) staking_env_scheme \<Rightarrow> ('kv, 'm) state_db \<Rightarrow> address \<Rightarrow> u128 \<Rightarrow> ('kv, 'm) state_db option" where
  "deposit E s addr amount =
    do { r \<leftarrow> get_validator E s addr;
         (case r of
            None \<Rightarrow> Some s
          | Some v \<Rightarrow> do {
              b \<leftarrow> uadd (overflow_checks E) (val_balance v) amount;
              s1 \<leftarrow> set_item E s
                (v\<lparr>val_deposit_queue := val_deposit_queue v @ [\<lparr>lb_amount = amount, lb_height = 0\<rparr>],
                   val_balance := b\<rparr>);
              lock_balance E s1 addr amount }) }"

text \<open>
  The loop of \<^verbatim>\<open>activate_deposit\<close> never changes \<^verbatim>\<open>offset\<close>: the outer \<^term>\<open>None\<close> is again a loop that
  does not return.
\<close>

partial_function (option) activate_loop ::
  "bool \<Rightarrow> locking_balance list \<Rightarrow> nat \<Rightarrow> u128 \<Rightarrow> u128 option option" where
  "activate_loop oc queue offset effective =
    (if offset < length queue
     then (if lb_height (queue ! offset) > 0 then Some (Some effective)
           else (case uadd oc effective (lb_amount (queue ! offset)) of
                   None \<Rightarrow> Some None
                 | Some e \<Rightarrow> activate_loop oc queue offset e))
     else Some (Some effective))"

definition activate_deposit ::
  "('kv, 'm, 't, 'z) staking_env_scheme \<Rightarrow> ('kv, 'm) state_db \<Rightarrow> address \<Rightarrow> ('kv, 'm) state_db option option" where
  "activate_deposit E s addr =
    (case get_validator E s addr of
       None \<Rightarrow> Some None
     | Some None \<Rightarrow> Some (Some s)
     | Some (Some v) \<Rightarrow>
        (case activate_loop (overflow_checks E) (val_deposit_queue v) 0 (val_effective_balance v) of
           None \<Rightarrow> None
         | Some None \<Rightarrow> Some None
         | Some (Some e) \<Rightarrow>
             Some (set_item E s (v\<lparr>val_effective_balance := e, val_deposit_queue := take 0 (val_deposit_queue v)\<rparr>))))"

definition staking_exit ::
  "('kv, 'm, 't, 'z) staking_env_scheme \<Rightarrow> ('kv, 'm) state_db \<Rightarrow> address \<Rightarrow> ('kv, 'm) state_db option" where
  "staking_exit E s addr =
    do { r \<leftarrow> get_validator E s addr;
         (case r of None \<Rightarrow> Some s | Some v \<Rightarrow> set_item E s (v\<lparr>val_exit_height := 0\<rparr>)) }"

definition exec_validate ::
  "('kv, 'm, 't, 'z) staking_env_scheme \<Rightarrow> ('kv, 'm) state_db \<Rightarrow> address \<Rightarrow> bytes \<Rightarrow> ('kv, 'm) state_db option" where
  "exec_validate E s addr input =
    (case de (validator_create_codec E) input of
       Some msg \<Rightarrow> validate E s addr (mvc_pubkey msg) (mvc_amount msg)
     | None \<Rightarrow> Some s)"

definition exec_deposit ::
  "('kv, 'm, 't, 'z) staking_env_scheme \<Rightarrow> ('kv, 'm) state_db \<Rightarrow> address \<Rightarrow> bytes \<Rightarrow> ('kv, 'm) state_db option" where
  "exec_deposit E s addr input =
    (case de (u128_codec E) input of Some msg \<Rightarrow> deposit E s addr msg | None \<Rightarrow> Some s)"

definition exec_exit ::
  "('kv, 'm, 't, 'z) staking_env_scheme \<Rightarrow> ('kv, 'm) state_db \<Rightarrow> address \<Rightarrow> bytes \<Rightarrow> ('kv, 'm) state_db option" where
  "exec_exit E s addr input = staking_exit E s addr"

section \<open>What the code relies on\<close>

text \<open>
  The codec of list cells inverts, digests have 32 bytes, and the storage cells of validators, of
  accounts and of the head of the list are all different.
\<close>

definition staking_ok :: "('kv, 'm, 't, 'z) staking_env_scheme \<Rightarrow> bool" where
  "staking_ok E \<longleftrightarrow> codec_ok (entry_codec E) \<and> digest_ok E \<and> inj_on (key_index E) {a. address_wf a} \<and>
    (\<forall>a b. address_wf a \<longrightarrow> address_wf b \<longrightarrow>
       key_index E a \<noteq> head_key \<and> address_key E a \<noteq> head_key \<and> address_key E a \<noteq> key_index E b)"

lemma map_key_index: "map_key E v = key_index E (val_address v)"
  by (simp add: map_key_def key_index_def)

lemma key_index_wf: "digest_ok E \<Longrightarrow> hash_wf (key_index E a)"
  by (simp add: key_index_def hash_wf_def)

lemma staking_okD:
  assumes "staking_ok E"
  shows "codec_ok (entry_codec E)" "hash_wf (key_index E a)"
    and "\<lbrakk>address_wf a; address_wf b\<rbrakk> \<Longrightarrow> key_index E a = key_index E b \<longleftrightarrow> a = b"
    and "address_wf a \<Longrightarrow> key_index E a \<noteq> head_key" "address_wf a \<Longrightarrow> head_key \<noteq> key_index E a"
    and "address_wf a \<Longrightarrow> address_key E a \<noteq> head_key"
    and "\<lbrakk>address_wf a; address_wf b\<rbrakk> \<Longrightarrow> address_key E a \<noteq> key_index E b"
  using assms by (auto simp: staking_ok_def inj_on_eq_iff key_index_wf)

section \<open>The list the cells stand for\<close>

text \<open>
  A segment of cells: the cell of each validator holds it with links to its neighbours; \<open>pre\<close> and
  \<open>nxt\<close> are the links at the two ends.
\<close>

definition first_link :: "'z crates_scheme \<Rightarrow> validator list \<Rightarrow> hash option \<Rightarrow> hash option" where
  "first_link E vs nxt = (case vs of [] \<Rightarrow> nxt | v # _ \<Rightarrow> Some (map_key E v))"

definition last_link :: "'z crates_scheme \<Rightarrow> validator list \<Rightarrow> hash option \<Rightarrow> hash option" where
  "last_link E vs pre = (if vs = [] then pre else Some (map_key E (last vs)))"

fun lseg ::
  "('kv, 'm, 't, 'z) staking_env_scheme \<Rightarrow> (hash \<Rightarrow> bytes option option) \<Rightarrow> hash option \<Rightarrow> validator list
     \<Rightarrow> hash option \<Rightarrow> bool" where
  "lseg E f pre [] nxt = True"
| "lseg E f pre (v # vs) nxt =
    (f (map_key E v) =
       Some (Some (ser (entry_codec E) \<lparr>le_pre = pre, le_next = first_link E vs nxt, le_payload = v\<rparr>)) \<and>
     lseg E f (Some (map_key E v)) vs nxt)"

definition vals_wf :: "validator list \<Rightarrow> bool" where
  "vals_wf vs \<longleftrightarrow> distinct (map val_address vs) \<and> (\<forall>v \<in> set vs. address_wf (val_address v))"

definition validators_of ::
  "('kv, 'm, 't, 'z) staking_env_scheme \<Rightarrow> (hash \<Rightarrow> bytes option option) \<Rightarrow> validator list \<Rightarrow> bool" where
  "validators_of E f vs \<longleftrightarrow> lseg E f None vs None \<and> vals_wf vs \<and>
    f head_key = Some (map_option as_bytes (first_link E vs None)) \<and>
    (\<forall>a. address_wf a \<and> a \<notin> val_address ` set vs \<longrightarrow> f (key_index E a) = Some None)"

lemma link_simps [simp]:
  "first_link E [] nxt = nxt" "first_link E (v # vs) nxt = Some (map_key E v)"
  "first_link E (xs @ ys) nxt = first_link E xs (first_link E ys nxt)"
  "last_link E [] pre = pre" "last_link E (xs @ [v]) pre = Some (map_key E v)"
  by (auto simp: first_link_def last_link_def split: list.splits)

lemma last_link_Cons [simp]: "last_link E (v # vs) pre = last_link E vs (Some (map_key E v))"
  by (simp add: last_link_def)

lemma lseg_append:
  "lseg E f pre (xs @ ys) nxt \<longleftrightarrow> lseg E f pre xs (first_link E ys nxt) \<and> lseg E f (last_link E xs pre) ys nxt"
  by (induction xs arbitrary: pre) auto

lemma lseg_frame:
  "k \<notin> map_key E ` set vs \<Longrightarrow> lseg E (f(k := x)) pre vs nxt \<longleftrightarrow> lseg E f pre vs nxt"
  by (induction vs arbitrary: pre) auto

lemma load_entry_get:
  "\<lbrakk>codec_ok (entry_codec E); get_storage E s k = Some (Some (ser (entry_codec E) e))\<rbrakk> \<Longrightarrow> load_entry E s k = Some e"
  by (simp add: load_entry_def)

lemma validators_ofD:
  assumes "validators_of E f vs"
  shows "lseg E f None vs None" "vals_wf vs" "f head_key = Some (map_option as_bytes (first_link E vs None))"
    and "\<lbrakk>address_wf a; a \<notin> val_address ` set vs\<rbrakk> \<Longrightarrow> f (key_index E a) = Some None"
  using assms by (auto simp: validators_of_def)

lemma hash_from_key [simp]: "staking_ok E \<Longrightarrow> hash_from_bytes (as_bytes (key_index E a)) = key_index E a"
  by (simp add: staking_okD)

section \<open>The operations on the cells are the operations on the list\<close>

lemma vals_wf_keys:
  assumes "staking_ok E" "vals_wf vs"
  shows "distinct (map (map_key E) vs)" "head_key \<notin> map_key E ` set vs"
    and "\<lbrakk>address_wf a; a \<notin> val_address ` set vs\<rbrakk> \<Longrightarrow> key_index E a \<notin> map_key E ` set vs"
  using assms staking_okD(3-5) [OF assms(1)]
  by (auto simp: vals_wf_def map_key_index distinct_conv_nth)

lemma staking_insert_refines:
  assumes ok: "staking_ok E" and rep: "validators_of E (get_storage E s) vs"
    and wf: "address_wf (val_address v)" and new: "val_address v \<notin> val_address ` set vs"
  obtains s' where "staking_insert E s v = Some s'" "validators_of E (get_storage E s') (v # vs)"
    "\<And>k. k \<noteq> head_key \<Longrightarrow> k \<notin> map_key E ` set (v # vs) \<Longrightarrow> get_storage E s' k = get_storage E s k"
proof (cases vs)
  case Nil
  note D = staking_okD [OF ok]
  show thesis
  proof (rule that)
    let ?s = "set_storage (set_storage s (map_key E v)
      (ser (entry_codec E) \<lparr>le_pre = None, le_next = None, le_payload = v\<rparr>)) head_key (as_bytes (map_key E v))"
    show "staking_insert E s v = Some ?s"
      using validators_ofD(3) [OF rep] by (simp add: staking_insert_def Nil Let_def)
    show "validators_of E (get_storage E ?s) (v # vs)"
      using validators_ofD(4) [OF rep] wf
      by (auto simp: validators_of_def Nil vals_wf_def map_key_index D)
    show "k \<noteq> head_key \<Longrightarrow> k \<notin> map_key E ` set (v # vs) \<Longrightarrow> get_storage E ?s k = get_storage E s k" for k
      by simp
  qed
next
  case (Cons w ws)
  note D = staking_okD [OF ok] and R = validators_ofD [OF rep, unfolded Cons]
  have W: "vals_wf (v # w # ws)"
    using R(2) new wf by (auto simp: Cons vals_wf_def)
  note K = vals_wf_keys [OF ok W]
  let ?e = "\<lparr>le_pre = None, le_next = Some (map_key E w), le_payload = v\<rparr>"
  let ?w = "\<lparr>le_pre = Some (map_key E v), le_next = first_link E ws None, le_payload = w\<rparr>"
  let ?s = "set_storage (set_storage (set_storage s (map_key E v) (ser (entry_codec E) ?e))
    (map_key E w) (ser (entry_codec E) ?w)) head_key (as_bytes (map_key E v))"
  show thesis
  proof (rule that)
    have "hash_from_bytes (as_bytes (map_key E w)) = map_key E w" "map_key E w \<noteq> map_key E v"
      using K(1) by (auto simp: map_key_index ok)
    then show "staking_insert E s v = Some ?s"
      using R(1,3) by (simp add: staking_insert_def load_entry_def D(1) Let_def)
    show "validators_of E (get_storage E ?s) (v # vs)"
      using R K W unfolding validators_of_def Cons
      by (auto simp: lseg_frame D(4))
    show "k \<noteq> head_key \<Longrightarrow> k \<notin> map_key E ` set (v # vs) \<Longrightarrow> get_storage E ?s k = get_storage E s k" for k
      by (simp add: Cons)
  qed
qed


text \<open>A validator of the list splits it, and its cell has the links to the two sides.\<close>

lemma validators_of_split:
  assumes "validators_of E f vs" "address_wf a" "a \<in> val_address ` set vs"
  obtains xs v ys where "vs = xs @ v # ys" "val_address v = a"
    "a \<notin> val_address ` set xs" "a \<notin> val_address ` set ys"
    "f (map_key E v) = Some (Some (ser (entry_codec E)
       \<lparr>le_pre = last_link E xs None, le_next = first_link E ys None, le_payload = v\<rparr>))"
    "lseg E f None xs (Some (map_key E v))" "lseg E f (Some (map_key E v)) ys None"
proof -
  from assms(3) obtain v where "v \<in> set vs" "val_address v = a" by auto
  then obtain xs ys where vs: "vs = xs @ v # ys" by (meson split_list)
  moreover have "a \<notin> val_address ` set xs" "a \<notin> val_address ` set ys"
    using validators_ofD(2) [OF assms(1)] \<open>val_address v = a\<close> by (auto simp: vs vals_wf_def)
  moreover have "lseg E f None (xs @ v # ys) None"
    using validators_ofD(1) [OF assms(1)] by (simp add: vs)
  ultimately show thesis
    using \<open>val_address v = a\<close> by (intro that [of xs v ys]) (auto simp: lseg_append)
qed

definition find_validator :: "address \<Rightarrow> validator list \<Rightarrow> validator option" where
  "find_validator a vs = find (\<lambda>v. val_address v = a) vs"

lemma find_validator_None: "find_validator a vs = None \<longleftrightarrow> a \<notin> val_address ` set vs"
  by (auto simp: find_validator_def find_None_iff)

lemma find_validator_split:
  "a \<notin> val_address ` set xs \<Longrightarrow> val_address v = a \<Longrightarrow> find_validator a (xs @ v # ys) = Some v"
  by (induction xs) (auto simp: find_validator_def)

lemma get_validator_refines:
  assumes "staking_ok E" "validators_of E (get_storage E s) vs" "address_wf a"
  shows "get_validator E s a = Some (find_validator a vs)"
proof (cases "a \<in> val_address ` set vs")
  case True
  obtain xs v ys where vs: "vs = xs @ v # ys" "val_address v = a" "a \<notin> val_address ` set xs"
    "get_storage E s (map_key E v) = Some (Some (ser (entry_codec E)
       \<lparr>le_pre = last_link E xs None, le_next = first_link E ys None, le_payload = v\<rparr>))"
    using validators_of_split [OF assms(2,3) True] by metis
  then show ?thesis
    using find_validator_split [OF vs(3,2)] staking_okD(1) [OF assms(1)]
    by (simp add: get_validator_def map_key_index)
next
  case False
  then show ?thesis
    using validators_ofD(4) [OF assms(2,3) False] find_validator_None [of a vs]
    by (simp add: get_validator_def)
qed

text \<open>Replacing a validator in place, or putting it at the front.\<close>

definition put_validator :: "validator \<Rightarrow> validator list \<Rightarrow> validator list" where
  "put_validator v vs =
    (if val_address v \<in> val_address ` set vs
     then map (\<lambda>w. if val_address w = val_address v then v else w) vs else v # vs)"

lemma put_validator_addresses: "val_address ` set (put_validator v vs) = insert (val_address v) (val_address ` set vs)"
  by (auto simp: put_validator_def image_iff)

lemma map_key_image: "map_key E ` A = key_index E ` val_address ` A"
  by (simp add: map_key_index image_image)

lemma put_validator_split:
  assumes "val_address v = a" "val_address u = a" "a \<notin> val_address ` set xs" "a \<notin> val_address ` set ys"
  shows "put_validator v (xs @ u # ys) = xs @ v # ys"
  using assms by (auto simp: put_validator_def image_iff intro!: map_idI)

lemma set_item_refines:
  assumes ok: "staking_ok E" and rep: "validators_of E (get_storage E s) vs" and wf: "address_wf (val_address v)"
  obtains s' where "set_item E s v = Some s'" "validators_of E (get_storage E s') (put_validator v vs)"
    "\<And>k. k \<noteq> head_key \<Longrightarrow> k \<notin> map_key E ` set (v # vs) \<Longrightarrow> get_storage E s' k = get_storage E s k"
proof (cases "val_address v \<in> val_address ` set vs")
  case False
  with validators_ofD(4) [OF rep wf False] show thesis
    using staking_insert_refines [OF ok rep wf False] that
    by (auto simp: set_item_def map_key_index put_validator_def)
next
  case True
  obtain xs u ys where vs: "vs = xs @ u # ys" "val_address u = val_address v"
    "val_address v \<notin> val_address ` set xs" "val_address v \<notin> val_address ` set ys"
    "get_storage E s (map_key E u) = Some (Some (ser (entry_codec E)
       \<lparr>le_pre = last_link E xs None, le_next = first_link E ys None, le_payload = u\<rparr>))"
    "lseg E (get_storage E s) None xs (Some (map_key E u))" "lseg E (get_storage E s) (Some (map_key E u)) ys None"
    using validators_of_split [OF rep wf True] by metis
  have key: "map_key E u = map_key E v" by (simp add: map_key_index vs(2))
  let ?s = "set_storage s (map_key E v) (ser (entry_codec E)
    \<lparr>le_pre = last_link E xs None, le_next = first_link E ys None, le_payload = v\<rparr>)"
  note R = validators_ofD [OF rep] and K = vals_wf_keys [OF ok validators_ofD(2) [OF rep]]
  show thesis
  proof (rule that)
    show "set_item E s v = Some ?s"
      using vs(5) by (simp add: set_item_def key staking_okD(1) [OF ok])
    have "vals_wf (xs @ v # ys)" using R(2) by (simp add: vs(1,2) vals_wf_def)
    moreover have "head_key \<noteq> map_key E v" using K(2) by (auto simp: vs(1) key)
    moreover have "map_key E v \<notin> map_key E ` set xs" "map_key E v \<notin> map_key E ` set ys"
      using K(1) by (auto simp: vs(1) key)
    ultimately show "validators_of E (get_storage E ?s) (put_validator v vs)"
      using R(3,4) vs(6,7) K(3) unfolding put_validator_split [OF refl vs(2-4)] vs(1)
      by (auto simp: validators_of_def lseg_append lseg_frame vs(2) key)
    show "k \<noteq> head_key \<Longrightarrow> k \<notin> map_key E ` set (v # vs) \<Longrightarrow> get_storage E ?s k = get_storage E s k" for k
      by simp
  qed
qed


text \<open>The segments next to a deleted cell, with their links changed.\<close>

lemma lseg_last_next:
  "lseg E f pre (xs @ [u]) nxt \<Longrightarrow> map_key E u \<notin> map_key E ` set xs \<Longrightarrow>
   lseg E (f(map_key E u := Some (Some (ser (entry_codec E) \<lparr>le_pre = last_link E xs pre, le_next = nxt', le_payload = u\<rparr>))))
     pre (xs @ [u]) nxt'"
  by (simp add: lseg_append lseg_frame)

lemma lseg_first_pre:
  "lseg E f pre (w # ws) nxt \<Longrightarrow> map_key E w \<notin> map_key E ` set ws \<Longrightarrow>
   lseg E (f(map_key E w := Some (Some (ser (entry_codec E) \<lparr>le_pre = pre', le_next = first_link E ws nxt, le_payload = w\<rparr>))))
     pre' (w # ws) nxt"
  by (simp add: lseg_frame)

text \<open>The first half of \<^verbatim>\<open>delete\<close> bends the link before the cell, the second half the link after it.\<close>

lemma delete_before_lseg:
  fixes E :: "('kv, 'm, 't, 'z) staking_env_scheme"
  defines "item xs v ys \<equiv> \<lparr>le_pre = last_link E xs None, le_next = first_link E ys None, le_payload = v\<rparr>"
  assumes "staking_ok E" "vals_wf (xs @ v # ys)"
    and "get_storage E s head_key = Some (map_option as_bytes (first_link E (xs @ v # ys) None))"
    and "lseg E (get_storage E s) None xs (Some (map_key E v))"
  obtains s1 where "delete_before E s (item xs v ys) = Some s1"
    "lseg E (get_storage E s1) None xs (first_link E ys None)"
    "get_storage E s1 head_key = Some (map_option as_bytes (first_link E (xs @ ys) None))"
    "\<And>k. k \<noteq> head_key \<Longrightarrow> k \<notin> map_key E ` set xs \<Longrightarrow> get_storage E s1 k = get_storage E s k"
proof (cases xs rule: rev_cases)
  case Nil
  then show thesis
    by (cases ys) (auto simp: delete_before_def item_def intro!: that)
next
  case (snoc us u)
  note K = vals_wf_keys [OF assms(2,3)]
  let ?s = "set_storage s (map_key E u) (ser (entry_codec E)
    \<lparr>le_pre = last_link E us None, le_next = first_link E ys None, le_payload = u\<rparr>)"
  show thesis
  proof (rule that)
    have "get_storage E s (map_key E u) = Some (Some (ser (entry_codec E)
        \<lparr>le_pre = last_link E us None, le_next = Some (map_key E v), le_payload = u\<rparr>))"
      using assms(5) by (simp add: snoc lseg_append)
    then show "delete_before E s (item xs v ys) = Some ?s"
      by (simp add: snoc delete_before_def item_def load_entry_get [OF staking_okD(1) [OF assms(2)]])
    show "lseg E (get_storage E ?s) None xs (first_link E ys None)"
      using lseg_last_next [OF assms(5) [unfolded snoc]] K(1) by (auto simp: snoc)
    show "get_storage E ?s head_key = Some (map_option as_bytes (first_link E (xs @ ys) None))"
      using assms(4) K(2) by (cases us) (auto simp: snoc)
    show "k \<noteq> head_key \<Longrightarrow> k \<notin> map_key E ` set xs \<Longrightarrow> get_storage E ?s k = get_storage E s k" for k
      by (simp add: snoc)
  qed
qed

lemma delete_after_lseg:
  assumes "staking_ok E" "vals_wf (v # ys)" "lseg E (get_storage E s) (Some (map_key E v)) ys None"
    and "le_next item = first_link E ys None"
  obtains s1 where "delete_after E s item = Some s1" "lseg E (get_storage E s1) (le_pre item) ys None"
    "\<And>k. k \<notin> map_key E ` set ys \<Longrightarrow> get_storage E s1 k = get_storage E s k"
proof (cases ys)
  case Nil
  then show thesis using assms(4) by (intro that [of s]) (auto simp: delete_after_def)
next
  case (Cons w ws)
  note K = vals_wf_keys [OF assms(1,2)]
  let ?s = "set_storage s (map_key E w) (ser (entry_codec E)
    \<lparr>le_pre = le_pre item, le_next = first_link E ws None, le_payload = w\<rparr>)"
  show thesis
  proof (rule that [of ?s])
    show "lseg E (get_storage E ?s) (le_pre item) ys None"
      using lseg_first_pre [OF assms(3) [unfolded Cons]] K(1) by (auto simp: Cons)
  qed (use assms(3,4) in \<open>auto simp: Cons delete_after_def load_entry_get [OF staking_okD(1) [OF assms(1)]]\<close>)
qed

lemma lseg_cong:
  "(\<And>v. v \<in> set vs \<Longrightarrow> f (map_key E v) = g (map_key E v)) \<Longrightarrow> lseg E f pre vs nxt \<longleftrightarrow> lseg E g pre vs nxt"
  by (induction vs arbitrary: pre) auto

definition remove_validator :: "address \<Rightarrow> validator list \<Rightarrow> validator list" where
  "remove_validator a vs = filter (\<lambda>v. val_address v \<noteq> a) vs"

lemma remove_validator_split:
  assumes "val_address v = a" "a \<notin> val_address ` set xs" "a \<notin> val_address ` set ys"
  shows "remove_validator a (xs @ v # ys) = xs @ ys"
proof -
  have "filter (\<lambda>v. val_address v \<noteq> a) xs = xs" "filter (\<lambda>v. val_address v \<noteq> a) ys = ys"
    using assms by (auto simp: filter_id_conv image_iff)
  then show ?thesis using assms(1) by (simp add: remove_validator_def)
qed

lemma staking_delete_refines:
  assumes ok: "staking_ok E" and rep: "validators_of E (get_storage E s) vs" and wf: "address_wf a"
  obtains s' where "staking_delete E s a = Some s'" "validators_of E (get_storage E s') (remove_validator a vs)"
    "\<And>k. k \<noteq> head_key \<Longrightarrow> k \<notin> map_key E ` set vs \<Longrightarrow> get_storage E s' k = get_storage E s k"
proof (cases "a \<in> val_address ` set vs")
  case False
  then have "remove_validator a vs = vs" by (auto simp: remove_validator_def intro!: filter_True)
  with validators_ofD(4) [OF rep wf False] rep show thesis
    by (intro that [of s]) (auto simp: staking_delete_def)
next
  case True
  obtain xs v ys where vs: "vs = xs @ v # ys" "val_address v = a"
    "a \<notin> val_address ` set xs" "a \<notin> val_address ` set ys"
    "get_storage E s (map_key E v) = Some (Some (ser (entry_codec E)
       \<lparr>le_pre = last_link E xs None, le_next = first_link E ys None, le_payload = v\<rparr>))"
    "lseg E (get_storage E s) None xs (Some (map_key E v))" "lseg E (get_storage E s) (Some (map_key E v)) ys None"
    using validators_of_split [OF rep wf True] by metis
  note R = validators_ofD [OF rep, unfolded vs(1)] and K = vals_wf_keys [OF ok validators_ofD(2) [OF rep], unfolded vs(1)]
  have key: "key_index E a = map_key E v" by (simp add: map_key_index vs(2))
  have wf': "vals_wf (v # ys)" "vals_wf (xs @ ys)" using R(2) by (auto simp: vals_wf_def)
  let ?item = "\<lparr>le_pre = last_link E xs None, le_next = first_link E ys None, le_payload = v\<rparr>"
  obtain s1 where s1: "delete_before E s ?item = Some s1"
    "lseg E (get_storage E s1) None xs (first_link E ys None)"
    "get_storage E s1 head_key = Some (map_option as_bytes (first_link E (xs @ ys) None))"
    "\<And>k. k \<noteq> head_key \<Longrightarrow> k \<notin> map_key E ` set xs \<Longrightarrow> get_storage E s1 k = get_storage E s k"
    by (rule delete_before_lseg [OF ok R(2,3) vs(6)]) (rule that)
  have "get_storage E s1 (map_key E w) = get_storage E s (map_key E w)" if "w \<in> set ys" for w
    using K(1,2) imageI [OF that, of "map_key E"] by (intro s1(4)) auto
  with vs(7) have "lseg E (get_storage E s1) (Some (map_key E v)) ys None"
    by (simp cong: lseg_cong)
  from ok wf'(1) this obtain s2 where s2: "delete_after E s1 ?item = Some s2"
    "lseg E (get_storage E s2) (last_link E xs None) ys None"
    "\<And>k. k \<notin> map_key E ` set ys \<Longrightarrow> get_storage E s2 k = get_storage E s1 k"
    by (rule delete_after_lseg [where item = ?item]) auto
  have "get_storage E s2 (map_key E w) = get_storage E s1 (map_key E w)" if "w \<in> set xs" for w
    using that K(1) by (intro s2(3)) auto
  with s1(2) have "lseg E (get_storage E s2) None xs (first_link E ys None)"
    by (simp cong: lseg_cong)
  then have seg: "lseg E (get_storage E s2) None (xs @ ys) None" by (simp add: lseg_append s2(2))
  show thesis
  proof (rule that)
    show "staking_delete E s a = Some (remove_storage s2 (key_index E a))"
      using vs(5) s1(1) s2(1) by (simp add: staking_delete_def key staking_okD(1) [OF ok])
    show "validators_of E (get_storage E (remove_storage s2 (key_index E a))) (remove_validator a vs)"
    proof -
      have "get_storage E (remove_storage s2 (key_index E a)) (key_index E b) = Some None"
        if "address_wf b" "b \<notin> val_address ` set (xs @ ys)" for b
      proof (cases "b = a")
        case False
        with that R(4) [of b] K(3) [of b] vs(2) show ?thesis
          using s1(4) [of "key_index E b"] s2(3) [of "key_index E b"] staking_okD(4) [OF ok]
          by (simp add: key image_Un)
      qed simp
      moreover have "get_storage E s2 head_key = get_storage E s1 head_key"
        using K(2) by (intro s2(3)) (simp add: image_Un)
      ultimately show ?thesis
        unfolding vs(1) remove_validator_split [OF vs(2-4)] validators_of_def
        using seg wf'(2) s1(3) K(1,2) by (auto simp: key lseg_frame image_Un)
    qed
    show "get_storage E (remove_storage s2 (key_index E a)) k = get_storage E s k"
      if "k \<noteq> head_key" "k \<notin> map_key E ` set vs" for k
      using that s1(4) s2(3) by (auto simp: key vs(1) image_Un)
  qed
qed

subsection \<open>validator\_set\<close>

lemma validator_set_loop_lseg:
  assumes "staking_ok E" "lseg E (get_storage E s) pre vs None"
  shows "validator_set_loop E s (first_link E vs None) items = Some (Some (items @ vs))"
  using assms(2)
proof (induction vs arbitrary: pre items)
  case Nil
  then show ?case by (simp add: validator_set_loop.simps)
next
  case (Cons v vs)
  then show ?case
    using Cons.IH [of "Some (map_key E v)" "items @ [v]"]
    by (subst validator_set_loop.simps) (simp add: load_entry_get [OF staking_okD(1) [OF assms(1)]])
qed

lemma validator_set_refines:
  assumes "staking_ok E" "validators_of E (get_storage E s) vs"
  shows "validator_set E s = Some (Some vs)"
proof -
  note R = validators_ofD [OF assms(2)]
  have "hash_from_bytes (as_bytes (map_key E v)) = map_key E v" for v
    by (simp add: map_key_index assms(1))
  then show ?thesis
    using R(3) validator_set_loop_lseg [OF assms(1) R(1), of "[]"]
    by (cases vs) (auto simp: validator_set_def)
qed

section \<open>The registry of validators\<close>

lemma find_replace:
  "find_validator a (map (\<lambda>w. if val_address w = val_address v then v else w) vs) =
    (if a = val_address v \<and> a \<in> val_address ` set vs then Some v else find_validator a vs)"
  by (induction vs) (auto simp: find_validator_def)

lemma find_put: "find_validator a (put_validator v vs) = (if a = val_address v then Some v else find_validator a vs)"
  by (auto simp: put_validator_def find_replace) (simp add: find_validator_def)+

lemma find_remove: "find_validator a (remove_validator b vs) = (if a = b then None else find_validator a vs)"
  by (induction vs) (auto simp: find_validator_def remove_validator_def)

text \<open>
  The interface of the list of validators for its clients: \<open>rep\<close> relates a state to the list it stands
  for, and reading, writing and deleting act on that list.
\<close>

locale validator_registry =
  fixes ok :: "'e \<Rightarrow> bool"
    and rep :: "'e \<Rightarrow> 's \<Rightarrow> validator list \<Rightarrow> bool"
    and put :: "'e \<Rightarrow> 's \<Rightarrow> validator \<Rightarrow> 's option"
    and del :: "'e \<Rightarrow> 's \<Rightarrow> address \<Rightarrow> 's option"
    and get :: "'e \<Rightarrow> 's \<Rightarrow> address \<Rightarrow> validator option option"
    and all :: "'e \<Rightarrow> 's \<Rightarrow> validator list option option"
  assumes put_law: "\<lbrakk>ok e; rep e s vs; address_wf (val_address v)\<rbrakk> \<Longrightarrow>
      \<exists>s'. put e s v = Some s' \<and> rep e s' (put_validator v vs)"
    and del_law: "\<lbrakk>ok e; rep e s vs; address_wf a\<rbrakk> \<Longrightarrow> \<exists>s'. del e s a = Some s' \<and> rep e s' (remove_validator a vs)"
    and get_law: "\<lbrakk>ok e; rep e s vs; address_wf a\<rbrakk> \<Longrightarrow> get e s a = Some (find_validator a vs)"
    and all_law: "\<lbrakk>ok e; rep e s vs\<rbrakk> \<Longrightarrow> all e s = Some (Some vs)"
begin

lemma get_put:
  assumes "ok e" "rep e s vs" "address_wf (val_address v)" "put e s v = Some s'" "address_wf a"
  shows "get e s' a = (if a = val_address v then Some (Some v) else get e s a)"
  using put_law [OF assms(1-3)] get_law [OF assms(1) _ assms(5)] assms(2,4) by (auto simp: find_put)

lemma get_del:
  assumes "ok e" "rep e s vs" "address_wf b" "del e s b = Some s'" "address_wf a"
  shows "get e s' a = (if a = b then Some None else get e s a)"
  using del_law [OF assms(1-3)] get_law [OF assms(1) _ assms(5)] assms(2,4) by (auto simp: find_remove)

lemma all_put_del:
  assumes "ok e" "rep e s vs" "address_wf (val_address v)" "val_address v \<notin> val_address ` set vs"
    and "put e s v = Some s1" "del e s1 (val_address v) = Some s2"
  shows "all e s1 = Some (Some (v # vs))" "all e s2 = Some (Some vs)"
proof -
  have "put_validator v vs = v # vs" "remove_validator (val_address v) (v # vs) = vs"
    using assms(4) by (auto simp: put_validator_def remove_validator_def filter_id_conv image_iff)
  then have "rep e s1 (v # vs)" "rep e s2 vs"
    using put_law [OF assms(1-3)] del_law [OF assms(1) _ assms(3)] assms(5,6) by fastforce+
  then show "all e s1 = Some (Some (v # vs))" "all e s2 = Some (Some vs)"
    using all_law [OF assms(1)] by auto
qed

end

interpretation reg: validator_registry staking_ok "\<lambda>E s. validators_of E (get_storage E s)"
  set_item staking_delete get_validator validator_set
  by unfold_locales
    (metis set_item_refines, metis staking_delete_refines, auto simp: get_validator_refines validator_set_refines)

text \<open>The list of validators and the accounts live in different cells.\<close>

lemma load_account_frame:
  assumes "staking_ok E" "vals_wf vs" "address_wf a"
    and "\<And>k. k \<noteq> head_key \<Longrightarrow> k \<notin> map_key E ` set vs \<Longrightarrow> get_storage E s' k = get_storage E s k"
  shows "load_account E s' a = load_account E s a"
proof -
  have "address_key E a \<notin> map_key E ` set vs"
    using assms(1-3) staking_okD(7) [OF assms(1,3)] by (auto simp: map_key_index vals_wf_def)
  then show ?thesis
    using assms(4) [of "address_key E a"] staking_okD(6) [OF assms(1,3)] by (simp add: load_account_def)
qed

lemma ledger_of_frame:
  assumes "staking_ok E" "vals_wf vs" "ledger_of E s L"
    and "\<And>k. k \<noteq> head_key \<Longrightarrow> k \<notin> map_key E ` set vs \<Longrightarrow> get_storage E s' k = get_storage E s k"
  shows "ledger_of E s' L"
  using load_account_frame [OF assms(1,2) _ assms(4)] assms(3) by (simp add: ledger_of_def)

lemma validators_of_set_account:
  assumes "staking_ok E" "validators_of E (get_storage E s) vs" "address_wf a"
  shows "validators_of E (get_storage E (set_account E s a x)) vs"
proof -
  have "address_key E a \<notin> map_key E ` set vs" "head_key \<noteq> address_key E a"
    using staking_okD(6,7) [OF assms(1,3)] validators_ofD(2) [OF assms(2)]
    by (auto simp: map_key_index vals_wf_def)
  then show ?thesis
    using assms(2) staking_okD(7) [OF assms(1,3), THEN not_sym]
    by (auto simp: validators_of_def set_account_def lseg_frame)
qed

section \<open>Properties\<close>

text \<open>
  C7. \<^verbatim>\<open>Staking::set_item\<close> on the linked cells is the update of the list of validators: the validator
  with that address is replaced in place, a new one comes first. \<^verbatim>\<open>validator_set\<close> then returns, without
  looping, exactly that list, \<^verbatim>\<open>get_validator\<close> finds its members, and no account changes.
\<close>

theorem set_item_list:
  assumes "staking_ok E" "validators_of E (get_storage E s) vs" "address_wf (val_address v)"
  shows "\<exists>s'. set_item E s v = Some s' \<and> validators_of E (get_storage E s') (put_validator v vs) \<and>
    validator_set E s' = Some (Some (put_validator v vs)) \<and>
    (\<forall>a. address_wf a \<longrightarrow>
      get_validator E s' a = (if a = val_address v then Some (Some v) else get_validator E s a) \<and>
      load_account E s' a = load_account E s a)"
proof -
  obtain s' where s': "set_item E s v = Some s'" "validators_of E (get_storage E s') (put_validator v vs)"
    "\<And>k. k \<noteq> head_key \<Longrightarrow> k \<notin> map_key E ` set (v # vs) \<Longrightarrow> get_storage E s' k = get_storage E s k"
    using set_item_refines [OF assms] by metis
  have keys: "map_key E ` set (put_validator v vs) = map_key E ` set (v # vs)"
    unfolding map_key_image by (simp add: put_validator_addresses)
  have "load_account E s' a = load_account E s a" if "address_wf a" for a
    by (rule load_account_frame [OF assms(1) validators_ofD(2) [OF s'(2)] that]) (unfold keys, rule s'(3))
  then show ?thesis
    using s'(1,2) reg.get_put [OF assms s'(1)] reg.all_law [OF assms(1) s'(2)] by simp
qed

text \<open>
  C8. \<^verbatim>\<open>Staking::delete\<close> takes the validator out of the list, wherever it stands, and keeps the order
  of the others and every account; deleting an address that is not there changes nothing.
\<close>

theorem delete_list:
  assumes "staking_ok E" "validators_of E (get_storage E s) vs" "address_wf a"
  shows "\<exists>s'. staking_delete E s a = Some s' \<and> validators_of E (get_storage E s') (remove_validator a vs) \<and>
    validator_set E s' = Some (Some (remove_validator a vs)) \<and>
    (\<forall>b. address_wf b \<longrightarrow>
      get_validator E s' b = (if b = a then Some None else get_validator E s b) \<and>
      load_account E s' b = load_account E s b)"
proof -
  obtain s' where s': "staking_delete E s a = Some s'" "validators_of E (get_storage E s') (remove_validator a vs)"
    "\<And>k. k \<noteq> head_key \<Longrightarrow> k \<notin> map_key E ` set vs \<Longrightarrow> get_storage E s' k = get_storage E s k"
    using staking_delete_refines [OF assms] by metis
  have "load_account E s' b = load_account E s b" if "address_wf b" for b
    by (rule load_account_frame [OF assms(1) validators_ofD(2) [OF assms(2)] that s'(3)])
  then show ?thesis
    using s'(1,2) reg.get_del [OF assms s'(1)] reg.all_law [OF assms(1) s'(2)] by simp
qed

lemma lock_balance_validators:
  assumes "staking_ok E" "validators_of E (get_storage E s) vs" "address_wf a" "lock_balance E s a v = Some s'"
  shows "validators_of E (get_storage E s') vs"
proof -
  from assms(4) have "\<exists>x. s' = set_account E s a x"
    by (auto simp: lock_balance_def split: bind_splits)
  then show ?thesis using validators_of_set_account [OF assms(1-3)] by auto
qed

definition new_validator :: "address \<Rightarrow> bytes \<Rightarrow> u128 \<Rightarrow> validator" where
  "new_validator a pk amount =
    (validator_create a)\<lparr>val_pubkey := pk, val_balance := amount, val_effective_balance := amount\<rparr>"

text \<open>
  C12. \<^verbatim>\<open>Staking::validate\<close> for an address that is not a validator and has the amount: the validator
  is put at the front of the list with that stake, and the amount moves from the balance to the locked
  balance of the account; nothing else changes.
\<close>

theorem validate_new:
  assumes "staking_ok E" "balance_ok E" "validators_of E (get_storage E s) vs" "ledger_of E s L"
    and "address_wf a" "a \<notin> val_address ` set vs"
    and "amount \<le> a_balance (L a)" "unat (a_locked_balance (L a)) + unat amount < 2 ^ 128"
  shows "\<exists>s'. validate E s a pk amount = Some s' \<and>
    validators_of E (get_storage E s') (new_validator a pk amount # vs) \<and> ledger_of E s' (lock a amount L)"
proof -
  let ?v = "new_validator a pk amount"
  have va: "val_address ?v = a" by (simp add: new_validator_def validator_create_def)
  obtain s1 where s1: "staking_insert E s ?v = Some s1" "validators_of E (get_storage E s1) (?v # vs)"
    "\<And>k. k \<noteq> head_key \<Longrightarrow> k \<notin> map_key E ` set (?v # vs) \<Longrightarrow> get_storage E s1 k = get_storage E s k"
    using staking_insert_refines [OF assms(1,3), of ?v] assms(5,6) unfolding va by metis
  note L1 = ledger_of_frame [OF assms(1) validators_ofD(2) [OF s1(2)] assms(4) s1(3)]
  obtain s2 where s2: "lock_balance E s1 a amount = Some s2" "ledger_of E s2 (lock a amount L)"
    using lock_balance_ledger [OF assms(2) L1 assms(5,7,8)] by metis
  have "validators_of E (get_storage E s2) (?v # vs)"
    using lock_balance_validators [OF assms(1) s1(2) assms(5) s2(1)] .
  moreover have "get_validator E s a = Some None"
    using get_validator_refines [OF assms(1,3,5)] find_validator_None assms(6) by metis
  ultimately show ?thesis
    using s1(1) s2 by (simp add: validate_def new_validator_def validator_create_def)
qed

text \<open>
  C13. \<^verbatim>\<open>Staking::deposit\<close> by a validator that has the amount appends a queue entry of height 0, adds the
  amount to its stake and locks it in the account; the position in the list and everything else stay.
\<close>

theorem deposit_existing:
  assumes "staking_ok E" "balance_ok E" "validators_of E (get_storage E s) vs" "ledger_of E s L"
    and "address_wf a" "find_validator a vs = Some v" "unat (val_balance v) + unat amount < 2 ^ 128"
    and "amount \<le> a_balance (L a)" "unat (a_locked_balance (L a)) + unat amount < 2 ^ 128"
  shows "\<exists>s'. deposit E s a amount = Some s' \<and> ledger_of E s' (lock a amount L) \<and>
    validators_of E (get_storage E s') (put_validator
      (v\<lparr>val_deposit_queue := val_deposit_queue v @ [\<lparr>lb_amount = amount, lb_height = 0\<rparr>],
         val_balance := val_balance v + amount\<rparr>) vs)"
proof -
  let ?v = "v\<lparr>val_deposit_queue := val_deposit_queue v @ [\<lparr>lb_amount = amount, lb_height = 0\<rparr>],
         val_balance := val_balance v + amount\<rparr>"
  have va: "val_address ?v = a" "v \<in> set vs"
    using assms(6) by (auto simp: find_validator_def find_Some_iff)
  obtain s1 where s1: "set_item E s ?v = Some s1" "validators_of E (get_storage E s1) (put_validator ?v vs)"
    "\<And>k. k \<noteq> head_key \<Longrightarrow> k \<notin> map_key E ` set (?v # vs) \<Longrightarrow> get_storage E s1 k = get_storage E s k"
    using set_item_refines [OF assms(1,3), of ?v] assms(5) unfolding va by metis
  have "map_key E ` set (?v # vs) = map_key E ` set vs"
    using va by (auto simp: map_key_index image_iff)
  from ledger_of_frame [OF assms(1) validators_ofD(2) [OF assms(3)] assms(4) s1(3) [unfolded this]]
  have L1: "ledger_of E s1 L" .
  obtain s2 where s2: "lock_balance E s1 a amount = Some s2" "ledger_of E s2 (lock a amount L)"
    using lock_balance_ledger [OF assms(2) L1 assms(5,8,9)] by metis
  show ?thesis
    using s1(1) s2 lock_balance_validators [OF assms(1) s1(2) assms(5) s2(1)]
      get_validator_refines [OF assms(1,3,5)] assms(6,7)
    by (simp add: deposit_def uadd_exact)
qed

section \<open>activate\_deposit does not return\<close>

lemma activate_loop_stuck:
  assumes "activate_loop oc q off e = Some r" "off < length q" "lb_height (q ! off) = 0"
  shows "oc \<and> lb_amount (q ! off) \<noteq> 0 \<and> r = None"
proof -
  let ?P = "\<lambda>oc q off e r. off < length q \<and> lb_height (q ! off) = 0 \<longrightarrow> oc \<and> lb_amount (q ! off) \<noteq> 0 \<and> r = None"
  have "?P oc q off e r"
  proof (rule activate_loop.raw_induct [where P = ?P, OF _ assms(1)], intro impI, elim conjE)
    fix loop oc q off e r
    assume IH: "\<And>oc q off e r. loop oc q off e = Some r \<Longrightarrow> ?P oc q off e r"
      and step: "(if off < length q then if 0 < lb_height (q ! off) then Some (Some e)
           else case uadd oc e (lb_amount (q ! off)) of None \<Rightarrow> Some None | Some e' \<Rightarrow> loop oc q off e'
         else Some (Some e)) = Some r"
      and A: "off < length q" "lb_height (q ! off) = 0"
    show "oc \<and> lb_amount (q ! off) \<noteq> 0 \<and> r = None"
    proof (cases "uadd oc e (lb_amount (q ! off))")
      case None
      then show ?thesis using step A unat_bound [of e] by (auto simp: uadd_def split: if_splits)
    next
      case (Some e')
      then have "loop oc q off e' = Some r" using step A by simp
      from IH [OF this] A show ?thesis by simp
    qed
  qed
  with assms(2,3) show ?thesis by simp
qed

lemma activate_loop_panics:
  "\<lbrakk>off < length q; lb_height (q ! off) = 0; lb_amount (q ! off) \<noteq> 0\<rbrakk> \<Longrightarrow> activate_loop True q off e = Some None"
proof (induction "2 ^ 128 - unat e" arbitrary: e rule: less_induct)
  case less
  let ?d = "lb_amount (q ! off)"
  show ?case
  proof (cases "uadd True e ?d")
    case None
    then show ?thesis using less.prems by (subst activate_loop.simps) simp
  next
    case (Some e')
    have "unat e' = unat e + unat ?d" "0 < unat ?d" "unat e' < 2 ^ 128"
      using uadd_checked_SomeD(1) [OF Some] less.prems(3) unat_bound [of e']
      by (simp_all add: unat_gt_0)
    then have "activate_loop True q off e' = Some None"
      by (intro less.hyps less.prems) auto
    then show ?thesis using less.prems Some by (subst activate_loop.simps) simp
  qed
qed

text \<open>
  C21. \<^verbatim>\<open>Staking::activate_deposit\<close> on a validator whose first queued deposit has height 0, which is the
  only height \<^verbatim>\<open>deposit\<close> queues, never succeeds: it panics when overflow checks are on and the amount
  is not zero, and otherwise runs forever.
\<close>

theorem activate_deposit_stuck:
  assumes "get_validator E s a = Some (Some v)" "val_deposit_queue v = q # qs" "lb_height q = 0"
  shows "activate_deposit E s a = (if overflow_checks E \<and> lb_amount q \<noteq> 0 then Some None else None)"
proof (cases "overflow_checks E \<and> lb_amount q \<noteq> 0")
  case True
  then show ?thesis
    using assms activate_loop_panics [of 0 "q # qs" "val_effective_balance v"] by (simp add: activate_deposit_def)
next
  case False
  then have "activate_loop (overflow_checks E) (q # qs) 0 (val_effective_balance v) = None"
    using activate_loop_stuck [of "overflow_checks E" "q # qs" 0 "val_effective_balance v"] assms(3)
    by (cases "activate_loop (overflow_checks E) (q # qs) 0 (val_effective_balance v)") auto
  then show ?thesis using False assms by (simp add: activate_deposit_def)
qed

end
