(* ===== verification/Runtime.thy ===== *)
theory Runtime
  imports Staking
begin

text \<open>
  The message interpreter (src/core/src/runtime.rs), which dispatches a call message of the form
  \<^verbatim>\<open>module.function\<close>, and the genesis block and state (src/core/src/genesis.rs).
\<close>

section \<open>Interpreter\<close>

definition bstr :: "string \<Rightarrow> bytes" where
  "bstr s = map of_char s"

text \<open>\<^verbatim>\<open>Iterator::position\<close>.\<close>

fun position :: "('a \<Rightarrow> bool) \<Rightarrow> 'a list \<Rightarrow> nat option" where
  "position P [] = None"
| "position P (x # xs) = (if P x then Some 0 else map_option Suc (position P xs))"

text \<open>\<^verbatim>\<open>slice::split_at\<close>, which panics beyond the end.\<close>

definition split_at :: "nat \<Rightarrow> 'a list \<Rightarrow> ('a list \<times> 'a list) option" where
  "split_at n xs = (if n \<le> length xs then Some (take n xs, drop n xs) else None)"

definition call ::
  "('kv, 'm, 't, 'z) staking_env_scheme \<Rightarrow> ('kv, 'm) state_db \<Rightarrow> address \<Rightarrow> bytes \<Rightarrow> bytes
     \<Rightarrow> ('kv, 'm) state_db option" where
  "call E s caller msg input =
    (case position (\<lambda>x. x = of_char (CHR ''.'')) msg of
       None \<Rightarrow> Some s
     | Some sep \<Rightarrow> do {
         (module, func) \<leftarrow> split_at sep msg;
         (if module = bstr ''balance''
          then (if func = bstr ''transfer'' then exec_transfer E s caller input else Some s)
          else if module = bstr ''staking''
          then (if func = bstr ''validate'' then exec_validate E s caller input
                else if func = bstr ''deposit'' then exec_deposit E s caller input
                else Some s)
          else Some s) })"

lemma position_SomeD: "position P xs = Some n \<Longrightarrow> n < length xs \<and> P (xs ! n)"
  by (induction xs arbitrary: n) (auto split: if_splits)

text \<open>
  C22. \<^verbatim>\<open>Interpreter::call\<close> changes nothing, whatever the message: \<^verbatim>\<open>split_at\<close> leaves the separator in
  the function name, which then matches none of the names, so that no transfer, validation or deposit
  is ever dispatched.
\<close>

theorem call_never_dispatches: "call E s caller msg input = Some s"
proof (cases "position (\<lambda>x. x = of_char (CHR ''.'')) msg")
  case None
  then show ?thesis by (simp add: call_def)
next
  case (Some sep)
  from position_SomeD [OF this] have "sep < length msg" "msg ! sep = of_char (CHR ''.'')" by auto
  then obtain rest where "drop sep msg = of_char (CHR ''.'') # rest"
    by (metis Cons_nth_drop_Suc)
  then show ?thesis
    using \<open>sep < length msg\<close> unfolding call_def Some by (simp add: split_at_def bstr_def)
qed

section \<open>Genesis\<close>

definition ed_genesis_priv_key :: bytes where
  "ed_genesis_priv_key =
    [249, 203, 126, 161, 115, 132, 10, 235, 164, 252, 129, 70, 116, 52, 100, 205, 174, 62, 85,
     39, 65, 72, 114, 21, 95, 227, 49, 189, 42, 52, 84, 162]"

definition ed_genesis_pub_key :: bytes where
  "ed_genesis_pub_key =
    [243, 168, 124, 46, 165, 43, 188, 124, 215, 100, 221, 215, 249, 71, 217, 60, 226, 13, 9,
     72, 114, 24, 80, 73, 118, 31, 251, 38, 82, 192, 147, 7]"

definition GENESIS_TIME :: u64 where
  "GENESIS_TIME = 1597916633"

definition ALLOCATION :: "(string \<times> u128) list" where
  "ALLOCATION = [(''0xd2480451ef35ff2fdd7c69cad058719b9dc4d631'', 1000000000000000000)]"

definition VALIDATORS :: "(string \<times> string \<times> u128) list" where
  "VALIDATORS =
    [(''0xd2480451ef35ff2fdd7c69cad058719b9dc4d631'',
      ''0xf3a87c2ea52bbc7cd764ddd7f947d93ce20d094872185049761ffb2652c09307'', 0)]"

definition to_genesis :: "('kv, 'm, 't, 'z) block_env_scheme \<Rightarrow> block" where
  "to_genesis E =
    (let b = block_default;
         h = (b_header b)\<lparr>h_height := 0, h_time := GENESIS_TIME, h_parent_hash := Hash (replicate 32 0)\<rparr>;
         proofs = b_proofs b @ [BlockProof ed_genesis_pub_key (replicate 32 0) 0];
         h' = h\<lparr>h_tx_root := get_hash_from_txs E (b_txs b), h_sign_root := get_hash_from_signs E (b_signs b)\<rparr>
     in b\<lparr>b_header := h', b_proofs := proofs\<rparr>)"

fun allocate ::
  "('kv, 'm, 't, 'z) balance_env_scheme \<Rightarrow> ('kv, 'm) state_db \<Rightarrow> (string \<times> u128) list \<Rightarrow> ('kv, 'm) state_db option" where
  "allocate E s [] = Some s"
| "allocate E s ((addr, v) # rest) =
    do { r \<leftarrow> address_from_hex E addr; a \<leftarrow> unwrap_ok r;
         s1 \<leftarrow> add_balance E s a v;
         allocate E s1 rest }"

fun insert_validators ::
  "('kv, 'm, 't, 'z) staking_env_scheme \<Rightarrow> ('kv, 'm) state_db \<Rightarrow> (string \<times> string \<times> u128) list
     \<Rightarrow> ('kv, 'm) state_db option" where
  "insert_validators E s [] = Some s"
| "insert_validators E s ((addr, pk, v) # rest) =
    do { r \<leftarrow> address_from_hex E addr; a \<leftarrow> unwrap_ok r;
         p \<leftarrow> pubkey_from_hex E pk;
         s1 \<leftarrow> staking_insert E s
           \<lparr>val_address = a, val_pubkey = pubkey_to_bytes p, val_balance = 0, val_effective_balance = v,
            val_activate_height = 0, val_exit_height = 0, val_deposit_queue = [], val_unlocked_queue = []\<rparr>;
         insert_validators E s1 rest }"

definition setup_allocation ::
  "('kv, 'm, 't, 'z) staking_env_scheme \<Rightarrow> ('kv, 'm) state_db \<Rightarrow> (('kv, 'm) state_db \<times> hash) option" where
  "setup_allocation E s =
    do { s1 \<leftarrow> allocate E s ALLOCATION;
         (s2, _) \<leftarrow> balance_commit E s1;
         s3 \<leftarrow> insert_validators E s2 (rev VALIDATORS);
         s4 \<leftarrow> state_commit E s3;
         Some (s4, state_root s4) }"

text \<open>What the code relies on: the hex crate decodes lower case digits.\<close>

definition hex_lower_ok :: "'z crates_scheme \<Rightarrow> bool" where
  "hex_lower_ok E \<longleftrightarrow> (\<forall>bs. hex_decode E (concat (map hex_byte bs)) = Inr bs)"

definition genesis_address :: address where
  "genesis_address = Address
    [0xd2, 0x48, 0x04, 0x51, 0xef, 0x35, 0xff, 0x2f, 0xdd, 0x7c, 0x69, 0xca, 0xd0, 0x58, 0x71, 0x9b, 0x9d, 0xc4, 0xd6, 0x31]"

definition genesis_validator :: validator where
  "genesis_validator = (validator_create genesis_address)\<lparr>val_pubkey := ed_genesis_pub_key\<rparr>"

lemma genesis_hex:
  assumes "hex_lower_ok E"
  shows "address_from_hex E ''0xd2480451ef35ff2fdd7c69cad058719b9dc4d631'' = Some (Inr genesis_address)"
    and "pubkey_from_hex E ''0xf3a87c2ea52bbc7cd764ddd7f947d93ce20d094872185049761ffb2652c09307'' =
      Some \<lparr>pub_inner = H256 ed_genesis_pub_key\<rparr>"
proof -
  have "''d2480451ef35ff2fdd7c69cad058719b9dc4d631'' = concat (map hex_byte (as_slice genesis_address))"
    "''f3a87c2ea52bbc7cd764ddd7f947d93ce20d094872185049761ffb2652c09307'' = concat (map hex_byte ed_genesis_pub_key)"
    by code_simp+
  then have "hex_decode E ''d2480451ef35ff2fdd7c69cad058719b9dc4d631'' = Inr (as_slice genesis_address)"
    "hex_decode E ''f3a87c2ea52bbc7cd764ddd7f947d93ce20d094872185049761ffb2652c09307'' = Inr ed_genesis_pub_key"
    using assms unfolding hex_lower_ok_def by metis+
  then show "address_from_hex E ''0xd2480451ef35ff2fdd7c69cad058719b9dc4d631'' = Some (Inr genesis_address)"
    "pubkey_from_hex E ''0xf3a87c2ea52bbc7cd764ddd7f947d93ce20d094872185049761ffb2652c09307'' =
      Some \<lparr>pub_inner = H256 ed_genesis_pub_key\<rparr>"
    by (simp_all add: address_from_hex_def pubkey_from_hex_def strip_0x_def copy_from_slice_def
        genesis_address_def ed_genesis_pub_key_def)
qed

lemma genesis_address_wf: "address_wf genesis_address"
  by (simp add: genesis_address_def address_wf_def)

lemma ledger_of_get: "\<lbrakk>\<And>k. get_storage E s' k = get_storage E s k; ledger_of E s L\<rbrakk> \<Longrightarrow> ledger_of E s' L"
  by (simp add: ledger_of_def load_account_def)

lemma validators_of_get:
  assumes "\<And>k. get_storage E s' k = get_storage E s k" "validators_of E (get_storage E s) vs"
  shows "validators_of E (get_storage E s') vs"
proof -
  have "get_storage E s' = get_storage E s" using assms(1) by blast
  with assms(2) show ?thesis by simp
qed

lemma staking_insert_state_ok: "state_ok E G s f \<Longrightarrow> staking_insert E s v = Some s' \<Longrightarrow> state_ok E G s' f"
  by (auto simp: staking_insert_def Let_def split: bind_splits option.splits)

lemma setup_allocation_ok:
  assumes "storage_ok E G" "state_ok E G s Map.empty" "local_changes s = []"
    and "staking_ok E" "balance_ok E" "hex_lower_ok E"
  shows "\<exists>s' f. setup_allocation E s = Some (s', state_root s') \<and> state_ok E G s' f \<and>
    ledger_of E s' ((\<lambda>_. account_default)(genesis_address := account_default\<lparr>a_balance := 1000000000000000000\<rparr>)) \<and>
    validators_of E (get_storage E s') [genesis_validator]"
proof -
  let ?L = "\<lambda>_. account_default"
  let ?L' = "?L(genesis_address := account_default\<lparr>a_balance := 1000000000000000000\<rparr>)"
  have get: "get_storage E s k = Some None" for k
    using state_ok_get_storage [OF assms(2)] assms(3) by simp
  have L: "ledger_of E s ?L" by (simp add: ledger_of_def load_account_def get)
  obtain s1 where s1: "add_balance E s genesis_address 1000000000000000000 = Some s1" "ledger_of E s1 ?L'"
    using add_balance_ledger [OF assms(5) L genesis_address_wf, of 1000000000000000000]
    by (auto simp: credit_def account_default_def)
  have V1: "validators_of E (get_storage E s1) []"
  proof -
    have "validators_of E (get_storage E s) []" by (simp add: validators_of_def vals_wf_def get)
    moreover from s1(1) have "\<exists>x. s1 = set_account E s genesis_address x"
      by (auto simp: add_balance_def split: bind_splits)
    ultimately show ?thesis using validators_of_set_account [OF assms(4) _ genesis_address_wf] by auto
  qed
  have ok1: "state_ok E G s1 Map.empty"
    using s1(1) assms(2) by (auto simp: add_balance_def set_account_def split: bind_splits)
  obtain s2 f2 where s2: "state_commit E s1 = Some s2" "state_ok E G s2 f2" "\<And>k. get_storage E s2 k = get_storage E s1 k"
    using state_commit_get [OF assms(1) ok1] by metis
  have va: "val_address genesis_validator = genesis_address"
    by (simp add: genesis_validator_def validator_create_def)
  obtain s3 where s3: "staking_insert E s2 genesis_validator = Some s3" "validators_of E (get_storage E s3) [genesis_validator]"
    "\<And>k. k \<noteq> head_key \<Longrightarrow> k \<notin> map_key E ` set [genesis_validator] \<Longrightarrow> get_storage E s3 k = get_storage E s2 k"
    using staking_insert_refines [OF assms(4) validators_of_get [OF s2(3) V1], of genesis_validator] genesis_address_wf
    unfolding va by auto
  have L3: "ledger_of E s3 ?L'"
    using ledger_of_frame [OF assms(4) validators_ofD(2) [OF s3(2)] ledger_of_get [OF s2(3) s1(2)] s3(3)] by blast
  obtain s4 f4 where s4: "state_commit E s3 = Some s4" "state_ok E G s4 f4" "\<And>k. get_storage E s4 k = get_storage E s3 k"
    using state_commit_get [OF assms(1) staking_insert_state_ok [OF s2(2) s3(1)]] by metis
  have "setup_allocation E s = Some (s4, state_root s4)"
    using s1(1) s2(1) s3(1) s4(1)
    by (simp add: setup_allocation_def ALLOCATION_def VALIDATORS_def genesis_hex [OF assms(6)] balance_commit_def
        genesis_validator_def validator_create_def pubkey_to_bytes_def)
  with s4(2) ledger_of_get [OF s4(3) L3] validators_of_get [OF s4(3) s3(2)] show ?thesis by blast
qed


end
