(* ===== verification/Executor.thy ===== *)
theory Executor
  imports Runtime
begin

text \<open>
  The executor (src/executor/src/lib.rs): it applies the transactions of a block to the balance
  module. The state is returned also with an error, since \<^verbatim>\<open>Balance\<close> is a mutable reference.
\<close>

definition transfer_fee :: u128 where
  "transfer_fee = 10000"

definition verify_tx_sign :: "('kv, 'm, 't, 'z) tx_env_scheme \<Rightarrow> transaction \<Rightarrow> (error + unit) option" where
  "verify_tx_sign E tx = verify_sign E tx"

definition exc_transfer_tx ::
  "('kv, 'm, 't, 'z) balance_env_scheme \<Rightarrow> transaction \<Rightarrow> ('kv, 'm) state_db
     \<Rightarrow> ((error + hash) \<times> ('kv, 'm) state_db) option" where
  "exc_transfer_tx E tx s =
    (let from_addr = get_from_address tx
     in do {
       to_addr \<leftarrow> get_to_address E tx;
       sig \<leftarrow> verify_tx_sign E tx;
       (case sig of
          Inl e \<Rightarrow> Some (Inl e, s)
        | Inr _ \<Rightarrow> do {
            from_account \<leftarrow> get_account E s from_addr;
            n \<leftarrow> uadd (overflow_checks E) (a_nonce from_account) 1;
            (if get_nonce tx \<noteq> n then Some (Inl (internal_into InvalidTxNonce), s)
             else do {
               v \<leftarrow> get_value E tx;
               need \<leftarrow> uadd (overflow_checks E) v transfer_fee;
               (if need > a_balance from_account then Some (Inl (internal_into BalanceNotEnough), s)
                else do {
                  s1 \<leftarrow> sub_balance E s from_addr transfer_fee;
                  s2 \<leftarrow> inc_nonce E s1 from_addr;
                  v' \<leftarrow> get_value E tx;
                  s3 \<leftarrow> transfer E s2 from_addr to_addr v';
                  Some (Inr hash_default, s3) }) }) }) })"

fun exc_txs ::
  "('kv, 'm, 't, 'z) balance_env_scheme \<Rightarrow> transaction list \<Rightarrow> ('kv, 'm) state_db \<Rightarrow> address
     \<Rightarrow> ((error + unit) \<times> ('kv, 'm) state_db) option" where
  "exc_txs E [] s miner = Some (Inr (), s)"
| "exc_txs E (tx # txs) s miner =
    do { (r, s1) \<leftarrow> exc_transfer_tx E tx s;
         (case r of
            Inl e \<Rightarrow> Some (Inl e, s1)
          | Inr _ \<Rightarrow> do { s2 \<leftarrow> add_balance E s1 miner transfer_fee; exc_txs E txs s2 miner }) }"

definition exc_txs_in_block ::
  "('kv, 'm, 't, 'z) balance_env_scheme \<Rightarrow> block \<Rightarrow> ('kv, 'm) state_db \<Rightarrow> address
     \<Rightarrow> ((error + hash) \<times> ('kv, 'm) state_db) option" where
  "exc_txs_in_block E b s miner =
    do { (r, s1) \<leftarrow> exc_txs E (get_txs b) s miner;
         (case r of
            Inl e \<Rightarrow> Some (Inl e, s1)
          | Inr _ \<Rightarrow> do { (s2, root) \<leftarrow> balance_commit E s1; Some (Inr root, s2) }) }"

definition exc_contract_tx :: "error + unit" where
  "exc_contract_tx = Inr ()"

section \<open>One transaction\<close>

lemma exc_transfer_tx_InlD: "exc_transfer_tx E tx s = Some (Inl e, s') \<Longrightarrow> s' = s"
  by (auto simp: exc_transfer_tx_def Let_def split: bind_splits sum.splits if_splits)

lemma exc_transfer_tx_InrE:
  assumes "exc_transfer_tx E tx s = Some (Inr h, s')"
  obtains msg acc need s1 s2 where
    "de (transfer_codec E) (tx_data tx) = Some msg" "verify_sign E tx = Some (Inr ())"
    "load_account E s (tx_sender tx) = Some acc"
    "uadd (overflow_checks E) (a_nonce acc) 1 = Some (tx_nonce tx)"
    "uadd (overflow_checks E) (mt_value msg) transfer_fee = Some need" "need \<le> a_balance acc"
    "sub_balance E s (tx_sender tx) transfer_fee = Some s1" "inc_nonce E s1 (tx_sender tx) = Some s2"
    "transfer E s2 (tx_sender tx) (mt_receiver msg) (mt_value msg) = Some s'"
  using assms
  by (auto simp: exc_transfer_tx_def Let_def get_to_address_def get_value_def get_from_address_def get_nonce_def
      get_account_def verify_tx_sign_def not_less split: bind_splits sum.splits if_splits)

text \<open>What an accepted transaction does to the ledger: the fee leaves the sender, whose nonce grows, and
  the value moves to the receiver.\<close>

definition paid :: "address \<Rightarrow> address \<Rightarrow> u128 \<Rightarrow> (address \<Rightarrow> account) \<Rightarrow> address \<Rightarrow> account" where
  "paid f t v L = credit t v (debit f v (next_nonce f (debit f transfer_fee L)))"

lemma debit_next_nonce_sel [simp]:
  "a_balance (debit a v L b) = (if b = a then a_balance (L a) - v else a_balance (L b))"
  "a_nonce (debit a v L b) = a_nonce (L b)"
  "a_locked_balance (debit a v L b) = a_locked_balance (L b)"
  "a_balance (next_nonce a L b) = a_balance (L b)"
  "a_nonce (next_nonce a L b) = (if b = a then a_nonce (L a) + 1 else a_nonce (L b))"
  "a_locked_balance (next_nonce a L b) = a_locked_balance (L b)"
  "a_balance (credit a v L b) = (if b = a then a_balance (L a) + v else a_balance (L b))"
  "a_nonce (credit a v L b) = a_nonce (L b)"
  "a_locked_balance (credit a v L b) = a_locked_balance (L b)"
  by (auto simp: debit_def next_nonce_def credit_def)

text \<open>The guard of the executor leaves enough for the value once the fee is gone.\<close>

lemma fee_then_value:
  fixes v b :: u128
  assumes "unat v + unat transfer_fee < 2 ^ 128" "v + transfer_fee \<le> b"
  shows "transfer_fee \<le> b" "v \<le> b - transfer_fee" "unat v + unat transfer_fee \<le> unat b"
proof -
  show le: "unat v + unat transfer_fee \<le> unat b"
    using assms by (simp add: word_le_nat_alt unat_add_exact)
  then show fee: "transfer_fee \<le> b" by (simp add: word_le_nat_alt)
  then show "v \<le> b - transfer_fee"
    using le by (simp add: word_le_nat_alt unat_sub_exact)
qed

lemma paid_move:
  assumes "unat v + unat transfer_fee < 2 ^ 128" "v + transfer_fee \<le> a_balance (L f)"
  shows "move f t v (next_nonce f (debit f transfer_fee L)) = paid f t v L"
  using fee_then_value [OF assms] by (simp add: move_def paid_def)

lemma exc_transfer_tx_paid:
  assumes ok: "balance_ok E" "ledger_of E s L"
    and wf: "address_wf (tx_sender tx)" "address_wf (mt_receiver msg)"
    and A: "finite A" "tx_sender tx \<in> A" "mt_receiver msg \<in> A" "total_supply A L < 2 ^ 128"
    and dec: "de (transfer_codec E) (tx_data tx) = Some msg" and sig: "verify_sign E tx = Some (Inr ())"
    and n: "unat (a_nonce (L (tx_sender tx))) + 1 < 2 ^ 64" "tx_nonce tx = a_nonce (L (tx_sender tx)) + 1"
    and v: "unat (mt_value msg) + unat transfer_fee < 2 ^ 128"
      "mt_value msg + transfer_fee \<le> a_balance (L (tx_sender tx))"
  obtains s' where "exc_transfer_tx E tx s = Some (Inr hash_default, s')"
    "ledger_of E s' (paid (tx_sender tx) (mt_receiver msg) (mt_value msg) L)"
proof -
  let ?f = "tx_sender tx" and ?t = "mt_receiver msg" and ?v = "mt_value msg"
  note fee = fee_then_value [OF v]
  obtain s1 where s1: "sub_balance E s ?f transfer_fee = Some s1" "ledger_of E s1 (debit ?f transfer_fee L)"
    using sub_balance_ledger [OF ok wf(1) fee(1)] .
  obtain s2 where s2: "inc_nonce E s1 ?f = Some s2" "ledger_of E s2 (next_nonce ?f (debit ?f transfer_fee L))"
    using inc_nonce_ledger [OF ok(1) s1(2) wf(1)] n(1) by auto
  have "total_supply A (next_nonce ?f (debit ?f transfer_fee L)) < 2 ^ 128"
    using supply_debit [where L = L, OF A(1,2) fee(1)] A(4) by simp
  from transfer_ledger [OF ok(1) s2(2) wf A(1-3) this] obtain s3
    where s3: "transfer E s2 ?f ?t ?v = Some s3" "ledger_of E s3 (move ?f ?t ?v (next_nonce ?f (debit ?f transfer_fee L)))" .
  show thesis
  proof (rule that)
    show "exc_transfer_tx E tx s = Some (Inr hash_default, s3)"
      using dec sig ok(2) wf(1) n v s1(1) s2(1) s3(1)
      by (simp add: exc_transfer_tx_def get_to_address_def get_value_def get_from_address_def get_nonce_def
          get_account_def verify_tx_sign_def ledger_ofD uadd_exact not_less Let_def)
  qed (use s3(2) paid_move [where L = L, OF v] in simp)
qed

lemma supply_paid:
  assumes "finite A" "f \<in> A" "t \<in> A" "total_supply A L < 2 ^ 128"
    and v: "unat v + unat transfer_fee < 2 ^ 128" "v + transfer_fee \<le> a_balance (L f)"
  shows "total_supply A (paid f t v L) + unat transfer_fee = total_supply A L"
proof -
  note fee = fee_then_value [OF v]
  have "total_supply A (next_nonce f (debit f transfer_fee L)) < 2 ^ 128"
    using supply_debit [where L = L, OF assms(1,2) fee(1)] assms(4) by simp
  from supply_move [OF assms(1-3) this, of v] show ?thesis
    using supply_debit [where L = L, OF assms(1,2) fee(1)] paid_move [where L = L, OF v] by simp
qed

text \<open>
  C4. \<^verbatim>\<open>Executor::exc_transfer_tx\<close> on every branch: an invalid signature, a nonce that is not the next
  one and an insufficient balance are errors that leave the state alone, in this order; otherwise the
  fee and the value leave the sender, the value reaches the receiver, the nonce grows by one, and the
  supply shrinks by exactly the fee.
\<close>

theorem exc_transfer_tx_spec:
  assumes "balance_ok E" "ledger_of E s L" "address_wf (tx_sender tx)" "address_wf (mt_receiver msg)"
    and "finite A" "tx_sender tx \<in> A" "mt_receiver msg \<in> A" "total_supply A L < 2 ^ 128"
    and "de (transfer_codec E) (tx_data tx) = Some msg"
    and "unat (a_nonce (L (tx_sender tx))) + 1 < 2 ^ 64" "unat (mt_value msg) + unat transfer_fee < 2 ^ 128"
  shows "(\<forall>e. verify_sign E tx = Some (Inl e) \<longrightarrow> exc_transfer_tx E tx s = Some (Inl e, s)) \<and>
    (verify_sign E tx = Some (Inr ()) \<longrightarrow>
      (if tx_nonce tx \<noteq> a_nonce (L (tx_sender tx)) + 1
       then exc_transfer_tx E tx s = Some (Inl (internal_into InvalidTxNonce), s)
       else if a_balance (L (tx_sender tx)) < mt_value msg + transfer_fee
       then exc_transfer_tx E tx s = Some (Inl (internal_into BalanceNotEnough), s)
       else (let L' = paid (tx_sender tx) (mt_receiver msg) (mt_value msg) L
             in (\<exists>s'. exc_transfer_tx E tx s = Some (Inr hash_default, s') \<and> ledger_of E s' L') \<and>
                total_supply A L' + unat transfer_fee = total_supply A L)))"
proof (intro conjI allI impI)
  fix e
  assume "verify_sign E tx = Some (Inl e)"
  then show "exc_transfer_tx E tx s = Some (Inl e, s)"
    by (simp add: exc_transfer_tx_def get_to_address_def assms(9) verify_tx_sign_def)
next
  assume sig: "verify_sign E tx = Some (Inr ())"
  let ?b = "a_balance (L (tx_sender tx))" and ?n = "a_nonce (L (tx_sender tx)) + 1"
  let ?L = "paid (tx_sender tx) (mt_receiver msg) (mt_value msg) L"
  have run: "exc_transfer_tx E tx s =
      (if tx_nonce tx \<noteq> ?n then Some (Inl (internal_into InvalidTxNonce), s)
       else if ?b < mt_value msg + transfer_fee then Some (Inl (internal_into BalanceNotEnough), s)
       else exc_transfer_tx E tx s)"
    using assms(2,3,9,10,11) sig
    by (simp add: exc_transfer_tx_def get_to_address_def get_value_def get_from_address_def
      get_nonce_def get_account_def verify_tx_sign_def ledger_ofD uadd_exact Let_def)
  have "(\<exists>s'. exc_transfer_tx E tx s = Some (Inr hash_default, s') \<and> ledger_of E s' ?L) \<and>
      total_supply A ?L + unat transfer_fee = total_supply A L"
    if "tx_nonce tx = ?n" "\<not> ?b < mt_value msg + transfer_fee"
  proof -
    from that(2) have v: "mt_value msg + transfer_fee \<le> ?b" by simp
    show ?thesis
      using exc_transfer_tx_paid [OF assms(1-9) sig assms(10) that(1) assms(11) v]
        supply_paid [where L = L, OF assms(5-8,11) v] by metis
  qed
  with run show "if tx_nonce tx \<noteq> ?n
       then exc_transfer_tx E tx s = Some (Inl (internal_into InvalidTxNonce), s)
       else if ?b < mt_value msg + transfer_fee
       then exc_transfer_tx E tx s = Some (Inl (internal_into BalanceNotEnough), s)
       else (let L' = ?L
             in (\<exists>s'. exc_transfer_tx E tx s = Some (Inr hash_default, s') \<and> ledger_of E s' L') \<and>
                total_supply A L' + unat transfer_fee = total_supply A L)"
    by (simp add: Let_def split: if_splits)
qed

section \<open>The transactions of a block\<close>

text \<open>The parties of a transaction are well-formed addresses of the set \<open>A\<close>.\<close>

definition tx_within :: "('kv, 'm, 't, 'z) balance_env_scheme \<Rightarrow> address set \<Rightarrow> transaction \<Rightarrow> bool" where
  "tx_within E A tx \<longleftrightarrow> address_wf (tx_sender tx) \<and> tx_sender tx \<in> A \<and>
    (case de (transfer_codec E) (tx_data tx) of
       None \<Rightarrow> True | Some msg \<Rightarrow> address_wf (mt_receiver msg) \<and> mt_receiver msg \<in> A)"

lemma exc_transfer_tx_conserves:
  assumes "overflow_checks E" "balance_ok E" "ledger_of E s L" "finite A" "tx_within E A tx" "total_supply A L < 2 ^ 128"
    and "exc_transfer_tx E tx s = Some (Inr h, s')"
  obtains L' where "ledger_of E s' L'" "total_supply A L' + unat transfer_fee = total_supply A L"
proof -
  obtain msg acc need where m: "de (transfer_codec E) (tx_data tx) = Some msg" "verify_sign E tx = Some (Inr ())"
    "load_account E s (tx_sender tx) = Some acc" "uadd True (a_nonce acc) 1 = Some (tx_nonce tx)"
    "uadd True (mt_value msg) transfer_fee = Some need" "need \<le> a_balance acc"
    using exc_transfer_tx_InrE [OF assms(7)] assms(1) by metis
  from assms(5) m(1) have P: "address_wf (tx_sender tx)" "tx_sender tx \<in> A" "address_wf (mt_receiver msg)" "mt_receiver msg \<in> A"
    by (auto simp: tx_within_def)
  have acc: "acc = L (tx_sender tx)" using m(3) ledger_ofD [OF assms(3) P(1)] by simp
  note n = uadd_checked_SomeD [OF m(4)] and v = uadd_checked_SomeD [OF m(5)]
  have n1: "unat (a_nonce (L (tx_sender tx))) + 1 < 2 ^ 64" using n(2) by (simp add: acc)
  have v1: "unat (mt_value msg) + unat transfer_fee < 2 ^ 128" using v(2) by simp
  have v2: "mt_value msg + transfer_fee \<le> a_balance (L (tx_sender tx))" using v(3) m(6) by (simp add: acc)
  from exc_transfer_tx_paid [OF assms(2,3) P(1,3) assms(4) P(2,4) assms(6) m(1,2) n1 n(3) [unfolded acc] v1 v2]
  have "ledger_of E s' (paid (tx_sender tx) (mt_receiver msg) (mt_value msg) L)"
    using assms(7) by auto
  with supply_paid [where L = L, OF assms(4) P(2,4) assms(6) v1 v2] show thesis by (rule that [rotated])
qed

lemma exc_txs_conserves:
  assumes "overflow_checks E" "balance_ok E" "finite A" "address_wf miner" "miner \<in> A"
    and "ledger_of E s L" "total_supply A L < 2 ^ 128" "\<forall>tx \<in> set txs. tx_within E A tx"
    and "exc_txs E txs s miner = Some (r, s')"
  shows "\<exists>L'. ledger_of E s' L' \<and> total_supply A L' = total_supply A L"
  using assms(6-9)
proof (induction txs arbitrary: s L)
  case Nil
  then show ?case by auto
next
  case (Cons tx txs)
  from Cons.prems(4) obtain r1 s1 where s1: "exc_transfer_tx E tx s = Some (r1, s1)"
    by (auto split: bind_splits)
  show ?case
  proof (cases r1)
    case (Inl e)
    with Cons.prems s1 show ?thesis
      by (auto dest: exc_transfer_tx_InlD)
  next
    case (Inr h)
    from Cons.prems(3) have "tx_within E A tx" by simp
    with exc_transfer_tx_conserves [OF assms(1,2) Cons.prems(1) assms(3) _ Cons.prems(2)] s1 Inr
    obtain L1 where L1: "ledger_of E s1 L1" "total_supply A L1 + unat transfer_fee = total_supply A L" by metis
    have b: "unat (a_balance (L1 miner)) + unat transfer_fee < 2 ^ 128"
      using balance_le_supply [OF assms(3,5), of L1] L1(2) Cons.prems(2) by simp
    obtain s2 where s2: "add_balance E s1 miner transfer_fee = Some s2" "ledger_of E s2 (credit miner transfer_fee L1)"
      using add_balance_ledger [OF assms(2) L1(1) assms(4) b] .
    have sup: "total_supply A (credit miner transfer_fee L1) = total_supply A L"
      using supply_credit [where L = L1, OF assms(3,5) b] L1(2) by simp
    show ?thesis
      using Cons.IH [OF s2(2)] Cons.prems(2-4) s1 Inr s2(1) sup by simp
  qed
qed

text \<open>The balance operations only write storage cells.\<close>

lemma balance_ops_state_ok:
  assumes "state_ok E G s f"
  shows "add_balance E s a v = Some s' \<Longrightarrow> state_ok E G s' f"
    and "sub_balance E s a v = Some s' \<Longrightarrow> state_ok E G s' f"
    and "inc_nonce E s a = Some s' \<Longrightarrow> state_ok E G s' f"
  using assms by (auto simp: add_balance_def sub_balance_def inc_nonce_def set_account_def split: bind_splits)

lemma transfer_state_ok: "state_ok E G s f \<Longrightarrow> transfer E s a b v = Some s' \<Longrightarrow> state_ok E G s' f"
  by (auto simp: transfer_def split: bind_splits if_splits intro: balance_ops_state_ok)

lemma exc_transfer_tx_state_ok:
  assumes "state_ok E G s f" "exc_transfer_tx E tx s = Some (r, s')"
  shows "state_ok E G s' f"
proof (cases r)
  case (Inl e)
  with assms show ?thesis by (auto dest: exc_transfer_tx_InlD)
next
  case (Inr h)
  with assms(2) exc_transfer_tx_InrE [of E tx s h s'] show ?thesis
    by (metis assms(1) balance_ops_state_ok(2,3) transfer_state_ok)
qed

lemma balance_ops_sdb:
  "add_balance E s a v = Some s' \<Longrightarrow> sdb s' = sdb s" "sub_balance E s a v = Some s' \<Longrightarrow> sdb s' = sdb s"
  "inc_nonce E s a = Some s' \<Longrightarrow> sdb s' = sdb s"
  by (auto simp: add_balance_def sub_balance_def inc_nonce_def set_account_def set_storage_def split: bind_splits)

lemma transfer_sdb: "transfer E s a b v = Some s' \<Longrightarrow> sdb s' = sdb s"
  by (auto simp: transfer_def split: bind_splits if_splits dest!: balance_ops_sdb)

lemma exc_transfer_tx_sdb: "exc_transfer_tx E tx s = Some (r, s') \<Longrightarrow> sdb s' = sdb s"
  by (auto simp: exc_transfer_tx_def Let_def split: bind_splits sum.splits if_splits dest!: balance_ops_sdb transfer_sdb)

lemma exc_txs_sdb: "exc_txs E txs s miner = Some (r, s') \<Longrightarrow> sdb s' = sdb s"
proof (induction txs arbitrary: s)
  case (Cons tx txs)
  obtain r1 s1 where s1: "exc_transfer_tx E tx s = Some (r1, s1)"
    using Cons.prems by (auto split: bind_splits)
  with exc_transfer_tx_sdb [OF s1] Cons show ?case
    by (cases r1) (auto split: bind_splits dest!: balance_ops_sdb)
qed simp

lemma exc_txs_state_ok:
  "state_ok E G s f \<Longrightarrow> exc_txs E txs s miner = Some (r, s') \<Longrightarrow> state_ok E G s' f"
proof (induction txs arbitrary: s)
  case (Cons tx txs)
  obtain r1 s1 where s1: "exc_transfer_tx E tx s = Some (r1, s1)"
    using Cons.prems(2) by (auto split: bind_splits)
  note ok1 = exc_transfer_tx_state_ok [OF Cons.prems(1) s1]
  show ?case
  proof (cases r1)
    case (Inr h)
    with Cons.prems(2) s1 obtain s2 where "add_balance E s1 miner transfer_fee = Some s2" "exc_txs E txs s2 miner = Some (r, s')"
      by (auto split: bind_splits)
    with Cons.IH balance_ops_state_ok(1) [OF ok1] show ?thesis by blast
  qed (use Cons.prems(2) s1 ok1 in simp)
qed simp

lemma exc_txs_in_block_commits:
  assumes "storage_ok E G" "state_ok E G s f" "exc_txs_in_block E b s miner = Some (Inr root, s')"
  obtains f' where "state_ok E G s' f'" "root = state_root s'" "extends (archive_get E (sdb s)) (archive_get E (sdb s'))"
proof -
  from assms(3) obtain u s1 where s1: "exc_txs E (b_txs b) s miner = Some (Inr u, s1)" "state_commit E s1 = Some s'" "root = state_root s'"
    by (auto simp: exc_txs_in_block_def get_txs_def balance_commit_def split: bind_splits sum.splits)
  obtain f' where "state_ok E G s' f'" "extends (archive_get E (sdb s1)) (archive_get E (sdb s'))"
    using state_commit_get [OF assms(1) exc_txs_state_ok [OF assms(2) s1(1)]] s1(2) by (metis option.inject)
  with s1(3) exc_txs_sdb [OF s1(1)] show thesis by (intro that) auto
qed


section \<open>Two ways to take money\<close>

text \<open>
  C19. The signature of a transaction is not tied to its sender: a transaction signed with any valid key
  whatsoever, sent in the name of an account whose next nonce it carries, is executed and pays out that
  account.
\<close>

theorem forged_sender_accepted:
  assumes "balance_ok E" "ledger_of E s L" "address_wf (tx_sender tx)" "address_wf (mt_receiver msg)"
    and "finite A" "tx_sender tx \<in> A" "mt_receiver msg \<in> A" "total_supply A L < 2 ^ 128"
    and "de (transfer_codec E) (tx_data tx) = Some msg"
    and "unat (a_nonce (L (tx_sender tx))) + 1 < 2 ^ 64" "tx_nonce tx = a_nonce (L (tx_sender tx)) + 1"
    and "unat (mt_value msg) + unat transfer_fee < 2 ^ 128"
      "mt_value msg + transfer_fee \<le> a_balance (L (tx_sender tx))"
    and "dalek_key_ok E sk"
  shows "\<exists>stx s'. tx_sign E tx sk = Some (Inr stx) \<and> exc_transfer_tx E stx s = Some (Inr hash_default, s') \<and>
    ledger_of E s' (paid (tx_sender tx) (mt_receiver msg) (mt_value msg) L)"
proof -
  obtain si where si: "tx_sign E tx sk = Some (Inr (set_sign_data tx si))"
      "verify_sign E (set_sign_data tx si) = Some (Inr ())"
    using tx_sign_ok [OF assms(14), of tx] by blast
  have sel: "tx_sender (set_sign_data tx si) = tx_sender tx" "tx_data (set_sign_data tx si) = tx_data tx"
    "tx_nonce (set_sign_data tx si) = tx_nonce tx" by (simp_all add: set_sign_data_def)
  show ?thesis
    using exc_transfer_tx_paid [of E s L "set_sign_data tx si" msg A, unfolded sel, OF assms(1-9) si(2) assms(10-13)]
      si(1) by blast
qed

text \<open>
  C20. In a build without overflow checks the sum of value and fee wraps around, and so does the balance:
  an account with less than the fee can send an amount near \<open>2 ^ 128\<close>, which the receiver then has.
\<close>

theorem unchecked_build_mints:
  assumes "balance_ok E" "ledger_of E s L" "address_wf (tx_sender tx)" "address_wf (mt_receiver msg)"
    and "\<not> overflow_checks E" "mt_receiver msg \<noteq> tx_sender tx"
    and "de (transfer_codec E) (tx_data tx) = Some msg" "verify_sign E tx = Some (Inr ())"
    and "tx_nonce tx = a_nonce (L (tx_sender tx)) + 1"
    and "a_balance (L (tx_sender tx)) < transfer_fee" "2 ^ 128 \<le> unat (mt_value msg) + unat transfer_fee"
      "mt_value msg + transfer_fee \<le> a_balance (L (tx_sender tx))"
    and "a_balance (L (mt_receiver msg)) = 0"
  shows "\<exists>s'. exc_transfer_tx E tx s = Some (Inr hash_default, s') \<and>
    balance E s' (mt_receiver msg) = Some (mt_value msg) \<and> 2 ^ 128 - 10000 \<le> unat (mt_value msg)"
proof -
  let ?f = "tx_sender tx" and ?t = "mt_receiver msg" and ?v = "mt_value msg"
  let ?L1 = "debit ?f transfer_fee L"
  obtain s1 where s1: "sub_balance E s ?f transfer_fee = Some s1" "ledger_of E s1 ?L1"
    using assms(1-3,5) by (auto simp: sub_balance_def ledger_ofD debit_def)
  obtain s2 where s2: "inc_nonce E s1 ?f = Some s2" "ledger_of E s2 (next_nonce ?f ?L1)"
    using assms(1,3,5) s1(2) by (auto simp: inc_nonce_def ledger_ofD next_nonce_def)
  have "unat (?v + transfer_fee) = unat ?v + unat transfer_fee - 2 ^ 128"
    using assms(11) by (simp add: unat_plus_if')
  moreover have "unat (a_balance (L ?f) - transfer_fee) = unat (a_balance (L ?f)) + 2 ^ 128 - unat transfer_fee"
    using assms(10) by (simp add: unat_sub_if' word_less_nat_alt)
  ultimately have v: "?v \<le> a_balance (L ?f) - transfer_fee"
    using assms(12,11) by (simp add: word_le_nat_alt)
  obtain s3 where s3: "transfer E s2 ?f ?t ?v = Some s3" "ledger_of E s3 (credit ?t ?v (debit ?f ?v (next_nonce ?f ?L1)))"
  proof -
    obtain s' where s': "sub_balance E s2 ?f ?v = Some s'" "ledger_of E s' (debit ?f ?v (next_nonce ?f ?L1))"
      using sub_balance_ledger [OF assms(1) s2(2) assms(3)] v by auto
    have "unat (a_balance (debit ?f ?v (next_nonce ?f ?L1) ?t)) + unat ?v < 2 ^ 128"
      using assms(6,13) unat_bound [of ?v] by simp
    then obtain s'' where s'': "add_balance E s' ?t ?v = Some s''" "ledger_of E s'' (credit ?t ?v (debit ?f ?v (next_nonce ?f ?L1)))"
      by (rule add_balance_ledger [OF assms(1) s'(2) assms(4)])
    have "transfer E s2 ?f ?t ?v = Some s''"
      using s'(1) s''(1) v by (simp add: transfer_def balance_def ledger_ofD [OF s2(2) assms(3)])
    with s''(2) show thesis by (rule that [rotated])
  qed
  have "balance E s3 ?t = Some ?v"
    using ledger_ofD [OF s3(2) assms(4)] assms(6,13) by (simp add: balance_def)
  moreover have "exc_transfer_tx E tx s = Some (Inr hash_default, s3)"
    using assms(2,3,5,7-9,12) s1(1) s2(1) s3(1)
    by (simp add: exc_transfer_tx_def get_to_address_def get_value_def get_from_address_def
      get_nonce_def get_account_def verify_tx_sign_def ledger_ofD Let_def not_less)
  moreover have "unat transfer_fee = 10000" by (simp add: transfer_fee_def)
  ultimately show ?thesis using assms(11) by simp
qed

end
