(* ===== verification/Poa.thy ===== *)
theory Poa
  imports Runtime
begin

text \<open>
  Proof of authority (src/consensus/src/poa.rs): the producer signs the block hash, and a verifier
  compares the public key of the first proof with its own and checks the first signature.
\<close>

definition poa_Version :: u32 where
  "poa_Version = 1"

record poa = poa_validator :: bytes

definition poa_new :: "bytes option \<Rightarrow> poa" where
  "poa_new v = (case v of Some val \<Rightarrow> \<lparr>poa_validator = val\<rparr> | None \<Rightarrow> \<lparr>poa_validator = ed_genesis_priv_key\<rparr>)"

definition poa_new_from_string :: "'z crates_scheme \<Rightarrow> string \<Rightarrow> poa" where
  "poa_new_from_string E priv_key =
    (if length priv_key < 32 then poa_new None
     else case privkey_from_hex E priv_key of
       Inr pkey \<Rightarrow> poa_new (Some (privkey_to_bytes pkey)) | Inl e \<Rightarrow> poa_new None)"

definition get_local_pk :: "'z dalek_scheme \<Rightarrow> poa \<Rightarrow> bytes option option" where
  "get_local_pk E c =
    do { k \<leftarrow> privkey_from_bytes (poa_validator c);
         Some (case privkey_to_pubkey E k of Inr pk \<Rightarrow> Some (pubkey_to_bytes pk) | Inl _ \<Rightarrow> None) }"

definition is_poa_sign :: "'z dalek_scheme \<Rightarrow> poa \<Rightarrow> bytes \<Rightarrow> bool option" where
  "is_poa_sign E c pk =
    do { l \<leftarrow> get_local_pk E c;
         Some (case l of Some lpk \<Rightarrow> length lpk = length pk \<and> lpk = pk | None \<Rightarrow> False) }"

definition add_signs_to_block ::
  "('kv, 'm, 't, 'z) block_env_scheme \<Rightarrow> hash \<Rightarrow> signature_info \<Rightarrow> block \<Rightarrow> error + block" where
  "add_signs_to_block E h si b =
    (let b1 = add_verify_item b (verification_item_new h si);
         h1 = get_hash_from_signs E (get_signs b1)
     in Inr (set_sign_hash b1 h1))"

definition sign_block ::
  "('kv, 'm, 't, 'z) block_env_scheme \<Rightarrow> u8 \<Rightarrow> privkey option \<Rightarrow> block \<Rightarrow> (error + block) option" where
  "sign_block E t pkey b =
    (case pkey of
       Some p \<Rightarrow>
         (if t = 0 then do {
            let h = block_hash E b;
            r \<leftarrow> privkey_sign E p (as_bytes h);
            (case r of Inl e \<Rightarrow> Some (Inl e) | Inr si \<Rightarrow> Some (add_signs_to_block E h si b)) }
          else Some (Inr b))
     | None \<Rightarrow>
         (if t = 0 then do {
            p \<leftarrow> privkey_from_bytes ed_genesis_priv_key;
            let h = block_hash E b;
            r \<leftarrow> privkey_sign E p (as_bytes h);
            (case r of Inl e \<Rightarrow> Some (Inl e) | Inr si \<Rightarrow> Some (add_signs_to_block E h si b)) }
          else Some (Inr b)))"

definition add_proof_to_block :: "u8 \<Rightarrow> bytes \<Rightarrow> block \<Rightarrow> (error + block) option" where
  "add_proof_to_block t pk b = do { p \<leftarrow> block_proof_new t pk; Some (Inr (add_proof b p)) }"

definition finalize_block ::
  "('kv, 'm, 't, 'z) block_env_scheme \<Rightarrow> poa \<Rightarrow> block \<Rightarrow> hash \<Rightarrow> (error + block) option" where
  "finalize_block E c b h =
    do { p \<leftarrow> privkey_from_bytes (poa_validator c); sign_block E 0 (Some p) (set_state_root b h) }"

definition poa_verify ::
  "'z dalek_scheme \<Rightarrow> poa \<Rightarrow> block_proof \<Rightarrow> verification_item \<Rightarrow> (error + unit) option" where
  "poa_verify E c proof vInfo =
    (let (pk0, t) = get_pk proof (replicate 64 0)
     in if t = 0 then do {
          p_pk \<leftarrow> slice 0 32 pk0;
          own \<leftarrow> is_poa_sign E c p_pk;
          (if \<not> own then Some (Inl (consensus_into AnotherPk))
           else do {
             pk \<leftarrow> pubkey_from_bytes p_pk;
             pubkey_verify E pk (verification_item_to_msg vInfo) (v_signs vInfo) }) }
        else Some (Inr ()))"

definition poa_verify_block :: "'z dalek_scheme \<Rightarrow> poa \<Rightarrow> block \<Rightarrow> (error + unit) option" where
  "poa_verify_block E c b =
    (case proof_one b of
       Some v \<Rightarrow>
         (case sign_one b of
            Some v2 \<Rightarrow> poa_verify E c v v2 | None \<Rightarrow> Some (Inl (consensus_into NoneSign)))
     | None \<Rightarrow> do {
         l \<leftarrow> get_local_pk E c;
         (case l of
            Some pk \<Rightarrow> do {
              proof \<leftarrow> block_proof_new 0 pk;
              (case sign_one b of
                 Some v2 \<Rightarrow> poa_verify E c proof v2 | None \<Rightarrow> Some (Inl (consensus_into NoneSign))) }
          | None \<Rightarrow> Some (Inl (consensus_into InvalidProof))) })"

definition get_interval :: u64 where
  "get_interval = 2000"

definition get_default_miner :: "'z crates_scheme \<Rightarrow> address option" where
  "get_default_miner E = do { pk \<leftarrow> pubkey_from_bytes ed_genesis_pub_key; pubkey_into_address E pk }"

section \<open>What finalize produces, verify accepts\<close>

lemma finalize_block_ok:
  fixes E :: "('kv, 'm, 't, 'z) block_env_scheme"
  assumes "dalek_key_ok E (poa_validator c)"
  obtains si where
    "finalize_block E c b h = Some (add_signs_to_block E (block_hash E (set_state_root b h)) si (set_state_root b h))"
    "privkey_sign E \<lparr>priv_inner = H256 (poa_validator c)\<rparr> (as_bytes (block_hash E (set_state_root b h))) = Some (Inr si)"
proof -
  have "length (poa_validator c) = 32" using assms by (simp add: dalek_key_ok_def)
  with privkey_sign_ok [OF assms, of "as_bytes (block_hash E (set_state_root b h))"] that show thesis
    by (simp add: finalize_block_def sign_block_def Let_def)
qed

lemma get_local_pk_ok:
  assumes "dalek_key_ok E (poa_validator c)"
  shows "get_local_pk E c = Some (Some (public_from_secret E (poa_validator c)))"
proof -
  have "length (poa_validator c) = 32" using assms by (simp add: dalek_key_ok_def)
  then show ?thesis
    by (simp add: get_local_pk_def privkey_to_pubkey_ok [OF assms] pubkey_to_bytes_def)
qed

lemma poa_verify_own:
  assumes "dalek_key_ok E (poa_validator c)" "bp_0 proof = public_from_secret E (poa_validator c)" "bp_2 proof = 0"
    and "privkey_sign E \<lparr>priv_inner = H256 (poa_validator c)\<rparr> (as_bytes (v_msg v)) = Some (Inr (v_signs v))"
  shows "poa_verify E c proof v = Some (Inr ())"
proof -
  have "length (public_from_secret E (poa_validator c)) = 32" using assms(1) by (simp add: dalek_key_ok_def)
  then show ?thesis
    using sign_then_verify [OF assms(1,4)] assms(2,3)
    by (simp add: poa_verify_def get_pk_def slice_def is_poa_sign_def get_local_pk_ok [OF assms(1)]
        verification_item_to_msg_def to_msg_def)
qed

text \<open>
  C11. A block that \<^verbatim>\<open>POA::finalize_block\<close> signs is accepted by \<^verbatim>\<open>POA::verify\<close> of the same authority, when it
  carries no signature yet and no proof, or first a proof with the authority's own key. Its state root is the given
  one and its signature root is the root of its signatures.
\<close>

theorem finalize_then_verify:
  fixes E :: "('kv, 'm, 't, 'z) block_env_scheme"
  assumes "dalek_key_ok E (poa_validator c)" "b_signs b = []"
    and "b_proofs b = [] \<or> hd (b_proofs b) = BlockProof (public_from_secret E (poa_validator c)) z 0"
  shows "\<exists>b'. finalize_block E c b h = Some (Inr b') \<and> poa_verify_block E c b' = Some (Inr ()) \<and>
    block_state_root b' = h \<and> h_sign_root (b_header b') = get_hash_from_signs E (b_signs b')"
proof -
  obtain si where si:
    "finalize_block E c b h = Some (add_signs_to_block E (block_hash E (set_state_root b h)) si (set_state_root b h))"
    "privkey_sign E \<lparr>priv_inner = H256 (poa_validator c)\<rparr> (as_bytes (block_hash E (set_state_root b h))) = Some (Inr si)"
    using finalize_block_ok [OF assms(1)] .
  let ?v = "verification_item_new (block_hash E (set_state_root b h)) si"
  obtain b' where b': "add_signs_to_block E (block_hash E (set_state_root b h)) si (set_state_root b h) = Inr b'"
      "b_signs b' = [?v]" "b_proofs b' = b_proofs b" "block_state_root b' = h"
      "h_sign_root (b_header b') = get_hash_from_signs E (b_signs b')"
    using assms(2) by (simp add: add_signs_to_block_def Let_def add_verify_item_def set_sign_hash_def
        set_state_root_def get_signs_def block_state_root_def)
  have len: "length (public_from_secret E (poa_validator c)) = 32" using assms(1) by (simp add: dalek_key_ok_def)
  have own: "poa_verify E c (BlockProof (public_from_secret E (poa_validator c)) w 0) ?v = Some (Inr ())" for w
    using si(2) by (intro poa_verify_own [OF assms(1)]) (simp_all add: verification_item_new_def)
  show ?thesis
    using si(1) b' own len assms(3)
    by (cases "b_proofs b")
      (auto simp: poa_verify_block_def proof_one_def sign_one_def nth_checked_def get_local_pk_ok [OF assms(1)]
        block_proof_new_def slice_def)
qed


end
