(* ===== verification/ChainDB.thy ===== *)
theory ChainDB
  imports Executor Poa
begin

text \<open>
  The block store (src/chain/src/store.rs): headers and blocks by hash, hashes by height, and the hash
  of the head, in one \<^verbatim>\<open>MapDB\<close> under keys that start with different bytes. A write error of RocksDB is
  handed to the caller; a read error or a value that does not decode is a panic.
\<close>

record 'r chain_db = cdb :: "'r map_db"

record ('kv, 'm, 't, 'r) chain_env = "('kv, 'm, 't) staking_env" +
  rocks :: "'r rocksdb"
  block_codec :: "block codec"

definition HEADER_PREFIX :: u8 where "HEADER_PREFIX = of_char (CHR ''h'')"
definition HEAD_PREFIX :: u8 where "HEAD_PREFIX = of_char (CHR ''H'')"
definition BLOCK_PREFIX :: u8 where "BLOCK_PREFIX = of_char (CHR ''b'')"
definition HEADERHASH_PREFIX :: u8 where "HEADERHASH_PREFIX = of_char (CHR ''n'')"
definition HEAD_KEY :: string where "HEAD_KEY = ''HEAD''"

definition chain_head_key :: bytes where
  "chain_head_key = HEAD_PREFIX # map of_char HEAD_KEY"

definition header_key :: "bytes \<Rightarrow> bytes" where
  "header_key h = HEADER_PREFIX # h"

definition header_hash_key :: "u64 \<Rightarrow> bytes" where
  "header_hash_key num = HEADERHASH_PREFIX # to_be_bytes 8 num"

definition block_key :: "hash \<Rightarrow> bytes" where
  "block_key h = BLOCK_PREFIX # as_bytes h"

section \<open>Access to MapDB\<close>

definition chain_put ::
  "('kv, 'm, 't, 'r, 'z) chain_env_scheme \<Rightarrow> 'r chain_db \<Rightarrow> bytes \<Rightarrow> bytes \<Rightarrow> string + 'r chain_db" where
  "chain_put E d k v = (case map_db_put (rocks E) (cdb d) k v of Inl e \<Rightarrow> Inl e | Inr x \<Rightarrow> Inr (d\<lparr>cdb := x\<rparr>))"

definition chain_remove ::
  "('kv, 'm, 't, 'r, 'z) chain_env_scheme \<Rightarrow> 'r chain_db \<Rightarrow> bytes \<Rightarrow> string + 'r chain_db" where
  "chain_remove E d k = (case map_db_remove (rocks E) (cdb d) k of Inl e \<Rightarrow> Inl e | Inr x \<Rightarrow> Inr (d\<lparr>cdb := x\<rparr>))"

section \<open>Hashes by height\<close>

definition get_header_hash ::
  "('kv, 'm, 't, 'r, 'z) chain_env_scheme \<Rightarrow> 'r chain_db \<Rightarrow> u64 \<Rightarrow> hash option option" where
  "get_header_hash E d num =
    do { r \<leftarrow> map_db_get (rocks E) (cdb d) (header_hash_key num);
         (case r of None \<Rightarrow> Some None | Some h \<Rightarrow> do { x \<leftarrow> copy_from_slice 32 h; Some (Some (Hash x)) }) }"

definition write_header_hash ::
  "('kv, 'm, 't, 'r, 'z) chain_env_scheme \<Rightarrow> 'r chain_db \<Rightarrow> u64 \<Rightarrow> hash \<Rightarrow> string + 'r chain_db" where
  "write_header_hash E d num h = chain_put E d (header_hash_key num) (as_bytes h)"

definition delete_header_height ::
  "('kv, 'm, 't, 'r, 'z) chain_env_scheme \<Rightarrow> 'r chain_db \<Rightarrow> u64 \<Rightarrow> string + 'r chain_db" where
  "delete_header_height E d num = chain_remove E d (header_hash_key num)"

section \<open>Headers\<close>

definition write_header ::
  "('kv, 'm, 't, 'r, 'z) chain_env_scheme \<Rightarrow> 'r chain_db \<Rightarrow> header \<Rightarrow> string + 'r chain_db" where
  "write_header E d h =
    (let encoded = ser (header_codec E) h; key = header_key (as_bytes (header_hash E h))
     in case write_header_hash E d (h_height h) (header_hash E h) of
          Inl e \<Rightarrow> Inl e | Inr d1 \<Rightarrow> chain_put E d1 key encoded)"

definition get_header ::
  "('kv, 'm, 't, 'r, 'z) chain_env_scheme \<Rightarrow> 'r chain_db \<Rightarrow> hash \<Rightarrow> header option option" where
  "get_header E d h =
    do { r \<leftarrow> map_db_get (rocks E) (cdb d) (header_key (as_bytes h));
         (case r of
            None \<Rightarrow> Some None
          | Some serialized \<Rightarrow> do { x \<leftarrow> de (header_codec E) serialized; Some (Some x) }) }"

definition delete_header ::
  "('kv, 'm, 't, 'r, 'z) chain_env_scheme \<Rightarrow> 'r chain_db \<Rightarrow> hash \<Rightarrow> string + 'r chain_db" where
  "delete_header E d h = chain_remove E d (header_key (as_bytes h))"

definition get_header_by_number ::
  "('kv, 'm, 't, 'r, 'z) chain_env_scheme \<Rightarrow> 'r chain_db \<Rightarrow> u64 \<Rightarrow> header option option" where
  "get_header_by_number E d num =
    do { r \<leftarrow> get_header_hash E d num; (case r of None \<Rightarrow> Some None | Some h \<Rightarrow> get_header E d h) }"

section \<open>The head\<close>

definition head_hash ::
  "('kv, 'm, 't, 'r, 'z) chain_env_scheme \<Rightarrow> 'r chain_db \<Rightarrow> hash option option" where
  "head_hash E d =
    do { r \<leftarrow> map_db_get (rocks E) (cdb d) chain_head_key;
         (case r of None \<Rightarrow> Some None | Some h \<Rightarrow> do { x \<leftarrow> copy_from_slice 32 h; Some (Some (Hash x)) }) }"

definition head_header ::
  "('kv, 'm, 't, 'r, 'z) chain_env_scheme \<Rightarrow> 'r chain_db \<Rightarrow> header option option" where
  "head_header E d =
    do { r \<leftarrow> head_hash E d;
         (case r of
            None \<Rightarrow> Some None
          | Some h \<Rightarrow> do {
              v \<leftarrow> map_db_get (rocks E) (cdb d) (header_key (as_bytes h));
              (case v of
                 None \<Rightarrow> Some None
               | Some serialized \<Rightarrow> do { x \<leftarrow> de (header_codec E) serialized; Some (Some x) }) }) }"

definition write_head_hash ::
  "('kv, 'm, 't, 'r, 'z) chain_env_scheme \<Rightarrow> 'r chain_db \<Rightarrow> hash \<Rightarrow> string + 'r chain_db" where
  "write_head_hash E d h = chain_put E d chain_head_key (as_bytes h)"

section \<open>Blocks\<close>

definition get_block ::
  "('kv, 'm, 't, 'r, 'z) chain_env_scheme \<Rightarrow> 'r chain_db \<Rightarrow> hash \<Rightarrow> block option option" where
  "get_block E d h =
    do { r \<leftarrow> map_db_get (rocks E) (cdb d) (block_key h);
         (case r of
            None \<Rightarrow> Some None
          | Some serialized \<Rightarrow> do { b \<leftarrow> de (block_codec E) serialized; Some (Some b) }) }"

definition head_block ::
  "('kv, 'm, 't, 'r, 'z) chain_env_scheme \<Rightarrow> 'r chain_db \<Rightarrow> block option option" where
  "head_block E d =
    do { r \<leftarrow> head_hash E d; (case r of None \<Rightarrow> Some None | Some h \<Rightarrow> get_block E d h) }"

definition get_block_by_number ::
  "('kv, 'm, 't, 'r, 'z) chain_env_scheme \<Rightarrow> 'r chain_db \<Rightarrow> u64 \<Rightarrow> block option option" where
  "get_block_by_number E d num =
    do { r \<leftarrow> get_header_hash E d num; (case r of None \<Rightarrow> Some None | Some h \<Rightarrow> get_block E d h) }"

definition write_block ::
  "('kv, 'm, 't, 'r, 'z) chain_env_scheme \<Rightarrow> 'r chain_db \<Rightarrow> block \<Rightarrow> string + 'r chain_db" where
  "write_block E d b =
    (case write_header E d (b_header b) of
       Inl e \<Rightarrow> Inl e
     | Inr d1 \<Rightarrow>
        (let key = block_key (header_hash E (b_header b)); encoded = ser (block_codec E) b
         in chain_put E d1 key encoded))"

definition delete_block ::
  "('kv, 'm, 't, 'r, 'z) chain_env_scheme \<Rightarrow> 'r chain_db \<Rightarrow> hash \<Rightarrow> string + 'r chain_db" where
  "delete_block E d h =
    (case chain_remove E d (block_key h) of Inl e \<Rightarrow> Inl e | Inr d1 \<Rightarrow> delete_header E d1 h)"

section \<open>Walking back\<close>

text \<open>
  The loop of \<^verbatim>\<open>find_ancestor\<close> ends when the two branches meet or leave the store: the outermost
  \<^term>\<open>None\<close> is a loop that does not return, the next a panic, the inner one the answer \<^verbatim>\<open>None\<close>.
\<close>

partial_function (option) find_ancestor_loop ::
  "('kv, 'm, 't, 'r, 'z) chain_env_scheme \<Rightarrow> 'r chain_db \<Rightarrow> header \<Rightarrow> header \<Rightarrow> hash option option option" where
  "find_ancestor_loop E d a b =
    (if header_hash E a \<noteq> header_hash E b
     then (case get_header E d (h_parent_hash a) of
             None \<Rightarrow> Some None
           | Some None \<Rightarrow> Some (Some None)
           | Some (Some a') \<Rightarrow>
               (case get_header E d (h_parent_hash b) of
                  None \<Rightarrow> Some None
                | Some None \<Rightarrow> Some (Some None)
                | Some (Some b') \<Rightarrow> find_ancestor_loop E d a' b'))
     else Some (Some (Some (header_hash E a))))"

definition find_ancestor ::
  "('kv, 'm, 't, 'r, 'z) chain_env_scheme \<Rightarrow> 'r chain_db \<Rightarrow> header \<Rightarrow> header \<Rightarrow> hash option option option" where
  "find_ancestor E d a b =
    (if h_height a \<noteq> h_height b then Some (Some None) else find_ancestor_loop E d a b)"

text \<open>The loop of \<^verbatim>\<open>setup_height\<close> counts the height down.\<close>

function setup_height_loop ::
  "('kv, 'm, 't, 'r, 'z) chain_env_scheme \<Rightarrow> 'r chain_db \<Rightarrow> u64 \<Rightarrow> hash \<Rightarrow> 'r chain_db option" where
  "setup_height_loop E d pre pre_hash =
    (if pre > 0
     then do {
       r \<leftarrow> get_header E d pre_hash; header \<leftarrow> r;
       i \<leftarrow> get_header_hash E d pre; h \<leftarrow> i;
       (if h = header_hash E header then Some d
        else do {
          d1 \<leftarrow> unwrap_ok (write_header_hash E d pre (header_hash E header));
          setup_height_loop E d1 (pre - 1) (h_parent_hash header) }) }
     else Some d)"
  by auto
termination
  by (relation "measure (\<lambda>(E, d, pre, h). unat pre)") (auto simp: unat_sub_exact word_less_nat_alt)

definition setup_height ::
  "('kv, 'm, 't, 'r, 'z) chain_env_scheme \<Rightarrow> 'r chain_db \<Rightarrow> header \<Rightarrow> 'r chain_db option" where
  "setup_height E d h = setup_height_loop E d (h_height h) (header_hash E h)"

section \<open>What the code relies on\<close>

definition chain_ok :: "('kv, 'm, 't, 'r, 'z) chain_env_scheme \<Rightarrow> ('r \<Rightarrow> bytes \<Rightarrow> bytes option) \<Rightarrow> bool" where
  "chain_ok E c \<longleftrightarrow> rocksdb_ok (rocks E) c \<and> codec_ok (header_codec E) \<and> codec_ok (block_codec E) \<and> digest_ok E"

lemma chain_okD:
  assumes "chain_ok E c"
  shows "rocksdb_ok (rocks E) c" "codec_ok (header_codec E)" "codec_ok (block_codec E)" "digest_ok E"
  using assms by (simp_all add: chain_ok_def)

abbreviation chain_content :: "('r \<Rightarrow> bytes \<Rightarrow> bytes option) \<Rightarrow> 'r chain_db \<Rightarrow> bytes \<Rightarrow> bytes option" where
  "chain_content c d \<equiv> map_db_content c (cdb d)"

lemma chain_putD:
  assumes "rocksdb_ok (rocks E) c"
  obtains d' where "chain_put E d k v = Inr d'" "chain_content c d' = (chain_content c d)(k \<mapsto> v)"
proof -
  obtain x where "map_db_put (rocks E) (cdb d) k v = Inr x" "map_db_content c x = (map_db_content c (cdb d))(k \<mapsto> v)"
    using map_db_putD [OF assms] .
  then show thesis by (intro that [of "d\<lparr>cdb := x\<rparr>"]) (simp_all add: chain_put_def)
qed

lemma chain_removeD:
  assumes "rocksdb_ok (rocks E) c"
  obtains d' where "chain_remove E d k = Inr d'" "chain_content c d' = (chain_content c d)(k := None)"
proof -
  obtain x where "map_db_remove (rocks E) (cdb d) k = Inr x" "map_db_content c x = (map_db_content c (cdb d))(k := None)"
    using map_db_removeD [OF assms] .
  then show thesis by (intro that [of "d\<lparr>cdb := x\<rparr>"]) (simp_all add: chain_remove_def)
qed

text \<open>The four kinds of keys are different.\<close>

lemma to_be_bytes_u64_inject [simp]: "to_be_bytes 8 (a :: u64) = to_be_bytes 8 b \<longleftrightarrow> a = b"
  by (metis from_to_bytes_u64(2))

lemma chain_keys [simp]:
  "header_key a = header_key b \<longleftrightarrow> a = b" "block_key g = block_key h \<longleftrightarrow> g = h"
  "header_hash_key m = header_hash_key n \<longleftrightarrow> m = n"
  "header_key a \<noteq> block_key h" "block_key h \<noteq> header_key a" "header_key a \<noteq> header_hash_key n"
  "header_hash_key n \<noteq> header_key a" "header_key a \<noteq> chain_head_key" "chain_head_key \<noteq> header_key a"
  "block_key h \<noteq> header_hash_key n" "header_hash_key n \<noteq> block_key h" "block_key h \<noteq> chain_head_key"
  "chain_head_key \<noteq> block_key h" "header_hash_key n \<noteq> chain_head_key" "chain_head_key \<noteq> header_hash_key n"
  by (simp_all add: header_key_def block_key_def header_hash_key_def chain_head_key_def
      HEADER_PREFIX_def BLOCK_PREFIX_def HEADERHASH_PREFIX_def HEAD_PREFIX_def)

lemma header_hash_wf [simp]: "digest_ok E \<Longrightarrow> length (as_bytes (header_hash E h)) = 32"
  by (simp add: header_hash_def)

section \<open>The store as a dictionary of blocks\<close>

text \<open>The interface of the block store for the chain.\<close>

locale block_store =
  fixes ok :: "'e \<Rightarrow> bool"
    and hash_of :: "'e \<Rightarrow> block \<Rightarrow> hash"
    and get :: "'e \<Rightarrow> 'd \<Rightarrow> hash \<Rightarrow> block option option"
    and get_index :: "'e \<Rightarrow> 'd \<Rightarrow> u64 \<Rightarrow> hash option option"
    and get_head :: "'e \<Rightarrow> 'd \<Rightarrow> hash option option"
    and put :: "'e \<Rightarrow> 'd \<Rightarrow> block \<Rightarrow> string + 'd"
    and put_head :: "'e \<Rightarrow> 'd \<Rightarrow> hash \<Rightarrow> string + 'd"
  assumes put_law: "ok e \<Longrightarrow> \<exists>d'. put e d b = Inr d' \<and>
      get e d' = (get e d)(hash_of e b \<mapsto> Some b) \<and>
      get_index e d' = (get_index e d)(block_height b \<mapsto> Some (hash_of e b)) \<and> get_head e d' = get_head e d"
    and put_head_law: "ok e \<Longrightarrow> \<exists>d'. put_head e d (hash_of e b) = Inr d' \<and> get e d' = get e d \<and>
      get_index e d' = get_index e d \<and> get_head e d' = Some (Some (hash_of e b))"
begin

lemma append_law:
  assumes "ok e"
  obtains d1 d2 where "put e d b = Inr d1" "put_head e d1 (hash_of e b) = Inr d2"
    "get e d2 = (get e d)(hash_of e b \<mapsto> Some b)"
    "get_index e d2 = (get_index e d)(block_height b \<mapsto> Some (hash_of e b))"
    "get_head e d2 = Some (Some (hash_of e b))"
  using put_law [OF assms, of d b] put_head_law [OF assms, where b = b] by metis

end

lemma get_block_content:
  "rocksdb_ok (rocks E) c \<Longrightarrow> get_block E d h =
    (case chain_content c d (block_key h) of None \<Rightarrow> Some None | Some x \<Rightarrow> map_option Some (de (block_codec E) x))"
  by (simp add: get_block_def map_db_getD map_option_case split: option.split)

lemma get_header_content:
  "rocksdb_ok (rocks E) c \<Longrightarrow> get_header E d h =
    (case chain_content c d (header_key (as_bytes h)) of
       None \<Rightarrow> Some None | Some x \<Rightarrow> map_option Some (de (header_codec E) x))"
  by (simp add: get_header_def map_db_getD map_option_case split: option.split)

lemma get_header_hash_content:
  "rocksdb_ok (rocks E) c \<Longrightarrow> get_header_hash E d n =
    (case chain_content c d (header_hash_key n) of
       None \<Rightarrow> Some None | Some x \<Rightarrow> map_option (\<lambda>y. Some (Hash y)) (copy_from_slice 32 x))"
  by (simp add: get_header_hash_def map_db_getD map_option_case split: option.split)

lemma head_hash_content:
  "rocksdb_ok (rocks E) c \<Longrightarrow> head_hash E d =
    (case chain_content c d chain_head_key of
       None \<Rightarrow> Some None | Some x \<Rightarrow> map_option (\<lambda>y. Some (Hash y)) (copy_from_slice 32 x))"
  by (simp add: head_hash_def map_db_getD map_option_case split: option.split)

lemmas chain_reads = get_block_content get_header_content get_header_hash_content head_hash_content

lemma write_block_content:
  assumes "chain_ok E c"
  obtains d' where "write_block E d b = Inr d'"
    "chain_content c d' = (chain_content c d)
       (header_hash_key (block_height b) \<mapsto> as_bytes (block_hash E b),
        header_key (as_bytes (block_hash E b)) \<mapsto> ser (header_codec E) (b_header b),
        block_key (block_hash E b) \<mapsto> ser (block_codec E) b)"
proof -
  note R = chain_okD(1) [OF assms]
  obtain d1 where d1: "chain_put E d (header_hash_key (block_height b)) (as_bytes (block_hash E b)) = Inr d1"
      "chain_content c d1 = (chain_content c d)(header_hash_key (block_height b) \<mapsto> as_bytes (block_hash E b))"
    using chain_putD [OF R] .
  obtain d2 where d2: "chain_put E d1 (header_key (as_bytes (block_hash E b))) (ser (header_codec E) (b_header b)) = Inr d2"
      "chain_content c d2 = (chain_content c d1)(header_key (as_bytes (block_hash E b)) \<mapsto> ser (header_codec E) (b_header b))"
    using chain_putD [OF R] .
  obtain d3 where d3: "chain_put E d2 (block_key (block_hash E b)) (ser (block_codec E) b) = Inr d3"
      "chain_content c d3 = (chain_content c d2)(block_key (block_hash E b) \<mapsto> ser (block_codec E) b)"
    using chain_putD [OF R] .
  show thesis
    using d1 d2 d3
    by (intro that [of d3]) (simp_all add: write_block_def write_header_def write_header_hash_def block_hash_def block_height_def Let_def)
qed

interpretation bs: block_store "\<lambda>e. chain_ok (fst e) (snd e)" "\<lambda>e. block_hash (fst e)" "\<lambda>e. get_block (fst e)"
  "\<lambda>e. get_header_hash (fst e)" "\<lambda>e. head_hash (fst e)" "\<lambda>e. write_block (fst e)" "\<lambda>e. write_head_hash (fst e)"
proof (unfold_locales, goal_cases)
  case (1 e d b)
  obtain E c where e: "e = (E, c)" by fastforce
  note D = chain_okD [OF 1 [unfolded e fst_conv snd_conv]]
  obtain d' where d': "write_block E d b = Inr d'"
    "chain_content c d' = (chain_content c d)
       (header_hash_key (block_height b) \<mapsto> as_bytes (block_hash E b),
        header_key (as_bytes (block_hash E b)) \<mapsto> ser (header_codec E) (b_header b),
        block_key (block_hash E b) \<mapsto> ser (block_codec E) b)"
    using write_block_content [of E c d b] 1 by (auto simp: e)
  have "length (as_bytes (block_hash E b)) = 32" using D(4) by (simp add: block_hash_def)
  then show ?case
    unfolding e fst_conv
    by (intro exI [of _ d'] conjI ext d'(1)) (simp_all add: chain_reads [OF D(1)] d'(2) D(3))
next
  case (2 e d b)
  obtain E c where e: "e = (E, c)" by fastforce
  note D = chain_okD [OF 2 [unfolded e fst_conv snd_conv]]
  obtain d' where d': "chain_put E d chain_head_key (as_bytes (block_hash E b)) = Inr d'"
    "chain_content c d' = (chain_content c d)(chain_head_key \<mapsto> as_bytes (block_hash E b))"
    using chain_putD [OF D(1)] .
  have "length (as_bytes (block_hash E b)) = 32" using D(4) by (simp add: block_hash_def)
  then show ?case
    unfolding e fst_conv write_head_hash_def
    by (intro exI [of _ d'] conjI ext d'(1)) (simp_all add: chain_reads [OF D(1)] d'(2))
qed

section \<open>Properties\<close>

text \<open>
  C10. \<^verbatim>\<open>ChainDB::write_block\<close> succeeds, and the block is then found by its hash and by its height, its
  header by its hash; blocks under other hashes, other heights and the head are what they were.
\<close>

theorem write_block_roundtrip:
  assumes "chain_ok E c"
  shows "\<exists>d'. write_block E d b = Inr d' \<and>
    get_block E d' (block_hash E b) = Some (Some b) \<and> get_header E d' (block_hash E b) = Some (Some (b_header b)) \<and>
    get_block_by_number E d' (block_height b) = Some (Some b) \<and>
    get_header_by_number E d' (block_height b) = Some (Some (b_header b)) \<and>
    (\<forall>h. h \<noteq> block_hash E b \<longrightarrow> get_block E d' h = get_block E d h \<and> get_header E d' h = get_header E d h) \<and>
    (\<forall>n. n \<noteq> block_height b \<longrightarrow> get_header_hash E d' n = get_header_hash E d n) \<and>
    head_hash E d' = head_hash E d"
proof -
  note D = chain_okD [OF assms]
  obtain d' where d': "write_block E d b = Inr d'"
    "chain_content c d' = (chain_content c d)
       (header_hash_key (block_height b) \<mapsto> as_bytes (block_hash E b),
        header_key (as_bytes (block_hash E b)) \<mapsto> ser (header_codec E) (b_header b),
        block_key (block_hash E b) \<mapsto> ser (block_codec E) b)"
    using write_block_content [OF assms] .
  have "length (as_bytes (block_hash E b)) = 32" using D(4) by (simp add: block_hash_def)
  then show ?thesis
    by (intro exI [of _ d'])
      (simp add: d' chain_reads [OF D(1)] D get_block_by_number_def get_header_by_number_def)
qed

text \<open>
  C17. \<^verbatim>\<open>ChainDB::delete_block\<close> succeeds and removes the block and the header under that hash and nothing else.
\<close>

theorem delete_block_removes:
  assumes "chain_ok E c"
  shows "\<exists>d'. delete_block E d h = Inr d' \<and> get_block E d' h = Some None \<and> get_header E d' h = Some None \<and>
    (\<forall>g. g \<noteq> h \<longrightarrow> get_block E d' g = get_block E d g \<and> get_header E d' g = get_header E d g) \<and>
    get_header_hash E d' n = get_header_hash E d n \<and> head_hash E d' = head_hash E d"
proof -
  note R = chain_okD(1) [OF assms]
  obtain d1 where d1: "chain_remove E d (block_key h) = Inr d1" "chain_content c d1 = (chain_content c d)(block_key h := None)"
    using chain_removeD [OF R] .
  obtain d2 where d2: "chain_remove E d1 (header_key (as_bytes h)) = Inr d2"
      "chain_content c d2 = (chain_content c d1)(header_key (as_bytes h) := None)"
    using chain_removeD [OF R] .
  show ?thesis
    by (intro exI [of _ d2]) (simp add: delete_block_def delete_header_def d1 d2 chain_reads [OF R])
qed

subsection \<open>find\_ancestor\<close>

fun ancestor :: "('kv, 'm, 't, 'r, 'z) chain_env_scheme \<Rightarrow> 'r chain_db \<Rightarrow> nat \<Rightarrow> header \<Rightarrow> header option" where
  "ancestor E d 0 a = Some a"
| "ancestor E d (Suc n) a =
    (case get_header E d (h_parent_hash a) of Some (Some p) \<Rightarrow> ancestor E d n p | _ \<Rightarrow> None)"

definition same_ancestor ::
  "('kv, 'm, 't, 'r, 'z) chain_env_scheme \<Rightarrow> 'r chain_db \<Rightarrow> header \<Rightarrow> header \<Rightarrow> nat \<Rightarrow> hash \<Rightarrow> bool" where
  "same_ancestor E d a b n h \<longleftrightarrow>
    (\<exists>x y. ancestor E d n a = Some x \<and> ancestor E d n b = Some y \<and> header_hash E x = h \<and> header_hash E y = h)"

text \<open>The first generation in which the two branches have the same header hash.\<close>

definition meet_at ::
  "('kv, 'm, 't, 'r, 'z) chain_env_scheme \<Rightarrow> 'r chain_db \<Rightarrow> header \<Rightarrow> header \<Rightarrow> nat \<Rightarrow> hash \<Rightarrow> bool" where
  "meet_at E d a b n h \<longleftrightarrow> same_ancestor E d a b n h \<and> (\<forall>m < n. \<forall>g. \<not> same_ancestor E d a b m g)"

lemma find_ancestor_loop_meets: "meet_at E d a b n h \<Longrightarrow> find_ancestor_loop E d a b = Some (Some (Some h))"
proof (induction n arbitrary: a b)
  case 0
  then show ?case by (subst find_ancestor_loop.simps) (auto simp: meet_at_def same_ancestor_def)
next
  case (Suc n)
  then obtain x y where xy: "ancestor E d (Suc n) a = Some x" "ancestor E d (Suc n) b = Some y"
      "header_hash E x = h" "header_hash E y = h"
    by (auto simp: meet_at_def same_ancestor_def)
  then obtain p q where pq: "get_header E d (h_parent_hash a) = Some (Some p)" "get_header E d (h_parent_hash b) = Some (Some q)"
    by (auto split: option.splits)
  have step: "same_ancestor E d a b (Suc m) g \<longleftrightarrow> same_ancestor E d p q m g" for m g
    using pq by (simp add: same_ancestor_def)
  have "\<not> same_ancestor E d a b 0 g" for g using Suc.prems by (simp add: meet_at_def)
  then have "header_hash E a \<noteq> header_hash E b" by (auto simp: same_ancestor_def)
  moreover have "meet_at E d p q n h"
    using Suc.prems step unfolding meet_at_def by (metis Suc_less_eq)
  ultimately show ?case
    using Suc.IH pq by (subst find_ancestor_loop.simps) simp
qed

lemma find_ancestor_loop_sound:
  assumes "find_ancestor_loop E d a b = Some (Some (Some h))"
  shows "\<exists>n. same_ancestor E d a b n h"
proof -
  have "\<forall>h. r = Some (Some h) \<longrightarrow> (\<exists>n. same_ancestor E d a b n h)" if "find_ancestor_loop E d a b = Some r" for r
  proof (rule find_ancestor_loop.raw_induct
      [where P = "\<lambda>E d a b r. \<forall>h. r = Some (Some h) \<longrightarrow> (\<exists>n. same_ancestor E d a b n h)", OF _ that], intro allI impI)
    fix loop E d a b r h
    assume IH: "\<And>E d a b r. loop E d a b = Some r \<Longrightarrow> \<forall>h. r = Some (Some h) \<longrightarrow> (\<exists>n. same_ancestor E d a b n h)"
      and step: "(if header_hash E a \<noteq> header_hash E b
         then (case get_header E d (h_parent_hash a) of
                 None \<Rightarrow> Some None
               | Some None \<Rightarrow> Some (Some None)
               | Some (Some a') \<Rightarrow>
                   (case get_header E d (h_parent_hash b) of
                      None \<Rightarrow> Some None
                    | Some None \<Rightarrow> Some (Some None)
                    | Some (Some b') \<Rightarrow> loop E d a' b'))
         else Some (Some (Some (header_hash E a)))) = Some r"
      and r: "r = Some (Some h)"
    show "\<exists>n. same_ancestor E d a b n h"
    proof (cases "header_hash E a = header_hash E b")
      case True
      with step r show ?thesis by (intro exI [of _ 0]) (auto simp: same_ancestor_def)
    next
      case False
      with step r obtain p q where pq: "get_header E d (h_parent_hash a) = Some (Some p)"
          "get_header E d (h_parent_hash b) = Some (Some q)" "loop E d p q = Some (Some (Some h))"
        by (auto split: option.splits)
      from IH [OF pq(3)] obtain n where "same_ancestor E d p q n h" by blast
      with pq show ?thesis by (intro exI [of _ "Suc n"]) (simp add: same_ancestor_def)
    qed
  qed
  with assms show ?thesis by blast
qed

text \<open>
  C15. \<^verbatim>\<open>ChainDB::find_ancestor\<close> returns a hash exactly when the two headers have the same height and their
  branches meet within the store, and the hash is that of the first generation in which they do.
\<close>

theorem find_ancestor_first_meeting:
  "find_ancestor E d a b = Some (Some (Some h)) \<longleftrightarrow> h_height a = h_height b \<and> (\<exists>n. meet_at E d a b n h)"
proof (cases "h_height a = h_height b")
  case True
  have "\<exists>n. meet_at E d a b n h" if loop: "find_ancestor_loop E d a b = Some (Some (Some h))"
  proof -
    from find_ancestor_loop_sound [OF loop] obtain k where "same_ancestor E d a b k h" by blast
    then have ex: "\<exists>n. \<exists>g. same_ancestor E d a b n g" by blast
    define n where "n = (LEAST n. \<exists>g. same_ancestor E d a b n g)"
    obtain g where g: "same_ancestor E d a b n g" using LeastI_ex [OF ex] unfolding n_def by blast
    have "meet_at E d a b n g"
      using g not_less_Least [of _ "\<lambda>n. \<exists>g. same_ancestor E d a b n g"] unfolding n_def meet_at_def by blast
    with find_ancestor_loop_meets [OF this] loop show ?thesis by auto
  qed
  with True show ?thesis
    using find_ancestor_loop_meets by (auto simp: find_ancestor_def)
qed (simp add: find_ancestor_def)

end
