(* ===== verification/Blockchain.thy ===== *)
theory Blockchain
  imports ChainDB
begin

text \<open>
  The chain (src/chain/src/blockchain.rs): genesis, validation of a block against the head, execution
  of its transactions, and import. A \<^verbatim>\<open>StateDB\<close> opened on the chain shares the key-value store of
  \<^verbatim>\<open>state_backend\<close>, so that what it commits is the chain's afterwards.
\<close>

record ('kv, 'm, 'r) block_chain =
  bc_db :: "'r chain_db"
  bc_state_backend :: "('kv, 'm) archive_db"
  bc_genesis :: block
  bc_consensus :: poa

text \<open>\<^verbatim>\<open>BlockChain::new\<close>, given the opened stores.\<close>

definition block_chain_new ::
  "('kv, 'm, 't, 'r, 'z) chain_env_scheme \<Rightarrow> 'r map_db \<Rightarrow> 'kv \<Rightarrow> string \<Rightarrow> ('kv, 'm, 'r) block_chain" where
  "block_chain_new E d b key =
    \<lparr>bc_db = \<lparr>cdb = d\<rparr>, bc_state_backend = archive_new E b, bc_genesis = to_genesis E,
     bc_consensus = poa_new_from_string E key\<rparr>"

definition state_at :: "('kv, 'm, 'r) block_chain \<Rightarrow> hash \<Rightarrow> ('kv, 'm) state_db" where
  "state_at bc root = state_from_existing (bc_state_backend bc) root"

definition share_backend :: "('kv, 'm, 'r) block_chain \<Rightarrow> ('kv, 'm) state_db \<Rightarrow> ('kv, 'm, 'r) block_chain" where
  "share_backend bc s = bc\<lparr>bc_state_backend := (bc_state_backend bc)\<lparr>backend := backend (sdb s)\<rparr>\<rparr>"

definition setup_genesis ::
  "('kv, 'm, 't, 'r, 'z) chain_env_scheme \<Rightarrow> ('kv, 'm, 'r) block_chain \<Rightarrow> (hash \<times> ('kv, 'm, 'r) block_chain) option" where
  "setup_genesis E bc =
    do { (s, root) \<leftarrow> setup_allocation E (state_from_existing (bc_state_backend bc) NULL_ROOT);
         let g = set_state_root (bc_genesis bc) root;
         d1 \<leftarrow> unwrap_ok (write_block E (bc_db bc) g);
         d2 \<leftarrow> unwrap_ok (write_head_hash E d1 (block_hash E g));
         Some (block_hash E g, (share_backend bc s)\<lparr>bc_genesis := g, bc_db := d2\<rparr>) }"

definition current_block ::
  "('kv, 'm, 't, 'r, 'z) chain_env_scheme \<Rightarrow> ('kv, 'm, 'r) block_chain \<Rightarrow> block option" where
  "current_block E bc = do { r \<leftarrow> head_block E (bc_db bc); r }"

definition chain_load ::
  "('kv, 'm, 't, 'r, 'z) chain_env_scheme \<Rightarrow> ('kv, 'm, 'r) block_chain \<Rightarrow> ('kv, 'm, 'r) block_chain option" where
  "chain_load E bc =
    do { block_zero \<leftarrow> get_block_by_number E (bc_db bc) 0;
         (case block_zero of
            None \<Rightarrow> do { (_, bc') \<leftarrow> setup_genesis E bc; Some bc' }
          | Some g \<Rightarrow> do { _ \<leftarrow> current_block E bc; Some (bc\<lparr>bc_genesis := g\<rparr>) }) }"

definition genesis_hash :: "('kv, 'm, 't, 'r, 'z) chain_env_scheme \<Rightarrow> ('kv, 'm, 'r) block_chain \<Rightarrow> hash" where
  "genesis_hash E bc = block_hash E (bc_genesis bc)"

definition exits_block ::
  "('kv, 'm, 't, 'r, 'z) chain_env_scheme \<Rightarrow> ('kv, 'm, 'r) block_chain \<Rightarrow> hash \<Rightarrow> u64 \<Rightarrow> bool option" where
  "exits_block E bc h num = do { r \<leftarrow> get_block_by_number E (bc_db bc) num; Some (r \<noteq> None) }"

definition check_previous ::
  "('kv, 'm, 't, 'r, 'z) chain_env_scheme \<Rightarrow> ('kv, 'm, 'r) block_chain \<Rightarrow> header \<Rightarrow> bool option" where
  "check_previous E bc h = do { r \<leftarrow> get_block E (bc_db bc) (h_parent_hash h); Some (r \<noteq> None) }"

definition apply_transactions ::
  "('kv, 'm, 't, 'r, 'z) chain_env_scheme \<Rightarrow> ('kv, 'm, 'r) block_chain \<Rightarrow> hash \<Rightarrow> block
     \<Rightarrow> (hash \<times> ('kv, 'm, 'r) block_chain) option" where
  "apply_transactions E bc root b =
    do { (r, s) \<leftarrow> exc_txs_in_block E b (state_at bc root) address_default;
         h \<leftarrow> unwrap_ok r;
         Some (h, share_backend bc s) }"

section \<open>Validator\<close>

definition validate_block :: "('kv, 'm, 't, 'z) block_env_scheme \<Rightarrow> block \<Rightarrow> error + unit" where
  "validate_block E b =
    (if h_sign_root (b_header b) \<noteq> get_hash_from_signs E (b_signs b) then Inl (block_chain_into MismatchHash)
     else if h_tx_root (b_header b) \<noteq> get_hash_from_txs E (b_txs b) then Inl (block_chain_into MismatchHash)
     else Inr ())"

definition validate_header ::
  "('kv, 'm, 't, 'r, 'z) chain_env_scheme \<Rightarrow> ('kv, 'm, 'r) block_chain \<Rightarrow> header \<Rightarrow> (error + unit) option" where
  "validate_header E bc h =
    do { p \<leftarrow> get_block E (bc_db bc) (h_parent_hash h);
         (case p of
            None \<Rightarrow> Some (Inl (block_chain_into UnknownAncestor))
          | Some pre \<Rightarrow> do {
              n \<leftarrow> uadd (overflow_checks E) (h_height (b_header pre)) 1;
              Some (if h_height h \<noteq> n then Inl (block_chain_into InvalidBlockHeight)
                    else if h_time h \<le> h_time (b_header pre) then Inl (block_chain_into InvalidBlockTime)
                    else Inr ()) }) }"

section \<open>Import\<close>

definition import_block ::
  "('kv, 'm, 't, 'r, 'z) chain_env_scheme \<Rightarrow> ('kv, 'm, 'r) block_chain \<Rightarrow> block
     \<Rightarrow> ((error + unit) \<times> ('kv, 'm, 'r) block_chain) option" where
  "import_block E bc b =
    do { known \<leftarrow> exits_block E bc (block_hash E b) (block_height b);
         (if known then Some (Inl (block_chain_into KnownBlock), bc)
          else do {
            prev \<leftarrow> check_previous E bc (b_header b);
            (if \<not> prev then Some (Inl (block_chain_into UnknownAncestor), bc)
             else do {
               current \<leftarrow> current_block E bc;
               (if h_parent_hash (b_header b) \<noteq> block_hash E current
                then Some (Inl (block_chain_into UnknownAncestor), bc)
                else do {
                  vh \<leftarrow> validate_header E bc (b_header b);
                  (case vh of
                     Inl e \<Rightarrow> Some (Inl e, bc)
                   | Inr _ \<Rightarrow>
                      (case validate_block E b of
                         Inl e \<Rightarrow> Some (Inl e, bc)
                       | Inr _ \<Rightarrow> do {
                           (root, bc1) \<leftarrow> apply_transactions E bc (block_state_root current) b;
                           (if block_state_root b \<noteq> root
                            then Some (Inl (block_chain_into InvalidState), bc1)
                            else do {
                              d1 \<leftarrow> unwrap_ok (write_block E (bc_db bc1) b);
                              d2 \<leftarrow> unwrap_ok (write_head_hash E d1 (header_hash E (b_header b)));
                              Some (Inr (), bc1\<lparr>bc_db := d2\<rparr>) }) })) }) }) }) }"

definition insert_block ::
  "('kv, 'm, 't, 'r, 'z) chain_env_scheme \<Rightarrow> ('kv, 'm, 'r) block_chain \<Rightarrow> block
     \<Rightarrow> ((error + unit) \<times> ('kv, 'm, 'r) block_chain) option" where
  "insert_block E bc b = import_block E bc b"

section \<open>The chain a store holds\<close>

text \<open>A block that may follow another.\<close>

definition valid_next :: "('kv, 'm, 't, 'z) block_env_scheme \<Rightarrow> block \<Rightarrow> block \<Rightarrow> bool" where
  "valid_next E pre b \<longleftrightarrow>
    h_parent_hash (b_header b) = block_hash E pre \<and>
    unat (block_height b) = unat (block_height pre) + 1 \<and>
    h_time (b_header pre) < h_time (b_header b) \<and>
    h_sign_root (b_header b) = get_hash_from_signs E (b_signs b) \<and>
    h_tx_root (b_header b) = get_hash_from_txs E (b_txs b)"

text \<open>
  The store holds the blocks \<open>cs\<close>, from genesis to head: each is found by its hash and by its height,
  which is its position; there is nothing above the head, and every stored block decodes.
\<close>

definition holds :: "('kv, 'm, 't, 'r, 'z) chain_env_scheme \<Rightarrow> 'r chain_db \<Rightarrow> block list \<Rightarrow> bool" where
  "holds E d cs \<longleftrightarrow> cs \<noteq> [] \<and>
    (\<forall>i < length cs. unat (block_height (cs ! i)) = i \<and> get_block E d (block_hash E (cs ! i)) = Some (Some (cs ! i)) \<and>
       get_header_hash E d (block_height (cs ! i)) = Some (Some (block_hash E (cs ! i)))) \<and>
    (\<forall>n. length cs \<le> unat n \<longrightarrow> get_header_hash E d n = Some None) \<and> (\<forall>h. get_block E d h \<noteq> None) \<and>
    head_hash E d = Some (Some (block_hash E (last cs)))"

fun linked :: "('kv, 'm, 't, 'z) block_env_scheme \<Rightarrow> block list \<Rightarrow> bool" where
  "linked E (a # b # cs) = (valid_next E a b \<and> linked E (b # cs))"
| "linked E _ = True"

text \<open>The state of every block of the chain is readable.\<close>

definition states_kept ::
  "('kv, 'm, 't, 'r, 'z) chain_env_scheme \<Rightarrow> ('kv, 't) ghost \<Rightarrow> ('kv, 'm) archive_db \<Rightarrow> block list \<Rightarrow> bool" where
  "states_kept E G d cs \<longleftrightarrow> archive_ok E G d \<and> (\<forall>b \<in> set cs. \<exists>f. trie_at E (archive_get E d) (block_state_root b) f)"

definition chain_inv ::
  "('kv, 'm, 't, 'r, 'z) chain_env_scheme \<Rightarrow> ('kv, 't) ghost \<Rightarrow> header set \<Rightarrow> ('kv, 'm, 'r) block_chain \<Rightarrow> block list \<Rightarrow> bool" where
  "chain_inv E G H bc cs \<longleftrightarrow> holds E (bc_db bc) cs \<and> linked E cs \<and> b_header ` set cs \<subseteq> H \<and>
    states_kept E G (bc_state_backend bc) cs"

lemma linked_snoc: "linked E (cs @ [b]) \<longleftrightarrow> linked E cs \<and> (cs = [] \<or> valid_next E (last cs) b)"
  by (induction E cs rule: linked.induct) auto

lemma holdsD:
  assumes "holds E d cs"
  shows "cs \<noteq> []" "c \<in> set cs \<Longrightarrow> get_block E d (block_hash E c) = Some (Some c)"
    and "i < length cs \<Longrightarrow> unat (block_height (cs ! i)) = i"
    and "head_hash E d = Some (Some (block_hash E (last cs)))"
    and "c \<in> set cs \<Longrightarrow> unat (block_height c) < length cs"
    and "unat (block_height (last cs)) + 1 = length cs"
  using assms by (auto simp: holds_def in_set_conv_nth last_conv_nth)

lemma holds_index:
  assumes "holds E d cs"
  shows "get_block_by_number E d n = Some (if unat n < length cs then Some (cs ! unat n) else None)"
proof (cases "unat n < length cs")
  case True
  then have "block_height (cs ! unat n) = n"
    using holdsD(3) [OF assms True] by (simp add: word_unat_eq_iff)
  with True assms show ?thesis by (auto simp: get_block_by_number_def holds_def)
next
  case False
  with assms show ?thesis by (simp add: get_block_by_number_def holds_def)
qed

lemma holds_append:
  assumes "chain_ok E c" "holds E d cs" "block_hash E b \<notin> block_hash E ` set cs" "unat (block_height b) = length cs"
  obtains d1 d2 where "write_block E d b = Inr d1" "write_head_hash E d1 (block_hash E b) = Inr d2" "holds E d2 (cs @ [b])"
proof -
  obtain d1 d2 where d: "write_block E d b = Inr d1" "write_head_hash E d1 (block_hash E b) = Inr d2"
    "get_block E d2 = (get_block E d)(block_hash E b \<mapsto> Some b)"
    "get_header_hash E d2 = (get_header_hash E d)(block_height b \<mapsto> Some (block_hash E b))"
    "head_hash E d2 = Some (Some (block_hash E b))"
    using bs.append_law [of "(E, c)" d b] assms(1) by auto
  have "block_height (cs ! i) \<noteq> block_height b" if "i < length cs" for i
    using that assms(4) holdsD(3) [OF assms(2) that] by auto
  moreover have "block_hash E (cs ! i) \<noteq> block_hash E b" if "i < length cs" for i
    using that assms(3) by (metis imageI nth_mem)
  ultimately have "holds E d2 (cs @ [b])"
    using assms(2,4) by (auto simp: holds_def d nth_append less_Suc_eq)
  with d(1,2) show thesis by (rule that)
qed

lemma states_kept_mono:
  assumes "storage_ok E G" "states_kept E G d cs" "archive_ok E G d'" "extends (archive_get E d) (archive_get E d')"
  shows "states_kept E G d' cs"
  using assms trie_okD(6) [OF storage_okD(3) [OF assms(1)]] unfolding states_kept_def by blast

lemma share_backend_sel [simp]:
  "bc_db (share_backend bc s) = bc_db bc" "backend (bc_state_backend (share_backend bc s)) = backend (sdb s)"
  "cached (bc_state_backend (share_backend bc s)) = cached (bc_state_backend bc)"
  "bc_genesis (share_backend bc s) = bc_genesis bc"
  by (simp_all add: share_backend_def)

lemma share_backend_ok:
  assumes "storage_ok E G" "archive_ok E G (bc_state_backend bc)" "archive_ok E G (sdb s)"
  shows "archive_ok E G (bc_state_backend (share_backend bc s))"
    and "archive_get E (bc_state_backend (share_backend bc s)) = archive_get E (sdb s)"
  using archive_ok_reopen [OF assms(1,3), of "bc_state_backend (share_backend bc s)"] assms(2)
  by (auto simp: archive_ok_def archive_clean_def)

lemma apply_transactions_ok:
  assumes "storage_ok E G" "states_kept E G (bc_state_backend bc) cs" "cur \<in> set cs"
    and "apply_transactions E bc (block_state_root cur) b = Some (root, bc')"
  shows "states_kept E G (bc_state_backend bc') cs" "\<exists>f. trie_at E (archive_get E (bc_state_backend bc')) root f"
    and "bc_db bc' = bc_db bc" "bc_genesis bc' = bc_genesis bc"
proof -
  from assms(4) obtain s' where s': "exc_txs_in_block E b (state_at bc (block_state_root cur)) address_default = Some (Inr root, s')"
    "bc' = share_backend bc s'"
    by (auto simp: apply_transactions_def unwrap_ok_def split: bind_splits sum.splits)
  obtain f where f: "state_ok E G (state_at bc (block_state_root cur)) f" "archive_ok E G (bc_state_backend bc)"
    using assms(2,3) by (auto simp: state_ok_def state_at_def states_kept_def)
  from exc_txs_in_block_commits [OF assms(1) f(1) s'(1)] obtain f' where f': "state_ok E G s' f'" "root = state_root s'"
      "extends (archive_get E (bc_state_backend bc)) (archive_get E (sdb s'))"
    by (auto simp: state_at_def)
  have a: "archive_ok E G (sdb s')" using f'(1) by (simp add: state_ok_def)
  note b = share_backend_ok [OF assms(1) f(2) a]
  show "states_kept E G (bc_state_backend bc') cs"
    unfolding s'(2) by (rule states_kept_mono [OF assms(1,2) b(1)]) (simp add: b(2) f'(3))
  show "\<exists>f. trie_at E (archive_get E (bc_state_backend bc')) root f"
    using f'(1,2) unfolding s'(2) b(2) by (auto simp: state_ok_def)
  show "bc_db bc' = bc_db bc" "bc_genesis bc' = bc_genesis bc" by (simp_all add: s'(2))
qed

lemma import_block_InlD:
  "import_block E bc b = Some (Inl e, bc') \<Longrightarrow> bc' = bc \<or>
    (\<exists>cur root. current_block E bc = Some cur \<and> apply_transactions E bc (block_state_root cur) b = Some (root, bc') \<and>
       e = block_chain_into InvalidState)"
  by (auto simp: import_block_def split: bind_splits if_splits sum.splits)

lemma import_block_InrE:
  assumes "import_block E bc b = Some (Inr u, bc')"
  obtains cur bc1 d1 d2 where "exits_block E bc (block_hash E b) (block_height b) = Some False"
    "current_block E bc = Some cur" "h_parent_hash (b_header b) = block_hash E cur"
    "validate_header E bc (b_header b) = Some (Inr ())" "validate_block E b = Inr ()"
    "apply_transactions E bc (block_state_root cur) b = Some (block_state_root b, bc1)"
    "write_block E (bc_db bc1) b = Inr d1" "write_head_hash E d1 (header_hash E (b_header b)) = Inr d2"
    "bc' = bc1\<lparr>bc_db := d2\<rparr>"
  using assms
  by (auto simp: import_block_def unwrap_ok_def split: bind_splits if_splits sum.splits)

lemma chain_inv_current:
  assumes "chain_inv E G H bc cs"
  shows "current_block E bc = Some (last cs)" "last cs \<in> set cs"
  using holdsD(1,2,4) [of E "bc_db bc" cs] assms by (auto simp: chain_inv_def current_block_def head_block_def)

lemma new_block_hash:
  assumes "holds E d cs" "b_header ` set cs \<subseteq> H" "inj_on (header_hash E) H" "b_header b \<in> H"
    and "unat (block_height b) = length cs"
  shows "block_hash E b \<notin> block_hash E ` set cs"
proof
  assume "block_hash E b \<in> block_hash E ` set cs"
  then obtain x where x: "x \<in> set cs" "header_hash E (b_header b) = header_hash E (b_header x)"
    by (auto simp: block_hash_def)
  then have "b_header b = b_header x" using assms(2-4) by (auto dest: inj_onD)
  with holdsD(5) [OF assms(1) x(1)] assms(5) show False by (simp add: block_height_def)
qed

lemma import_block_appends:
  assumes "chain_ok E c" "storage_ok E G" "overflow_checks E" "inj_on (header_hash E) H"
    and "chain_inv E G H bc cs" "b_header b \<in> H" "import_block E bc b = Some (Inr u, bc')"
  shows "chain_inv E G H bc' (cs @ [b])"
proof -
  from assms(5) have I: "holds E (bc_db bc) cs" "linked E cs" "b_header ` set cs \<subseteq> H" "states_kept E G (bc_state_backend bc) cs"
    by (simp_all add: chain_inv_def)
  note cur = chain_inv_current [OF assms(5)] and h = holdsD [OF I(1)]
  obtain bc1 d1 d2 where imp: "h_parent_hash (b_header b) = block_hash E (last cs)"
    "validate_header E bc (b_header b) = Some (Inr ())" "validate_block E b = Inr ()"
    "apply_transactions E bc (block_state_root (last cs)) b = Some (block_state_root b, bc1)"
    "write_block E (bc_db bc1) b = Inr d1" "write_head_hash E d1 (header_hash E (b_header b)) = Inr d2"
    "bc' = bc1\<lparr>bc_db := d2\<rparr>"
    using import_block_InrE [OF assms(7)] cur(1) by (metis option.inject)
  have "uadd True (block_height (last cs)) 1 = Some (block_height b)" "h_time (b_header (last cs)) < h_time (b_header b)"
    using imp(1,2) h(2) [OF cur(2)] assms(3)
    by (auto simp: validate_header_def block_height_def split: bind_splits if_splits)
  with uadd_checked_SomeD(1) imp(1,3) have vn: "valid_next E (last cs) b"
    by (fastforce simp: valid_next_def validate_block_def split: if_splits)
  with h(6) have height: "unat (block_height b) = length cs" by (simp add: valid_next_def)
  note new = new_block_hash [OF I(1,3) assms(4,6) height]
  note ap = apply_transactions_ok [OF assms(2) I(4) cur(2) imp(4)]
  obtain e1 e2 where "write_block E (bc_db bc) b = Inr e1" "write_head_hash E e1 (block_hash E b) = Inr e2" "holds E e2 (cs @ [b])"
    using holds_append [OF assms(1) I(1) new height] .
  then have "holds E d2 (cs @ [b])" using imp(5,6) ap(3) by (simp add: block_hash_def)
  then show ?thesis
    using I(2,3) h(1) vn ap(1,2) assms(6) by (auto simp: chain_inv_def linked_snoc states_kept_def imp(7))
qed

lemma import_block_rejects:
  assumes "storage_ok E G" "chain_inv E G H bc cs" "import_block E bc b = Some (Inl e, bc')"
  shows "chain_inv E G H bc' cs" "bc_db bc' = bc_db bc"
proof -
  from assms(2) have kept: "states_kept E G (bc_state_backend bc) cs" by (simp add: chain_inv_def)
  note cur = chain_inv_current [OF assms(2)]
  from import_block_InlD [OF assms(3)] cur(1) consider "bc' = bc"
    | root where "apply_transactions E bc (block_state_root (last cs)) b = Some (root, bc')" by auto
  then have "chain_inv E G H bc' cs \<and> bc_db bc' = bc_db bc"
  proof cases
    case 2
    with apply_transactions_ok(1,3) [OF assms(1) kept cur(2) 2] assms(2) show ?thesis by (simp add: chain_inv_def)
  qed (use assms(2) in simp)
  then show "chain_inv E G H bc' cs" "bc_db bc' = bc_db bc" by simp_all
qed

section \<open>Reachable chains\<close>

text \<open>A chain as \<^verbatim>\<open>BlockChain::new\<close> leaves it on empty stores.\<close>

definition chain_fresh ::
  "('kv, 'm, 't, 'r, 'z) chain_env_scheme \<Rightarrow> ('kv, 't) ghost \<Rightarrow> ('kv, 'm, 'r) block_chain \<Rightarrow> bool" where
  "chain_fresh E G bc \<longleftrightarrow> bc_genesis bc = to_genesis E \<and> archive_ok E G (bc_state_backend bc) \<and>
    trie_at E (archive_get E (bc_state_backend bc)) NULL_ROOT Map.empty \<and>
    (\<forall>n. get_header_hash E (bc_db bc) n = Some None) \<and> (\<forall>h. get_block E (bc_db bc) h \<noteq> None)"

lemma setup_genesis_ok:
  assumes "chain_ok E c" "storage_ok E G" "staking_ok E" "balance_ok E" "hex_lower_ok E" "chain_fresh E G bc"
  obtains bc' where "setup_genesis E bc = Some (genesis_hash E bc', bc')" "holds E (bc_db bc') [bc_genesis bc']"
    "states_kept E G (bc_state_backend bc') [bc_genesis bc']"
proof -
  from assms(6) have F: "bc_genesis bc = to_genesis E" "archive_ok E G (bc_state_backend bc)"
    "trie_at E (archive_get E (bc_state_backend bc)) NULL_ROOT Map.empty" "\<And>n. get_header_hash E (bc_db bc) n = Some None"
    "\<And>h. get_block E (bc_db bc) h \<noteq> None"
    by (simp_all add: chain_fresh_def)
  let ?s = "state_from_existing (bc_state_backend bc) NULL_ROOT"
  have ok: "state_ok E G ?s Map.empty" using F(2,3) by (simp add: state_ok_def)
  obtain s f where s: "setup_allocation E ?s = Some (s, state_root s)" "state_ok E G s f"
    using setup_allocation_ok [OF assms(2) ok _ assms(3-5)] by auto
  let ?g = "set_state_root (bc_genesis bc) (state_root s)"
  obtain d1 d2 where d: "write_block E (bc_db bc) ?g = Inr d1" "write_head_hash E d1 (block_hash E ?g) = Inr d2"
    "get_block E d2 = (get_block E (bc_db bc))(block_hash E ?g \<mapsto> Some ?g)"
    "get_header_hash E d2 = (get_header_hash E (bc_db bc))(block_height ?g \<mapsto> Some (block_hash E ?g))"
    "head_hash E d2 = Some (Some (block_hash E ?g))"
    using bs.append_law [of "(E, c)" "bc_db bc" ?g] assms(1) by auto
  let ?bc = "(share_backend bc s)\<lparr>bc_genesis := ?g, bc_db := d2\<rparr>"
  have h0: "block_height ?g = 0" by (simp add: F(1) to_genesis_def Let_def block_height_def set_state_root_def)
  show thesis
  proof (rule that)
    show "setup_genesis E bc = Some (genesis_hash E ?bc, ?bc)"
      by (simp add: setup_genesis_def s(1) d(1,2) genesis_hash_def Let_def)
    show "holds E (bc_db ?bc) [bc_genesis ?bc]"
      using h0 F(4,5) by (auto simp: holds_def d Suc_le_eq)
    have "archive_ok E G (sdb s)" using s(2) by (simp add: state_ok_def)
    from share_backend_ok [OF assms(2) F(2) this] s(2)
    show "states_kept E G (bc_state_backend ?bc) [bc_genesis ?bc]"
      by (auto simp: states_kept_def state_ok_def)
  qed
qed

text \<open>
  What can happen to a node: genesis, and then any blocks offered to \<^verbatim>\<open>import_block\<close>, accepted or not. The
  headers of all blocks are taken from a set \<open>H\<close>, on which the header hash is supposed not to collide.
\<close>

inductive chain_reach ::
  "('kv, 'm, 't, 'r, 'z) chain_env_scheme \<Rightarrow> header set \<Rightarrow> ('kv, 'm, 'r) block_chain \<Rightarrow> ('kv, 'm, 'r) block_chain
     \<Rightarrow> block list \<Rightarrow> bool"
  for E :: "('kv, 'm, 't, 'r, 'z) chain_env_scheme" and H bc0 where
  genesis: "\<lbrakk>setup_genesis E bc0 = Some (h, bc); b_header (bc_genesis bc) \<in> H\<rbrakk> \<Longrightarrow> chain_reach E H bc0 bc [bc_genesis bc]"
| accept: "\<lbrakk>chain_reach E H bc0 bc cs; b_header b \<in> H; import_block E bc b = Some (Inr u, bc')\<rbrakk>
    \<Longrightarrow> chain_reach E H bc0 bc' (cs @ [b])"
| reject: "\<lbrakk>chain_reach E H bc0 bc cs; import_block E bc b = Some (Inl e, bc')\<rbrakk> \<Longrightarrow> chain_reach E H bc0 bc' cs"

lemma chain_reach_inv:
  assumes "chain_reach E H bc0 bc cs"
    and "chain_ok E c" "storage_ok E G" "staking_ok E" "balance_ok E" "hex_lower_ok E" "chain_fresh E G bc0"
    and "overflow_checks E" "inj_on (header_hash E) H"
  shows "chain_inv E G H bc cs"
  using assms(1)
proof induction
  case (genesis h bc)
  then show ?case
    using setup_genesis_ok [OF assms(2-7)] by (auto simp: chain_inv_def)
next
  case (accept bc cs b u bc')
  then show ?case
    using import_block_appends [OF assms(2,3,8,9)] by blast
next
  case (reject bc cs b e bc')
  then show ?case
    using import_block_rejects(1) [OF assms(3)] by blast
qed

text \<open>
  C1. Every reachable chain is one line of blocks from genesis to the head: each block is found by its
  height and by its hash, follows its predecessor (parent hash, height plus one, later time, matching
  transaction and signature roots), nothing lies above the head, and the state of every block is
  still readable.
\<close>

theorem reachable_chain_consistent:
  assumes "chain_reach E H bc0 bc cs"
    and "chain_ok E c" "storage_ok E G" "staking_ok E" "balance_ok E" "hex_lower_ok E" "chain_fresh E G bc0"
    and "overflow_checks E" "inj_on (header_hash E) H"
  shows "linked E cs \<and> current_block E bc = Some (last cs) \<and>
    (\<forall>n. get_block_by_number E (bc_db bc) n = Some (if unat n < length cs then Some (cs ! unat n) else None)) \<and>
    (\<forall>b \<in> set cs. get_block E (bc_db bc) (block_hash E b) = Some (Some b) \<and>
       (\<exists>f. \<forall>k. get_storage E (state_at bc (block_state_root b)) k = Some (f (as_bytes k))))"
proof -
  note inv = chain_reach_inv [OF assms]
  then have I: "holds E (bc_db bc) cs" "linked E cs" "states_kept E G (bc_state_backend bc) cs"
    by (simp_all add: chain_inv_def)
  have "\<exists>f. \<forall>k. get_storage E (state_at bc (block_state_root b)) k = Some (f (as_bytes k))" if b: "b \<in> set cs" for b
  proof -
    obtain f where "state_ok E G (state_at bc (block_state_root b)) f"
      using I(3) b by (auto simp: states_kept_def state_ok_def state_at_def)
    from state_ok_get_storage [OF this] show ?thesis
      by (intro exI [of _ f]) (simp add: state_at_def)
  qed
  moreover have "get_block E (bc_db bc) (block_hash E b) = Some (Some b)" if "b \<in> set cs" for b
    using holdsD(2) [OF I(1) that] .
  ultimately show ?thesis
    using I(2) chain_inv_current(1) [OF inv] holds_index [OF I(1)] by simp
qed

section \<open>Import, branch by branch\<close>

text \<open>\<^verbatim>\<open>import_block\<close> on a consistent chain, with its reads of the store resolved.\<close>

lemma import_block_eq:
  assumes "holds E (bc_db bc) cs" "overflow_checks E" "length cs < 2 ^ 64"
  shows "import_block E bc b =
    (if unat (block_height b) < length cs then Some (Inl (block_chain_into KnownBlock), bc)
     else if h_parent_hash (b_header b) \<noteq> block_hash E (last cs) then Some (Inl (block_chain_into UnknownAncestor), bc)
     else if unat (block_height b) \<noteq> length cs then Some (Inl (block_chain_into InvalidBlockHeight), bc)
     else if h_time (b_header b) \<le> h_time (b_header (last cs)) then Some (Inl (block_chain_into InvalidBlockTime), bc)
     else if validate_block E b \<noteq> Inr () then Some (Inl (block_chain_into MismatchHash), bc)
     else do { (root, bc1) \<leftarrow> apply_transactions E bc (block_state_root (last cs)) b;
               (if block_state_root b \<noteq> root then Some (Inl (block_chain_into InvalidState), bc1)
                else do {
                  d1 \<leftarrow> unwrap_ok (write_block E (bc_db bc1) b);
                  d2 \<leftarrow> unwrap_ok (write_head_hash E d1 (header_hash E (b_header b)));
                  Some (Inr (), bc1\<lparr>bc_db := d2\<rparr>) }) })"
proof -
  note h = holdsD [OF assms(1)] and n = holds_index [OF assms(1)]
  have last: "get_block E (bc_db bc) (block_hash E (last cs)) = Some (Some (last cs))" using h(1,2) by simp
  have cur: "current_block E bc = Some (last cs)" using h(4) last by (simp add: current_block_def head_block_def)
  obtain p where p: "get_block E (bc_db bc) (h_parent_hash (b_header b)) = Some p"
    using assms(1) unfolding holds_def by blast
  have exits: "exits_block E bc x (block_height b) = Some (unat (block_height b) < length cs)" for x
    by (simp add: exits_block_def n)
  have nxt: "uadd True (block_height (last cs)) 1 = Some (block_height (last cs) + 1)"
    "h_height (b_header b) = block_height (last cs) + 1 \<longleftrightarrow> unat (block_height b) = length cs"
    using h(6) assms(3) by (auto simp: uadd_exact block_height_def word_unat_eq_iff unat_add_exact)
  have vh: "validate_header E bc (b_header b) = Some (if unat (block_height b) \<noteq> length cs
      then Inl (block_chain_into InvalidBlockHeight)
      else if h_time (b_header b) \<le> h_time (b_header (last cs)) then Inl (block_chain_into InvalidBlockTime) else Inr ())"
    if "h_parent_hash (b_header b) = block_hash E (last cs)"
    using last nxt that assms(2) by (simp add: validate_header_def block_height_def)
  have vb: "validate_block E b = Inr () \<or> validate_block E b = Inl (block_chain_into MismatchHash)"
    by (simp add: validate_block_def)
  show ?thesis
  proof (cases "h_parent_hash (b_header b) = block_hash E (last cs)")
    case True
    with last vb show ?thesis
      by (auto simp: import_block_def exits check_previous_def cur vh)
  next
    case False
    then show ?thesis by (simp add: import_block_def exits check_previous_def p cur)
  qed
qed

lemma import_block_accepts:
  assumes "chain_ok E c" "storage_ok E G" "overflow_checks E" "inj_on (header_hash E) H"
    and "chain_inv E G H bc cs" "b_header b \<in> H" "length cs < 2 ^ 64"
    and ap: "apply_transactions E bc (block_state_root (last cs)) b = Some (block_state_root b, bc1)"
    and ok: "unat (block_height b) = length cs" "h_parent_hash (b_header b) = block_hash E (last cs)"
      "\<not> h_time (b_header b) \<le> h_time (b_header (last cs))" "validate_block E b = Inr ()"
  shows "\<exists>bc'. import_block E bc b = Some (Inr (), bc') \<and> chain_inv E G H bc' (cs @ [b])"
proof -
  from assms(5) have I: "holds E (bc_db bc) cs" "b_header ` set cs \<subseteq> H" "states_kept E G (bc_state_backend bc) cs"
    by (simp_all add: chain_inv_def)
  obtain d1 d2 where "write_block E (bc_db bc) b = Inr d1" "write_head_hash E d1 (block_hash E b) = Inr d2"
    using holds_append [OF assms(1) I(1) new_block_hash [OF I(1,2) assms(4,6) ok(1)] ok(1)] .
  then have "import_block E bc b = Some (Inr (), bc1\<lparr>bc_db := d2\<rparr>)"
    using apply_transactions_ok(3) [OF assms(2) I(3) chain_inv_current(2) [OF assms(5)] ap] ok
    by (simp add: import_block_eq [OF I(1) assms(3,7)] ap block_hash_def)
  with import_block_appends [OF assms(1-6)] show ?thesis by blast
qed

text \<open>
  C2. On a consistent chain \<^verbatim>\<open>import_block\<close> answers, in this order: known block when the chain already has
  a block of that height; unknown ancestor unless the parent is the head; wrong height; wrong time;
  wrong roots, all without any change. Otherwise it runs the transactions on the state of the head: if
  this panics, so does the import; a different state root is an error that leaves the blocks as they
  were; and else the block is the new head.
\<close>

theorem import_block_cases:
  assumes "chain_ok E c" "storage_ok E G" "overflow_checks E" "inj_on (header_hash E) H"
    and "chain_inv E G H bc cs" "b_header b \<in> H" "length cs < 2 ^ 64"
  shows "if unat (block_height b) < length cs then import_block E bc b = Some (Inl (block_chain_into KnownBlock), bc)
    else if h_parent_hash (b_header b) \<noteq> block_hash E (last cs)
    then import_block E bc b = Some (Inl (block_chain_into UnknownAncestor), bc)
    else if unat (block_height b) \<noteq> length cs
    then import_block E bc b = Some (Inl (block_chain_into InvalidBlockHeight), bc)
    else if h_time (b_header b) \<le> h_time (b_header (last cs))
    then import_block E bc b = Some (Inl (block_chain_into InvalidBlockTime), bc)
    else if validate_block E b \<noteq> Inr ()
    then import_block E bc b = Some (Inl (block_chain_into MismatchHash), bc)
    else (case apply_transactions E bc (block_state_root (last cs)) b of
       None \<Rightarrow> import_block E bc b = None
     | Some (root, bc1) \<Rightarrow>
         (if root \<noteq> block_state_root b
          then import_block E bc b = Some (Inl (block_chain_into InvalidState), bc1) \<and> bc_db bc1 = bc_db bc
          else \<exists>bc'. import_block E bc b = Some (Inr (), bc') \<and> chain_inv E G H bc' (cs @ [b])))"
proof -
  from assms(5) have I: "holds E (bc_db bc) cs" "b_header ` set cs \<subseteq> H" "states_kept E G (bc_state_backend bc) cs"
    by (simp_all add: chain_inv_def)
  note eq = import_block_eq [OF I(1) assms(3,7)] and cur = chain_inv_current [OF assms(5)]
  note append = import_block_accepts [OF assms]
  show ?thesis
  proof (cases "apply_transactions E bc (block_state_root (last cs)) b")
    case None
    then show ?thesis by (simp add: eq)
  next
    case (Some r)
    obtain root bc1 where r: "r = (root, bc1)" by (rule prod.exhaust)
    note ap = Some [unfolded r]
    show ?thesis
    proof (cases "root = block_state_root b")
      case True
      show ?thesis
        unfolding ap option.case prod.case
        using append [OF ap [unfolded True]] by (simp add: eq True)
    next
      case False
      then show ?thesis
        using apply_transactions_ok(3) [OF assms(2) I(3) cur(2) ap] by (simp add: eq ap)
    qed
  qed
qed

text \<open>
  C18. A block in which everything fits the chain but one transaction fails is not answered with an
  error: \<^verbatim>\<open>apply_transactions\<close> unwraps the result of the executor, so the import panics.
\<close>

theorem import_block_panics:
  assumes "holds E (bc_db bc) cs" "overflow_checks E" "length cs < 2 ^ 64"
    and "unat (block_height b) = length cs" "h_parent_hash (b_header b) = block_hash E (last cs)"
      "h_time (b_header (last cs)) < h_time (b_header b)" "validate_block E b = Inr ()"
    and "exc_txs_in_block E b (state_at bc (block_state_root (last cs))) address_default = Some (Inl e, s')"
  shows "import_block E bc b = None"
proof -
  have "apply_transactions E bc (block_state_root (last cs)) b = None"
    using assms(8) by (simp add: apply_transactions_def unwrap_ok_def)
  with assms(4-7) show ?thesis by (simp add: import_block_eq [OF assms(1-3)])
qed

end
