(* ===== verification/Sample.thy ===== *)
theory Sample
  imports State "HOL-Library.List_Lexorder"
begin

text \<open>
  A concrete environment: executable functions in place of the third-party crates, with proofs that
  they satisfy what the code relies on. The witnesses of the properties evaluate the model in it.
  Digests and signatures are injective on the inputs the witnesses use and nothing more; the trie
  is one node that holds its whole dictionary, sorted.
\<close>

section \<open>Hex and digests\<close>

definition hex_value :: "char \<Rightarrow> nat option" where
  "hex_value c =
    (let n = (of_char c :: nat)
     in if 48 \<le> n \<and> n \<le> 57 then Some (n - 48)
        else if 97 \<le> n \<and> n \<le> 102 then Some (n - 87)
        else if 65 \<le> n \<and> n \<le> 70 then Some (n - 55) else None)"

fun sample_hex_decode :: "string \<Rightarrow> hex_error + bytes" where
  "sample_hex_decode [] = Inr []"
| "sample_hex_decode [c] = Inl OddLength"
| "sample_hex_decode (a # b # rest) =
    (case (hex_value a, hex_value b) of
       (Some x, Some y) \<Rightarrow>
         (case sample_hex_decode rest of Inl e \<Rightarrow> Inl e | Inr bs \<Rightarrow> Inr (of_nat (16 * x + y) # bs))
     | _ \<Rightarrow> Inl InvalidHexCharacter)"

definition sample_blake2b :: "bytes \<Rightarrow> bytes" where
  "sample_blake2b bs =
    (if length bs = 32 then 2 # drop 1 bs
     else if length bs = 64 then 1 # drop 1 (take 32 bs)
     else 3 # take 31 (rev bs @ replicate 31 0))"

definition sample_crates :: crates where
  "sample_crates = \<lparr>overflow_checks = True, blake2b = sample_blake2b,
    hex_encode = (\<lambda>bs. concat (map hex_byte bs)), hex_decode = sample_hex_decode\<rparr>"

lemma sample_digest_ok [simp]: "digest_ok sample_crates"
  by (auto simp: digest_ok_def sample_crates_def sample_blake2b_def)

section \<open>Keys\<close>

definition sample_len :: "nat \<Rightarrow> bytes \<Rightarrow> string + bytes" where
  "sample_len n bs = (if length bs = n then Inr bs else Inl ''length'')"

definition sample_sign :: "bytes \<Rightarrow> bytes \<Rightarrow> bytes" where
  "sample_sign msg pk = take 32 (msg @ replicate 32 0) @ take 32 (pk @ replicate 32 0)"

definition sample_dalek :: dalek where
  "sample_dalek = crates.extend sample_crates
    (dalek.fields (sample_len 32) (\<lambda>sk. sk) (sample_len 32) (\<lambda>sk msg pk. sample_sign msg pk) (sample_len 64)
      (\<lambda>pk msg sig. if sig = sample_sign msg pk then Inr () else Inl ''verify''))"

lemma sample_dalek_sel [simp]:
  "overflow_checks sample_dalek = True"
  "blake2b sample_dalek = sample_blake2b"
  "hex_encode sample_dalek = (\<lambda>bs. concat (map hex_byte bs))"
  "hex_decode sample_dalek = sample_hex_decode"
  "secret_from_bytes sample_dalek = sample_len 32"
  "public_from_secret sample_dalek = (\<lambda>sk. sk)"
  "public_from_bytes sample_dalek = sample_len 32"
  "expanded_sign sample_dalek = (\<lambda>sk msg pk. sample_sign msg pk)"
  "signature_from_bytes sample_dalek = sample_len 64"
  "public_verify sample_dalek = (\<lambda>pk msg sig. if sig = sample_sign msg pk then Inr () else Inl ''verify'')"
  by (simp_all add: sample_dalek_def crates.defs dalek.defs sample_crates_def)

lemma sample_dalek_key_ok [simp]: "length sk = 32 \<Longrightarrow> dalek_key_ok sample_dalek sk"
  by (auto simp: dalek_key_ok_def sample_len_def sample_sign_def)

section \<open>MemoryDB\<close>

type_synonym sample_mem = "(hash \<times> bytes \<times> int) list"

definition sample_emplace :: "sample_mem \<Rightarrow> hash \<Rightarrow> bytes \<Rightarrow> sample_mem" where
  "sample_emplace m k v =
    (if k = NULL_ROOT \<or> v = EMPTY_TRIE then m else AList.update k (mdb_emplaced (map_of m k) v) m)"

definition sample_mdb :: "sample_mem memory_db_impl" where
  "sample_mdb = \<lparr>
    mdb_new = (\<lambda>_. []),
    mdb_raw = (\<lambda>m k _. if k = NULL_ROOT then Some (EMPTY_TRIE, 1) else map_of m k),
    mdb_insert = (\<lambda>m _ v. if v = EMPTY_TRIE then (m, NULL_ROOT)
      else let k = blake2_hasher_hash sample_dalek v in (sample_emplace m k v, k)),
    mdb_emplace = (\<lambda>m k _ v. sample_emplace m k v),
    mdb_remove = (\<lambda>m k _. if k = NULL_ROOT then m else AList.update k (mdb_removed (map_of m k)) m),
    mdb_drain = (\<lambda>m. (AList.clearjunk m, []))\<rparr>"

section \<open>The trie\<close>

text \<open>The node of a dictionary: its entries, each byte string as marked bytes closed by a zero.\<close>

type_synonym sample_trie = "(bytes \<times> bytes) list"

definition enc_bytes :: "bytes \<Rightarrow> bytes" where
  "enc_bytes bs = concat (map (\<lambda>b. [1, b]) bs) @ [0]"

fun dec_bytes :: "bytes \<Rightarrow> bytes list" where
  "dec_bytes [] = []"
| "dec_bytes [x] = [[]]"
| "dec_bytes (x # b # r) =
    (if x = 0 then [] # dec_bytes (b # r)
     else case dec_bytes r of [] \<Rightarrow> [[b]] | y # ys \<Rightarrow> (b # y) # ys)"

fun pair_up :: "bytes list \<Rightarrow> sample_trie" where
  "pair_up (k # v # r) = (k, v) # pair_up r"
| "pair_up _ = []"

definition enc_trie :: "sample_trie \<Rightarrow> bytes" where
  "enc_trie t = concat (map (\<lambda>(k, v). enc_bytes k @ enc_bytes v) t)"

definition dec_trie :: "bytes \<Rightarrow> sample_trie" where
  "dec_trie bs = pair_up (dec_bytes bs)"

definition canonical :: "sample_trie \<Rightarrow> bool" where
  "canonical t \<longleftrightarrow> sorted (map fst t) \<and> distinct (map fst t)"

definition trie_insert :: "sample_trie \<Rightarrow> bytes \<Rightarrow> bytes \<Rightarrow> sample_trie" where
  "trie_insert t k v =
    (let u = filter (\<lambda>x. fst x \<noteq> k) t in if v = [] then u else insort_key fst (k, v) u)"

definition sample_open :: "lookup \<Rightarrow> hash \<Rightarrow> sample_trie option" where
  "sample_open lk root =
    (if root = NULL_ROOT then Some []
     else case lk root EMPTY_PREFIX of
       Some (Some bs) \<Rightarrow> if canonical (dec_trie bs) then Some (dec_trie bs) else None
     | _ \<Rightarrow> None)"

definition sample_trie_impl :: "sample_trie trie_impl" where
  "sample_trie_impl = \<lparr>
    trie_new = (\<lambda>lk root. sample_open lk root \<noteq> None),
    trie_get = (\<lambda>lk root k. map_option (\<lambda>t. map_of t k) (sample_open lk root)),
    tmut_from_existing = sample_open,
    tmut_insert = (\<lambda>_ t k v. Some (trie_insert t k v)),
    tmut_remove = (\<lambda>_ t k. Some (trie_insert t k [])),
    tmut_drop = (\<lambda>_ t. ([Emplace (Hash (enc_trie t)) EMPTY_PREFIX (enc_trie t)], Hash (enc_trie t)))\<rparr>"

lemma dec_enc_bytes: "dec_bytes (enc_bytes bs @ r) = bs # dec_bytes r"
proof (induction bs)
  case Nil
  then show ?case by (cases r) (simp_all add: enc_bytes_def)
next
  case (Cons b bs)
  then show ?case by (simp add: enc_bytes_def)
qed

lemma dec_enc_trie: "dec_trie (enc_trie t) = t"
  by (induction t) (auto simp: dec_trie_def enc_trie_def dec_enc_bytes)

lemma keys_distinct_insort:
  "keys_distinct (insort_key fst x xs) \<longleftrightarrow> fst x \<notin> fst ` set xs \<and> keys_distinct xs"
  by (induction xs) (auto simp: set_insort_key)

lemma map_of_insort:
  "k \<notin> fst ` set xs \<Longrightarrow> map_of (insort_key fst (k, v) xs) = (map_of xs)(k \<mapsto> v)"
  by (induction xs) auto

lemma map_of_filter_key: "map_of (filter (\<lambda>x. fst x \<noteq> k) xs) = (map_of xs)(k := None)"
  by (induction xs) (auto simp: fun_eq_iff)

lemma trie_insert_canonical: "canonical t \<Longrightarrow> canonical (trie_insert t k v)"
  by (auto simp: canonical_def trie_insert_def sorted_insort_key keys_distinct_insort Let_def
      sorted_filter distinct_map_filter)

lemma trie_insert_content:
  "map_of (trie_insert t k v) = (map_of t)(k := (if v = [] then None else Some v))"
proof -
  have "k \<notin> fst ` set (filter (\<lambda>x. fst x \<noteq> k) t)" by auto
  from map_of_insort [OF this] show ?thesis
    by (simp add: trie_insert_def Let_def map_of_filter_key)
qed

lemma canonical_unique:
  assumes "canonical t" "canonical u" "map_of t = map_of u"
  shows "t = u"
proof (rule map_sorted_distinct_set_unique [of fst])
  show "set t = set u"
    using assms by (simp add: canonical_def map_of_inject_set)
  then show "inj_on fst (set t \<union> set u)"
    using assms(2) by (simp add: canonical_def distinct_map)
qed (use assms in \<open>auto simp: canonical_def\<close>)

section \<open>The environment of the state storage\<close>

definition sample_payload_codec :: "payload codec" where
  "sample_payload_codec = \<lparr>ser = (\<lambda>p. to_le_bytes 4 (p_count p) @ p_value p),
    de = (\<lambda>bs. if length bs < 4 then None
      else Some \<lparr>p_count = from_le_bytes (take 4 bs), p_value = drop 4 bs\<rparr>)\<rparr>"

definition sample_storage :: "(memory_kv, sample_mem, sample_trie) storage_env" where
  "sample_storage = dalek.extend sample_dalek
    (storage_env.fields memory_kv_impl sample_mdb sample_trie_impl sample_payload_codec)"

lemma sample_storage_dalek [simp]: "dalek.truncate sample_storage = sample_dalek"
  by (simp add: sample_storage_def dalek.defs storage_env.defs)

lemma sample_storage_sel [simp]:
  "overflow_checks sample_storage = True"
  "blake2b sample_storage = sample_blake2b"
  "kv sample_storage = memory_kv_impl"
  "mdb sample_storage = sample_mdb"
  "trie sample_storage = sample_trie_impl"
  "payload_codec sample_storage = sample_payload_codec"
  by (simp_all add: sample_storage_def dalek.defs storage_env.defs)

text \<open>The environments of the later components extend this one; what follows holds in all of them.\<close>

definition sample_like :: "(memory_kv, sample_mem, sample_trie, 'z) storage_env_scheme \<Rightarrow> bool" where
  "sample_like E \<longleftrightarrow> blake2b E = sample_blake2b \<and> kv E = memory_kv_impl \<and> mdb E = sample_mdb \<and>
    trie E = sample_trie_impl \<and> payload_codec E = sample_payload_codec"

lemma sample_likeD:
  assumes "sample_like E"
  shows "blake2b E = sample_blake2b" "kv E = memory_kv_impl" "mdb E = sample_mdb" "trie E = sample_trie_impl"
    "payload_codec E = sample_payload_codec"
  using assms by (simp_all add: sample_like_def)

lemma sample_like_storage [simp]: "sample_like sample_storage"
  by (simp add: sample_like_def)

lemma sample_memory_db_ok:
  assumes "sample_like E"
  shows "memory_db_ok E"
  unfolding memory_db_ok_def sample_likeD [OF assms]
  by (auto simp: sample_mdb_def mdb_empty_def sample_emplace_def Let_def blake2_hasher_hash_def
      blake2b_256_def inner_blake2b_256_def map_of_clearjunk distinct_clearjunk sample_likeD [OF assms])

lemma hash_enc_trie_not_null: "Hash (enc_trie t) \<noteq> NULL_ROOT" "enc_trie t \<noteq> EMPTY_TRIE"
proof -
  have "enc_trie t = [] \<or> hd (enc_trie t) \<in> {0, 1}"
    by (cases t; cases "fst (hd t)") (auto simp: enc_trie_def enc_bytes_def split: prod.splits)
  then show "Hash (enc_trie t) \<noteq> NULL_ROOT" "enc_trie t \<noteq> EMPTY_TRIE"
    by (auto simp: NULL_ROOT_def HASHED_NULL_NODE_BYTES_def EMPTY_TRIE_def)
qed

lemma sample_trie_at:
  "sample_like E \<Longrightarrow> trie_at E lk root f \<longleftrightarrow> (\<exists>t. sample_open lk root = Some t \<and> f = map_of t)"
  by (auto simp: trie_at_def sample_likeD(4) sample_trie_impl_def fun_eq_iff)

definition sample_ghost :: "(memory_kv, sample_trie) ghost" where
  "sample_ghost = \<lparr>g_content = (\<lambda>d. map_of (kv_map d)), g_trie = map_of, g_live = (\<lambda>_. canonical), g_node = as_bytes\<rparr>"

lemma sample_trie_ok:
  assumes E: "sample_like E"
  shows "trie_ok E sample_ghost"
  unfolding trie_ok_def
proof (intro conjI allI impI, goal_cases)
  case (1 lk root f)
  then show ?case
    by (auto simp: sample_trie_at [OF E] sample_likeD(4) [OF E] sample_trie_impl_def sample_open_def canonical_def sample_ghost_def
        split: if_splits option.splits)
next
  case (4 lk t)
  then show ?case
    by (intro exI [of _ "{Hash (enc_trie t)}"])
      (auto simp: nodes_written_def has_nodes_def sample_trie_at [OF E] sample_likeD(4) [OF E] sample_trie_impl_def sample_open_def
        hash_enc_trie_not_null dec_enc_trie sample_ghost_def)
next
  case (6 lk lk' root f)
  then show ?case
    by (auto simp: sample_trie_at [OF E] sample_open_def extends_def split: option.splits if_splits)
qed (auto simp: sample_likeD(4) [OF E] sample_trie_impl_def sample_ghost_def trie_insert_canonical trie_insert_content dest: canonical_unique)

lemma sample_storage_ok: "sample_like E \<Longrightarrow> storage_ok E sample_ghost"
  using memory_kv_ok sample_memory_db_ok [of E] sample_trie_ok [of E]
  by (simp add: storage_ok_def sample_ghost_def sample_likeD)

section \<open>Witnesses of the properties of the state storage\<close>

definition sample_genesis_state :: "(memory_kv, sample_mem) state_db" where
  "sample_genesis_state = state_new (archive_new sample_storage memory_kv_new)"

lemma sample_archive_ok:
  assumes "sample_like E"
  shows "archive_ok E sample_ghost (archive_new E memory_kv_new)"
  using archive_new_clean [OF sample_memory_db_ok [OF assms], of memory_kv_new]
  by (auto simp: archive_ok_def archive_get_def archive_new_def sample_mdb_def sample_likeD [OF assms]
      archive_payload_def memory_kv_impl_def memory_kv_get_def memory_kv_new_def)

lemma sample_state_new_ok:
  "sample_like E \<Longrightarrow> state_ok E sample_ghost (state_new (archive_new E memory_kv_new)) Map.empty"
  by (auto simp: state_ok_def state_new_def sample_archive_ok sample_trie_at sample_open_def)

lemma sample_genesis_state_ok: "state_ok sample_storage sample_ghost sample_genesis_state Map.empty"
  by (simp add: sample_genesis_state_def sample_state_new_ok)

definition sample_state :: "(memory_kv, sample_mem) state_db" where
  "sample_state = set_storage (set_storage (set_storage sample_genesis_state (Hash [7]) [5]) (Hash [8]) [])
    (Hash [3]) [1, 2]"

lemma sample_state_ok: "state_ok sample_storage sample_ghost sample_state Map.empty"
  unfolding sample_state_def by (intro state_ok_set sample_genesis_state_ok)

theorem state_commit_persists_witness:
  "\<exists>s'. state_commit sample_storage sample_state = Some s' \<and>
    (let r = state_from_existing (archive_new sample_storage (backend (sdb s'))) (state_root s')
     in get_storage sample_storage r (Hash [7]) = Some (Some [5]) \<and>
        get_storage sample_storage r (Hash [8]) = Some None \<and>
        get_storage sample_storage r (Hash [3]) = Some (Some [1, 2]))"
proof -
  have "get_storage sample_storage sample_state (Hash [7]) = Some (Some [5])"
    "get_storage sample_storage sample_state (Hash [8]) = Some (Some [])"
    "get_storage sample_storage sample_state (Hash [3]) = Some (Some [1, 2])"
    "map_of (local_changes sample_state) (Hash [8]) = Some (Some [])"
    by (simp_all add: sample_state_def set_storage_def get_storage_def sample_genesis_state_def state_new_def)
  then show ?thesis
    using state_commit_persists [OF sample_storage_ok [OF sample_like_storage] sample_state_ok] by (auto simp: Let_def)
qed

theorem state_commit_root_order_witness:
  "map_option state_root (state_commit sample_storage (sample_state\<lparr>local_changes := rev (local_changes sample_state)\<rparr>))
    = map_option state_root (state_commit sample_storage sample_state)"
  by (rule state_commit_root_order [OF sample_storage_ok [OF sample_like_storage] sample_state_ok]) simp_all

end
