(* ===== verification/Sample_Chain.thy ===== *)
theory Sample_Chain
  imports Blockchain Sample
begin

text \<open>
  The concrete environment of \<open>Sample\<close>, extended by what the chain needs: codecs of its records and a
  store of blocks, and the witnesses of the properties of accounts, staking, execution and the chain.
\<close>

section \<open>Codecs\<close>

text \<open>A record is encoded as the list of its fields, each a byte string, and a list as that of its elements.\<close>

definition enc_list :: "bytes list \<Rightarrow> bytes" where
  "enc_list xs = concat (map enc_bytes xs)"

lemma dec_enc_list [simp]: "dec_bytes (enc_list xs) = xs"
  by (induction xs) (simp_all add: enc_list_def dec_enc_bytes)

definition fields_codec :: "('a \<Rightarrow> bytes list) \<Rightarrow> (bytes list \<Rightarrow> 'a option) \<Rightarrow> 'a codec" where
  "fields_codec f g = \<lparr>ser = (\<lambda>x. enc_list (f x)), de = (\<lambda>bs. g (dec_bytes bs))\<rparr>"

lemma fields_codec_ok [simp]: "codec_ok (fields_codec f g) \<longleftrightarrow> (\<forall>x. g (f x) = Some x)"
  by (simp add: codec_ok_def fields_codec_def)

definition list_codec :: "'a codec \<Rightarrow> 'a list codec" where
  "list_codec c = fields_codec (map (ser c)) (\<lambda>bs. those (map (de c) bs))"

lemma list_codec_ok: "codec_ok c \<Longrightarrow> codec_ok (list_codec c)"
proof -
  have "those (map (de c \<circ> ser c) xs) = Some xs" if "codec_ok c" for xs
    using that by (induction xs) simp_all
  then show "codec_ok c \<Longrightarrow> codec_ok (list_codec c)" by (simp add: list_codec_def)
qed

definition word_field :: "'w::len word \<Rightarrow> bytes" where
  "word_field w = to_le_bytes 16 w"

definition option_field :: "hash option \<Rightarrow> bytes" where
  "option_field h = (case h of None \<Rightarrow> [] | Some x \<Rightarrow> 1 # as_bytes x)"

definition field_option :: "bytes \<Rightarrow> hash option" where
  "field_option bs = (case bs of [] \<Rightarrow> None | _ # x \<Rightarrow> Some (Hash x))"

lemma word_field [simp]:
  "from_le_bytes (word_field (w :: u8)) = w" "from_le_bytes (word_field (x :: u32)) = x"
  "from_le_bytes (word_field (y :: u64)) = y" "from_le_bytes (word_field (z :: u128)) = z"
  "from_le_bytes (to_le_bytes 8 (h :: u64)) = h"
  by (simp_all add: word_field_def from_to_bytes)

lemma field_option [simp]: "field_option (option_field h) = h"
  by (auto simp: field_option_def option_field_def split: option.splits)

fun transfer_fields :: "bytes list \<Rightarrow> msg_transfer option" where
  "transfer_fields [r, v] = Some \<lparr>mt_receiver = Address r, mt_value = from_le_bytes v\<rparr>"
| "transfer_fields _ = None"

definition sample_transfer :: "msg_transfer codec" where
  "sample_transfer = fields_codec (\<lambda>m. [as_slice (mt_receiver m), word_field (mt_value m)]) transfer_fields"

fun tx_hash_fields :: "bytes list \<Rightarrow> tx_hash_type option" where
  "tx_hash_fields [c, n, p, g, m, d] = Some \<lparr>ht_chainid = from_le_bytes c, ht_nonce = from_le_bytes n,
     ht_gas_price = from_le_bytes p, ht_gas = from_le_bytes g, ht_call = m, ht_data = d\<rparr>"
| "tx_hash_fields _ = None"

definition sample_tx_hash :: "tx_hash_type codec" where
  "sample_tx_hash = fields_codec (\<lambda>t. [word_field (ht_chainid t), word_field (ht_nonce t), word_field (ht_gas_price t),
     word_field (ht_gas t), ht_call t, ht_data t]) tx_hash_fields"

fun header_fields :: "bytes list \<Rightarrow> header option" where
  "header_fields [p, s, vo, g, r, t, si, st, ti, h] = Some \<lparr>h_height = from_le_bytes h, h_parent_hash = Hash p,
     h_slot = from_le_bytes s, h_vrf_output = vo, h_vrf_proof = VRFProof g r, h_tx_root = Hash t, h_sign_root = Hash si,
     h_state_root = Hash st, h_time = from_le_bytes ti\<rparr>"
| "header_fields _ = None"

definition sample_header :: "header codec" where
  "sample_header = fields_codec (\<lambda>h. [as_bytes (h_parent_hash h), word_field (h_slot h), h_vrf_output h,
     vrf_gamma (h_vrf_proof h), vrf_rest (h_vrf_proof h), as_bytes (h_tx_root h), as_bytes (h_sign_root h),
     as_bytes (h_state_root h), word_field (h_time h), to_le_bytes 8 (h_height h)]) header_fields"

fun transaction_fields :: "bytes list \<Rightarrow> transaction option" where
  "transaction_fields [s, n, p, g, m, d, a, b, c] = Some \<lparr>tx_sender = Address s, tx_nonce = from_le_bytes n,
     tx_gas_price = from_le_bytes p, tx_gas = from_le_bytes g, tx_call = m, tx_data = d, tx_sign_data = (a, b, c)\<rparr>"
| "transaction_fields _ = None"

definition sample_transaction :: "transaction codec" where
  "sample_transaction = fields_codec (\<lambda>t. [as_slice (tx_sender t), word_field (tx_nonce t), word_field (tx_gas_price t),
     word_field (tx_gas t), tx_call t, tx_data t, fst (tx_sign_data t), fst (snd (tx_sign_data t)),
     snd (snd (tx_sign_data t))]) transaction_fields"

definition sign_fields :: "bytes list \<Rightarrow> verification_item option" where
  "sign_fields bs = (case bs of [m, r, s, p] \<Rightarrow> Some \<lparr>v_msg = Hash m, v_signs = SignatureInfo r s p\<rparr> | _ \<Rightarrow> None)"

definition sample_sign_item :: "verification_item codec" where
  "sample_sign_item = fields_codec (\<lambda>v. [as_bytes (v_msg v), sig_r (v_signs v), sig_s (v_signs v), sig_p (v_signs v)]) sign_fields"

definition proof_fields :: "bytes list \<Rightarrow> block_proof option" where
  "proof_fields bs = (case bs of [a, b, t] \<Rightarrow> Some (BlockProof a b (from_le_bytes t)) | _ \<Rightarrow> None)"

definition sample_proof :: "block_proof codec" where
  "sample_proof = fields_codec (\<lambda>p. [bp_0 p, bp_1 p, word_field (bp_2 p)]) proof_fields"

definition block_fields :: "bytes list \<Rightarrow> block option" where
  "block_fields bs =
    (case bs of
       [h, si, t, p] \<Rightarrow>
         do { h' \<leftarrow> de sample_header h; si' \<leftarrow> de (list_codec sample_sign_item) si;
              t' \<leftarrow> de (list_codec sample_transaction) t; p' \<leftarrow> de (list_codec sample_proof) p;
              Some \<lparr>b_header = h', b_signs = si', b_txs = t', b_proofs = p'\<rparr> }
     | _ \<Rightarrow> None)"

definition sample_block :: "block codec" where
  "sample_block = fields_codec (\<lambda>b. [ser sample_header (b_header b), ser (list_codec sample_sign_item) (b_signs b),
     ser (list_codec sample_transaction) (b_txs b), ser (list_codec sample_proof) (b_proofs b)]) block_fields"

definition account_fields :: "bytes list \<Rightarrow> account option" where
  "account_fields bs = (case bs of [b, n, l] \<Rightarrow>
     Some \<lparr>a_balance = from_le_bytes b, a_nonce = from_le_bytes n, a_locked_balance = from_le_bytes l\<rparr> | _ \<Rightarrow> None)"

definition sample_account :: "account codec" where
  "sample_account = fields_codec (\<lambda>a. [word_field (a_balance a), word_field (a_nonce a), word_field (a_locked_balance a)]) account_fields"

definition locking_fields :: "bytes list \<Rightarrow> locking_balance option" where
  "locking_fields bs = (case bs of [a, h] \<Rightarrow> Some \<lparr>lb_amount = from_le_bytes a, lb_height = from_le_bytes h\<rparr> | _ \<Rightarrow> None)"

definition sample_locking :: "locking_balance codec" where
  "sample_locking = fields_codec (\<lambda>l. [word_field (lb_amount l), word_field (lb_height l)]) locking_fields"

fun entry_fields :: "bytes list \<Rightarrow> validator list_entry option" where
  "entry_fields [pre, nxt, a, k, b, e, ac, ex, d, u] =
     do { d' \<leftarrow> de (list_codec sample_locking) d; u' \<leftarrow> de (list_codec sample_locking) u;
          Some \<lparr>le_pre = field_option pre, le_next = field_option nxt, le_payload =
            \<lparr>val_address = Address a, val_pubkey = k, val_balance = from_le_bytes b, val_effective_balance = from_le_bytes e,
             val_activate_height = from_le_bytes ac, val_exit_height = from_le_bytes ex,
             val_deposit_queue = d', val_unlocked_queue = u'\<rparr>\<rparr> }"
| "entry_fields _ = None"

definition sample_entry :: "validator list_entry codec" where
  "sample_entry = fields_codec (\<lambda>e. let v = le_payload e in
     [option_field (le_pre e), option_field (le_next e), as_slice (val_address v), val_pubkey v, word_field (val_balance v),
      word_field (val_effective_balance v), word_field (val_activate_height v), word_field (val_exit_height v),
      ser (list_codec sample_locking) (val_deposit_queue v), ser (list_codec sample_locking) (val_unlocked_queue v)]) entry_fields"

definition create_fields :: "bytes list \<Rightarrow> msg_validator_create option" where
  "create_fields bs = (case bs of [p, a] \<Rightarrow> Some \<lparr>mvc_pubkey = p, mvc_amount = from_le_bytes a\<rparr> | _ \<Rightarrow> None)"

definition sample_create :: "msg_validator_create codec" where
  "sample_create = fields_codec (\<lambda>m. [mvc_pubkey m, word_field (mvc_amount m)]) create_fields"

definition sample_u128 :: "u128 codec" where
  "sample_u128 = \<lparr>ser = word_field, de = (\<lambda>bs. Some (from_le_bytes bs))\<rparr>"

lemma sample_codecs_ok [simp]:
  "codec_ok sample_transfer" "codec_ok sample_tx_hash" "codec_ok sample_header" "codec_ok sample_transaction"
  "codec_ok sample_sign_item" "codec_ok sample_proof" "codec_ok sample_account" "codec_ok sample_locking"
  "codec_ok sample_create"
  by (simp_all add: sample_transfer_def sample_tx_hash_def sample_header_def sample_transaction_def sample_sign_item_def
      sample_proof_def sample_account_def sample_locking_def sample_create_def
      sign_fields_def proof_fields_def account_fields_def locking_fields_def create_fields_def)

lemma sample_nested_codecs_ok [simp]: "codec_ok sample_block" "codec_ok sample_entry"
  by (simp_all add: sample_block_def sample_entry_def block_fields_def list_codec_ok Let_def)

section \<open>The environment\<close>

definition sample_rocks :: "memory_kv rocksdb" where
  "sample_rocks = \<lparr>rocks_get = (\<lambda>r k. Inr (map_of (kv_map r) k)),
    rocks_put = (\<lambda>r k v. Inr (r\<lparr>kv_map := AList.update k v (kv_map r)\<rparr>)),
    rocks_delete = (\<lambda>r k. Inr (r\<lparr>kv_map := AList.delete k (kv_map r)\<rparr>))\<rparr>"

definition sample_chain :: "(memory_kv, sample_mem, sample_trie, memory_kv) chain_env" where
  "sample_chain =
    \<lparr>overflow_checks = True, blake2b = sample_blake2b, hex_encode = (\<lambda>bs. concat (map hex_byte bs)), hex_decode = sample_hex_decode,
     secret_from_bytes = sample_len 32, public_from_secret = (\<lambda>sk. sk), public_from_bytes = sample_len 32,
     expanded_sign = (\<lambda>sk msg pk. sample_sign msg pk), signature_from_bytes = sample_len 64,
     public_verify = (\<lambda>pk msg sig. if sig = sample_sign msg pk then Inr () else Inl ''verify''),
     kv = memory_kv_impl, mdb = sample_mdb, trie = sample_trie_impl, payload_codec = sample_payload_codec,
     transfer_codec = sample_transfer, tx_hash_codec = sample_tx_hash,
     header_codec = sample_header, txs_codec = list_codec sample_transaction, signs_codec = list_codec sample_sign_item,
     account_codec = sample_account, entry_codec = sample_entry, validator_create_codec = sample_create,
     u128_codec = sample_u128, rocks = sample_rocks, block_codec = sample_block\<rparr>"

lemma sample_chain_sel [simp]:
  "overflow_checks sample_chain" "blake2b sample_chain = sample_blake2b" "hex_decode sample_chain = sample_hex_decode"
  "transfer_codec sample_chain = sample_transfer" "header_codec sample_chain = sample_header"
  "account_codec sample_chain = sample_account" "entry_codec sample_chain = sample_entry"
  "rocks sample_chain = sample_rocks" "block_codec sample_chain = sample_block"
  by (simp_all add: sample_chain_def)

lemma sample_like_chain [simp]: "sample_like sample_chain" "sample_like (sample_chain\<lparr>overflow_checks := False\<rparr>)"
  by (simp_all add: sample_like_def sample_chain_def)

text \<open>The storage keys of different addresses differ, and the keys of accounts and validators do not meet.\<close>

lemma padded_address:
  assumes "address_wf a"
  shows "as_bytes (hash_from_bytes (as_slice a)) = replicate 12 0 @ as_slice a"
  using assms by (simp add: hash_from_bytes_def address_wf_def)

lemma sample_keys:
  assumes "address_wf a" "blake2b E = sample_blake2b"
  shows "address_key E a = Hash (2 # replicate 11 0 @ as_slice a)" "key_index E a = Hash (1 # replicate 11 0 @ as_slice a)"
  using assms(1) unfolding address_key_def key_index_def Let_def padded_address [OF assms(1)]
  by (simp_all add: blake2b_256_def inner_blake2b_256_def assms(2) sample_blake2b_def address_wf_def hash_from_bytes_def)

lemma sample_balance_ok:
  assumes "blake2b E = sample_blake2b" "account_codec E = sample_account"
  shows "balance_ok E"
  using assms by (auto simp: balance_ok_def inj_on_def sample_keys intro: address.expand)

lemma sample_balance_oks [simp]: "balance_ok sample_chain" "balance_ok (sample_chain\<lparr>overflow_checks := False\<rparr>)"
  by (simp_all add: sample_balance_ok sample_chain_def)

lemma sample_digest [simp]: "digest_ok sample_chain"
  by (auto simp: digest_ok_def sample_blake2b_def)

lemma sample_staking_ok [simp]: "staking_ok sample_chain"
  by (auto simp: staking_ok_def inj_on_def sample_keys head_key_def prefix_validator_def hash_from_bytes_def
      numeral_eq_Suc intro: address.expand)

lemma hex_value_digit: "n < 16 \<Longrightarrow> hex_value (hex_digit n) = Some n"
  by (auto simp: hex_value_def hex_digit_def numeral_eq_Suc less_Suc_eq)

lemma sample_hex_decode_byte:
  "sample_hex_decode (hex_byte b @ r) = (case sample_hex_decode r of Inl e \<Rightarrow> Inl e | Inr bs \<Rightarrow> Inr (b # bs))"
proof -
  have "unat b div 16 < 16" using unat_bound [of b] by (intro less_mult_imp_div_less) simp
  then have "hex_value (hex_digit (unat b div 16)) = Some (unat b div 16)" by (rule hex_value_digit)
  then show ?thesis
    by (simp add: hex_byte_def hex_value_digit del: of_nat_add of_nat_mult split: sum.splits)
qed

lemma sample_hex_ok [simp]: "hex_lower_ok sample_chain"
proof -
  have "sample_hex_decode (concat (map hex_byte bs)) = Inr bs" for bs
    by (induction bs) (simp_all add: sample_hex_decode_byte)
  then show ?thesis by (simp add: hex_lower_ok_def)
qed

lemma sample_chain_ok [simp]: "chain_ok sample_chain (\<lambda>r. map_of (kv_map r))"
  by (auto simp: chain_ok_def rocksdb_ok_def sample_rocks_def update_conv' delete_conv')

section \<open>Accounts\<close>

definition addr_a :: address where "addr_a = Address (replicate 20 1)"
definition addr_b :: address where "addr_b = Address (replicate 20 2)"

lemma sample_addresses [simp]: "address_wf addr_a" "address_wf addr_b" "addr_a \<noteq> addr_b" "addr_b \<noteq> addr_a"
  by (simp_all add: addr_a_def addr_b_def address_wf_def numeral_eq_Suc)

definition sample_ledger :: "u128 \<Rightarrow> address \<Rightarrow> account" where
  "sample_ledger v = (\<lambda>_. account_default)(addr_a := account_default\<lparr>a_balance := v\<rparr>)"

definition sample_accounts :: "(memory_kv, sample_mem, sample_trie, 'z) balance_env_scheme \<Rightarrow> u128 \<Rightarrow> (memory_kv, sample_mem) state_db" where
  "sample_accounts E v = set_account E (state_new (archive_new E memory_kv_new)) addr_a (account_default\<lparr>a_balance := v\<rparr>)"

lemma sample_ledger_of:
  assumes "sample_like E" "balance_ok E"
  shows "ledger_of E (sample_accounts E v) (sample_ledger v)"
proof -
  have "ledger_of E (state_new (archive_new E memory_kv_new)) (\<lambda>_. account_default)"
    using state_ok_get_storage [OF sample_state_new_ok [OF assms(1)]]
    by (simp add: ledger_of_def load_account_def state_new_def)
  with assms(2) show ?thesis unfolding sample_accounts_def sample_ledger_def by (rule ledger_of_set) simp
qed

lemma sample_ledger_sel [simp]:
  "sample_ledger v addr_a = account_default\<lparr>a_balance := v\<rparr>" "sample_ledger v addr_b = account_default"
  by (simp_all add: sample_ledger_def)

lemma sample_supply [simp]: "total_supply {addr_a, addr_b} (sample_ledger v) = unat v"
  by (simp add: total_supply_def worth_def account_default_def)

theorem transfer_refines_move_witness:
  "\<exists>s'. transfer sample_chain (sample_accounts sample_chain 100) addr_a addr_b 30 = Some s' \<and>
    load_account sample_chain s' addr_a = Some (account_default\<lparr>a_balance := 70\<rparr>) \<and>
    load_account sample_chain s' addr_b = Some (account_default\<lparr>a_balance := 30\<rparr>)"
proof -
  have "\<exists>s'. transfer sample_chain (sample_accounts sample_chain 100) addr_a addr_b 30 = Some s' \<and>
      ledger_of sample_chain s' (move addr_a addr_b 30 (sample_ledger 100)) \<and>
      total_supply {addr_a, addr_b} (move addr_a addr_b 30 (sample_ledger 100)) = total_supply {addr_a, addr_b} (sample_ledger 100)"
    by (rule transfer_refines_move) (simp_all add: sample_ledger_of)
  then show ?thesis
    by (auto simp: ledger_of_def move_def credit_def debit_def account_default_def)
qed

theorem lock_balance_cases_witness:
  "(\<exists>s'. lock_balance sample_chain (sample_accounts sample_chain 100) addr_a 30 = Some s' \<and>
      load_account sample_chain s' addr_a = Some \<lparr>a_balance = 70, a_nonce = 0, a_locked_balance = 30\<rparr>) \<and>
    lock_balance sample_chain (sample_accounts sample_chain 100) addr_a 101 = None"
proof -
  note c = lock_balance_cases [of sample_chain "sample_accounts sample_chain 100" "sample_ledger 100" addr_a "{addr_a, addr_b}",
      OF sample_balance_oks(1) sample_ledger_of]
  have "\<exists>s'. lock_balance sample_chain (sample_accounts sample_chain 100) addr_a 30 = Some s' \<and>
      ledger_of sample_chain s' (lock addr_a 30 (sample_ledger 100))"
    using c [of 30] by (simp add: account_default_def) blast
  then show ?thesis
    using c [of 101] by (auto simp: ledger_of_def lock_def account_default_def)
qed

section \<open>Staking\<close>

abbreviation sample_purse :: "(memory_kv, sample_mem) state_db" where
  "sample_purse \<equiv> sample_accounts sample_chain 100"

lemma sample_purse_no_validators: "validators_of sample_chain (get_storage sample_chain sample_purse) []"
proof -
  have "validators_of sample_chain (get_storage sample_chain (state_new (archive_new sample_chain memory_kv_new))) []"
    using state_ok_get_storage [OF sample_state_new_ok [OF sample_like_chain(1)]]
    by (simp add: validators_of_def vals_wf_def state_new_def)
  then show ?thesis
    unfolding sample_accounts_def by (rule validators_of_set_account [OF sample_staking_ok]) simp
qed

definition sample_validator :: validator where
  "sample_validator = new_validator addr_a [9] 5"

lemma sample_validator_sel [simp]:
  "val_address sample_validator = addr_a" "val_balance sample_validator = 5" "val_deposit_queue sample_validator = []"
  by (simp_all add: sample_validator_def new_validator_def validator_create_def)

definition sample_registry :: "(memory_kv, sample_mem) state_db" where
  "sample_registry = the (staking_insert sample_chain sample_purse sample_validator)"

lemma sample_registry_ok:
  "validators_of sample_chain (get_storage sample_chain sample_registry) [sample_validator]"
  "ledger_of sample_chain sample_registry (sample_ledger 100)"
proof -
  obtain s' where s': "staking_insert sample_chain sample_purse sample_validator = Some s'"
    "validators_of sample_chain (get_storage sample_chain s') [sample_validator]"
    "\<And>k. k \<noteq> head_key \<Longrightarrow> k \<notin> map_key sample_chain ` set [sample_validator] \<Longrightarrow>
       get_storage sample_chain s' k = get_storage sample_chain sample_purse k"
    by (rule staking_insert_refines [OF sample_staking_ok sample_purse_no_validators, of sample_validator]) auto
  then show "validators_of sample_chain (get_storage sample_chain sample_registry) [sample_validator]"
    by (simp add: sample_registry_def)
  have "ledger_of sample_chain s' (sample_ledger 100)"
    by (rule ledger_of_frame [OF sample_staking_ok validators_ofD(2) [OF s'(2)] sample_ledger_of s'(3)]) simp_all
  then show "ledger_of sample_chain sample_registry (sample_ledger 100)"
    using s'(1) by (simp add: sample_registry_def)
qed

theorem set_item_list_witness:
  "\<exists>s'. set_item sample_chain sample_purse sample_validator = Some s' \<and>
    validator_set sample_chain s' = Some (Some [sample_validator]) \<and>
    get_validator sample_chain s' addr_a = Some (Some sample_validator)"
proof -
  have "put_validator sample_validator [] = [sample_validator]" by (simp add: put_validator_def)
  with set_item_list [OF sample_staking_ok sample_purse_no_validators, of sample_validator] show ?thesis
    by auto
qed

theorem delete_list_witness:
  "\<exists>s'. staking_delete sample_chain sample_registry addr_a = Some s' \<and>
    validator_set sample_chain s' = Some (Some []) \<and> get_validator sample_chain s' addr_a = Some None"
proof -
  have "remove_validator addr_a [sample_validator] = []" by (simp add: remove_validator_def)
  with delete_list [OF sample_staking_ok sample_registry_ok(1), of addr_a] show ?thesis by auto
qed

theorem validate_new_witness:
  "\<exists>s'. validate sample_chain sample_purse addr_a [9] 40 = Some s' \<and>
    validators_of sample_chain (get_storage sample_chain s') [new_validator addr_a [9] 40] \<and>
    load_account sample_chain s' addr_a = Some \<lparr>a_balance = 60, a_nonce = 0, a_locked_balance = 40\<rparr>"
proof -
  have "\<exists>s'. validate sample_chain sample_purse addr_a [9] 40 = Some s' \<and>
      validators_of sample_chain (get_storage sample_chain s') (new_validator addr_a [9] 40 # []) \<and>
      ledger_of sample_chain s' (lock addr_a 40 (sample_ledger 100))"
    by (rule validate_new [OF _ _ sample_purse_no_validators]) (simp_all add: sample_ledger_of account_default_def)
  then show ?thesis by (auto simp: ledger_of_def lock_def account_default_def)
qed

theorem deposit_existing_witness:
  "\<exists>s'. deposit sample_chain sample_registry addr_a 40 = Some s' \<and>
    validators_of sample_chain (get_storage sample_chain s')
      [sample_validator\<lparr>val_deposit_queue := [\<lparr>lb_amount = 40, lb_height = 0\<rparr>], val_balance := 45\<rparr>] \<and>
    load_account sample_chain s' addr_a = Some \<lparr>a_balance = 60, a_nonce = 0, a_locked_balance = 40\<rparr>"
proof -
  have "\<exists>s'. deposit sample_chain sample_registry addr_a 40 = Some s' \<and>
      ledger_of sample_chain s' (lock addr_a 40 (sample_ledger 100)) \<and>
      validators_of sample_chain (get_storage sample_chain s') (put_validator
        (sample_validator\<lparr>val_deposit_queue := val_deposit_queue sample_validator @ [\<lparr>lb_amount = 40, lb_height = 0\<rparr>],
           val_balance := val_balance sample_validator + 40\<rparr>) [sample_validator])"
    by (rule deposit_existing [OF _ _ sample_registry_ok]) (simp_all add: find_validator_def account_default_def)
  then show ?thesis by (auto simp: ledger_of_def lock_def account_default_def put_validator_def)
qed

text \<open>A validator with one queued deposit, as \<^verbatim>\<open>deposit\<close> leaves it.\<close>

definition sample_queued :: validator where
  "sample_queued = sample_validator\<lparr>val_deposit_queue := [\<lparr>lb_amount = 40, lb_height = 0\<rparr>]\<rparr>"

definition sample_queue_state :: "(memory_kv, sample_mem) state_db" where
  "sample_queue_state = the (set_item sample_chain sample_purse sample_queued)"

theorem activate_deposit_stuck_witness:
  "activate_deposit sample_chain sample_queue_state addr_a = Some None"
proof -
  have "address_wf (val_address sample_queued)" by (simp add: sample_queued_def)
  from reg.put_law [OF sample_staking_ok sample_purse_no_validators this]
  have "get_validator sample_chain sample_queue_state addr_a = Some (Some sample_queued)"
    using reg.get_law [OF sample_staking_ok, of _ _ addr_a]
    by (auto simp: sample_queue_state_def put_validator_def find_validator_def sample_queued_def)
  from activate_deposit_stuck [OF this] show ?thesis by (simp add: sample_queued_def)
qed

section \<open>Genesis and execution\<close>

definition sample_key :: bytes where "sample_key = replicate 32 7"

lemma sample_key_ok [simp]:
  "dalek_key_ok sample_chain sample_key" "dalek_key_ok (sample_chain\<lparr>overflow_checks := False\<rparr>) sample_key"
  by (auto simp: dalek_key_ok_def sample_chain_def sample_len_def sample_sign_def sample_key_def)


text \<open>A transfer of \<open>v\<close> from \<open>addr_a\<close> to \<open>addr_b\<close>, before and after it is signed with a key that is nobody's.\<close>

definition sample_raw_tx :: "u128 \<Rightarrow> transaction" where
  "sample_raw_tx v = transaction_new addr_a 1 0 0 [] (ser sample_transfer \<lparr>mt_receiver = addr_b, mt_value = v\<rparr>)"

definition sample_tx :: "(memory_kv, sample_mem, sample_trie, 'z) tx_env_scheme \<Rightarrow> u128 \<Rightarrow> transaction" where
  "sample_tx E v = (case tx_sign E (sample_raw_tx v) sample_key of Some (Inr tx) \<Rightarrow> tx | _ \<Rightarrow> sample_raw_tx v)"

lemma sample_tx_sel [simp]:
  "tx_sender (sample_raw_tx v) = addr_a" "tx_nonce (sample_raw_tx v) = 1"
  "tx_data (sample_raw_tx v) = ser sample_transfer \<lparr>mt_receiver = addr_b, mt_value = v\<rparr>"
  by (simp_all add: sample_raw_tx_def transaction_new_def)

lemma sample_tx_signed:
  assumes "dalek_key_ok E sample_key"
  shows "verify_sign E (sample_tx E v) = Some (Inr ())" "tx_sender (sample_tx E v) = addr_a" "tx_nonce (sample_tx E v) = 1"
    "tx_data (sample_tx E v) = ser sample_transfer \<lparr>mt_receiver = addr_b, mt_value = v\<rparr>"
proof -
  from tx_sign_ok [OF assms, of "sample_raw_tx v"] obtain si
    where "sample_tx E v = set_sign_data (sample_raw_tx v) si" "verify_sign E (set_sign_data (sample_raw_tx v) si) = Some (Inr ())"
    by (auto simp: sample_tx_def)
  then show "verify_sign E (sample_tx E v) = Some (Inr ())" "tx_sender (sample_tx E v) = addr_a" "tx_nonce (sample_tx E v) = 1"
    "tx_data (sample_tx E v) = ser sample_transfer \<lparr>mt_receiver = addr_b, mt_value = v\<rparr>"
    by (simp_all add: set_sign_data_def)
qed

lemmas sample_tx_chain [simp] = sample_tx_signed [OF sample_key_ok(1)] sample_tx_signed [OF sample_key_ok(2)]

abbreviation sample_pay :: msg_transfer where
  "sample_pay \<equiv> \<lparr>mt_receiver = addr_b, mt_value = 30\<rparr>"

theorem exc_transfer_tx_spec_witness:
  "(\<exists>s'. exc_transfer_tx sample_chain (sample_tx sample_chain 30) (sample_accounts sample_chain 50000) = Some (Inr hash_default, s') \<and>
      load_account sample_chain s' addr_a = Some \<lparr>a_balance = 39970, a_nonce = 1, a_locked_balance = 0\<rparr> \<and>
      load_account sample_chain s' addr_b = Some \<lparr>a_balance = 30, a_nonce = 0, a_locked_balance = 0\<rparr>) \<and>
    exc_transfer_tx sample_chain (sample_tx sample_chain 30) (sample_accounts sample_chain 10029) =
      Some (Inl (internal_into BalanceNotEnough), sample_accounts sample_chain 10029)"
proof -
  note spec = exc_transfer_tx_spec [of sample_chain "sample_accounts sample_chain v" "sample_ledger v" "sample_tx sample_chain 30"
      sample_pay "{addr_a, addr_b}" for v, OF sample_balance_oks(1) sample_ledger_of]
  have paid: "\<exists>s'. exc_transfer_tx sample_chain (sample_tx sample_chain 30) (sample_accounts sample_chain 50000) = Some (Inr hash_default, s') \<and>
      ledger_of sample_chain s' (paid addr_a addr_b 30 (sample_ledger 50000))"
    using spec [of 50000] by (simp add: account_default_def transfer_fee_def Let_def)
  moreover have "exc_transfer_tx sample_chain (sample_tx sample_chain 30) (sample_accounts sample_chain 10029) =
      Some (Inl (internal_into BalanceNotEnough), sample_accounts sample_chain 10029)"
    using spec [of 10029] by (simp add: account_default_def transfer_fee_def)
  ultimately show ?thesis
    by (auto simp: ledger_of_def paid_def credit_def debit_def next_nonce_def account_default_def transfer_fee_def)
qed

theorem forged_sender_accepted_witness:
  "\<exists>stx s'. tx_sign sample_chain (sample_raw_tx 30) sample_key = Some (Inr stx) \<and>
    exc_transfer_tx sample_chain stx (sample_accounts sample_chain 50000) = Some (Inr hash_default, s') \<and>
    balance sample_chain s' addr_a = Some 39970 \<and> pubkey_into_address sample_chain \<lparr>pub_inner = H256 sample_key\<rparr> \<noteq> Some addr_a"
proof -
  have "\<exists>stx s'. tx_sign sample_chain (sample_raw_tx 30) sample_key = Some (Inr stx) \<and>
      exc_transfer_tx sample_chain stx (sample_accounts sample_chain 50000) = Some (Inr hash_default, s') \<and>
      ledger_of sample_chain s' (paid (tx_sender (sample_raw_tx 30)) (mt_receiver sample_pay) (mt_value sample_pay) (sample_ledger 50000))"
    by (rule forged_sender_accepted [where A = "{addr_a, addr_b}"])
      (simp_all add: sample_ledger_of account_default_def transfer_fee_def)
  moreover have "pubkey_into_address sample_chain \<lparr>pub_inner = H256 sample_key\<rparr> \<noteq> Some addr_a"
    by (simp add: pubkey_into_address_def sample_key_def addr_a_def pubkey_to_bytes_def blake2b_256_def
        inner_blake2b_256_def sample_blake2b_def drop_Cons')
  ultimately show ?thesis
    by (auto simp: ledger_of_def balance_def paid_def credit_def debit_def next_nonce_def account_default_def transfer_fee_def)
qed

abbreviation sample_tx_block :: block where
  "sample_tx_block \<equiv> block_default\<lparr>b_txs := [sample_tx sample_chain 30]\<rparr>"

lemma sample_accounts_ok: "sample_like E \<Longrightarrow> state_ok E sample_ghost (sample_accounts E v) Map.empty"
  unfolding sample_accounts_def set_account_def by (intro state_ok_set sample_state_new_ok)

lemma sample_block_runs:
  "\<exists>root s'. exc_txs_in_block sample_chain sample_tx_block (sample_accounts sample_chain 50000) addr_b = Some (Inr root, s')"
proof -
  obtain s1 where s1: "exc_transfer_tx sample_chain (sample_tx sample_chain 30) (sample_accounts sample_chain 50000) = Some (Inr hash_default, s1)"
    "ledger_of sample_chain s1 (paid addr_a addr_b 30 (sample_ledger 50000))"
    using exc_transfer_tx_paid [of sample_chain "sample_accounts sample_chain 50000" "sample_ledger 50000" "sample_tx sample_chain 30"
        sample_pay "{addr_a, addr_b}"]
    by (auto simp: sample_ledger_of account_default_def transfer_fee_def)
  obtain s2 where s2: "add_balance sample_chain s1 addr_b transfer_fee = Some s2"
    using add_balance_ledger [OF sample_balance_oks(1) s1(2), of addr_b transfer_fee]
    by (auto simp: paid_def credit_def account_default_def transfer_fee_def)
  have "exc_txs sample_chain [sample_tx sample_chain 30] (sample_accounts sample_chain 50000) addr_b = Some (Inr (), s2)"
    by (simp add: s1(1) s2)
  moreover from exc_txs_state_ok [OF sample_accounts_ok this] obtain s3 where "state_commit sample_chain s2 = Some s3"
    using state_commit_get [OF sample_storage_ok, of sample_chain s2 Map.empty] by auto
  ultimately show ?thesis by (auto simp: exc_txs_in_block_def get_txs_def balance_commit_def)
qed


theorem unchecked_build_mints_witness:
  "\<exists>s'. exc_transfer_tx (sample_chain\<lparr>overflow_checks := False\<rparr>)
      (sample_tx (sample_chain\<lparr>overflow_checks := False\<rparr>) 340282366920938463463374607431768206456)
      (sample_accounts (sample_chain\<lparr>overflow_checks := False\<rparr>) 5000) = Some (Inr hash_default, s') \<and>
    balance (sample_chain\<lparr>overflow_checks := False\<rparr>) s' addr_b = Some 340282366920938463463374607431768206456"
proof -
  let ?E = "sample_chain\<lparr>overflow_checks := False\<rparr>"
  have "\<exists>s'. exc_transfer_tx ?E (sample_tx ?E 340282366920938463463374607431768206456) (sample_accounts ?E 5000) = Some (Inr hash_default, s') \<and>
      balance ?E s' (mt_receiver \<lparr>mt_receiver = addr_b, mt_value = 340282366920938463463374607431768206456\<rparr>) =
        Some (mt_value \<lparr>mt_receiver = addr_b, mt_value = 340282366920938463463374607431768206456\<rparr>) \<and>
      2 ^ 128 - 10000 \<le> unat (mt_value \<lparr>mt_receiver = addr_b, mt_value = 340282366920938463463374607431768206456\<rparr>)"
    by (rule unchecked_build_mints [OF _ sample_ledger_of])
      (simp_all add: account_default_def transfer_fee_def)
  then show ?thesis by simp
qed

section \<open>Consensus and the store of blocks\<close>

theorem finalize_then_verify_witness:
  "\<exists>b'. finalize_block sample_chain \<lparr>poa_validator = sample_key\<rparr> block_default (Hash [4]) = Some (Inr b') \<and>
    poa_verify_block sample_chain \<lparr>poa_validator = sample_key\<rparr> b' = Some (Inr ()) \<and> block_state_root b' = Hash [4]"
  using finalize_then_verify [of sample_chain "\<lparr>poa_validator = sample_key\<rparr>" block_default _ "Hash [4]"]
  by (auto simp: block_default_def)

abbreviation sample_store :: "memory_kv chain_db" where
  "sample_store \<equiv> \<lparr>cdb = \<lparr>db_inner = memory_kv_new\<rparr>\<rparr>"

theorem write_block_roundtrip_witness:
  "\<exists>d'. write_block sample_chain sample_store block_default = Inr d' \<and>
    get_block sample_chain d' (block_hash sample_chain block_default) = Some (Some block_default) \<and>
    get_block_by_number sample_chain d' 0 = Some (Some block_default)"
  using write_block_roundtrip [OF sample_chain_ok, of sample_store block_default]
  by (auto simp: block_height_def block_default_def header_default_def)

theorem delete_block_removes_witness:
  "\<exists>d'. delete_block sample_chain sample_store (Hash [4]) = Inr d' \<and> get_block sample_chain d' (Hash [4]) = Some None"
  using delete_block_removes [OF sample_chain_ok, of sample_store "Hash [4]"] by auto

section \<open>The chain\<close>

lemma sample_header_hash_height:
  assumes "header_hash sample_chain h = header_hash sample_chain h'"
  shows "h_height h = h_height h'"
proof -
  have len: "length (enc_bytes bs) = 2 * length bs + 1" for bs
    by (induction bs) (simp_all add: enc_bytes_def)
  have split: "\<exists>A. ser sample_header x = A @ enc_bytes (to_le_bytes 8 (h_height x)) \<and> length A > 64" for x
    by (simp add: sample_header_def fields_codec_def enc_list_def len word_field_def)
  have "take 17 (tl (as_bytes (header_hash sample_chain x))) = rev (enc_bytes (to_le_bytes 8 (h_height x)))" for x
    using split [of x] by (auto simp: header_hash_def blake2b_256_def inner_blake2b_256_def sample_blake2b_def len)
  from this [of h] this [of h'] assms have "enc_bytes (to_le_bytes 8 (h_height h)) = enc_bytes (to_le_bytes 8 (h_height h'))"
    by simp
  then have "to_le_bytes 8 (h_height h) = to_le_bytes 8 (h_height h')"
    using dec_enc_bytes [of _ "[]"] by (metis append_Nil2 list.inject)
  then show ?thesis by (metis word_field(5))
qed

abbreviation sample_node :: "(memory_kv, sample_mem, memory_kv) block_chain" where
  "sample_node \<equiv> block_chain_new sample_chain \<lparr>db_inner = memory_kv_new\<rparr> memory_kv_new []"

lemma sample_node_fresh: "chain_fresh sample_chain sample_ghost sample_node"
proof -
  have "trie_at sample_chain lk NULL_ROOT Map.empty" for lk
    by (simp add: sample_trie_at sample_open_def)
  then show ?thesis
    using sample_archive_ok [OF sample_like_chain(1)]
    by (auto simp: chain_fresh_def block_chain_new_def get_header_hash_def get_block_def
        map_db_get_def sample_rocks_def memory_kv_new_def)
qed

text \<open>The node after genesis, and an empty block that follows.\<close>

definition sample_started :: "(memory_kv, sample_mem, memory_kv) block_chain" where
  "sample_started = snd (the (setup_genesis sample_chain sample_node))"

definition sample_next :: block where
  "sample_next =
    (let g = bc_genesis sample_started;
         b = block_default\<lparr>b_header := header_default\<lparr>h_height := 1, h_parent_hash := block_hash sample_chain g,
           h_time := GENESIS_TIME + 1, h_tx_root := get_hash_from_txs sample_chain [],
           h_sign_root := get_hash_from_signs sample_chain []\<rparr>\<rparr>
     in set_state_root b (fst (the (apply_transactions sample_chain sample_started (block_state_root g) b))))"

definition sample_headers :: "header set" where
  "sample_headers = {b_header (bc_genesis sample_started), b_header sample_next}"

lemma sample_started_ok:
  "setup_genesis sample_chain sample_node = Some (genesis_hash sample_chain sample_started, sample_started)"
  "chain_inv sample_chain sample_ghost sample_headers sample_started [bc_genesis sample_started]"
  "bc_genesis sample_started = set_state_root (to_genesis sample_chain) (block_state_root (bc_genesis sample_started))"
proof -
  obtain bc where bc: "setup_genesis sample_chain sample_node = Some (genesis_hash sample_chain bc, bc)"
    "holds sample_chain (bc_db bc) [bc_genesis bc]" "states_kept sample_chain sample_ghost (bc_state_backend bc) [bc_genesis bc]"
    by (rule setup_genesis_ok [OF sample_chain_ok sample_storage_ok [OF sample_like_chain(1)] sample_staking_ok
          sample_balance_oks(1) sample_hex_ok sample_node_fresh])
  then have eq: "sample_started = bc" by (simp add: sample_started_def)
  show "setup_genesis sample_chain sample_node = Some (genesis_hash sample_chain sample_started, sample_started)"
    using bc(1) by (simp add: eq)
  show "chain_inv sample_chain sample_ghost sample_headers sample_started [bc_genesis sample_started]"
    using bc(2,3) by (simp add: chain_inv_def sample_headers_def eq)
  show "bc_genesis sample_started = set_state_root (to_genesis sample_chain) (block_state_root (bc_genesis sample_started))"
    using bc(1) unfolding eq
    by (auto simp: setup_genesis_def Let_def block_chain_new_def set_state_root_def block_state_root_def split: bind_splits)
qed

lemma sample_next_sel [simp]:
  "block_height sample_next = 1" "b_txs sample_next = []" "b_signs sample_next = []"
  "h_parent_hash (b_header sample_next) = block_hash sample_chain (bc_genesis sample_started)"
  "h_time (b_header sample_next) = GENESIS_TIME + 1" "validate_block sample_chain sample_next = Inr ()"
  by (simp_all add: sample_next_def Let_def set_state_root_def block_height_def block_default_def validate_block_def)

lemma sample_genesis_sel [simp]:
  "block_height (bc_genesis sample_started) = 0" "h_time (b_header (bc_genesis sample_started)) = GENESIS_TIME"
  by (subst sample_started_ok(3), simp add: to_genesis_def Let_def set_state_root_def block_height_def)+

lemma sample_headers_inj: "inj_on (header_hash sample_chain) sample_headers"
proof -
  have "h_height (b_header (bc_genesis sample_started)) \<noteq> h_height (b_header sample_next)"
    using sample_genesis_sel(1) sample_next_sel(1) by (simp add: block_height_def)
  then have "header_hash sample_chain (b_header (bc_genesis sample_started)) \<noteq> header_hash sample_chain (b_header sample_next)"
    using sample_header_hash_height by blast
  then show ?thesis by (auto simp: sample_headers_def)
qed

lemma sample_next_applies:
  "\<exists>bc1. apply_transactions sample_chain sample_started (block_state_root (bc_genesis sample_started)) sample_next =
    Some (block_state_root sample_next, bc1)"
proof -
  let ?g = "bc_genesis sample_started"
  have same: "apply_transactions sample_chain sample_started h b = apply_transactions sample_chain sample_started h b'"
    if "b_txs b = b_txs b'" for b b' h
    using that by (simp add: apply_transactions_def exc_txs_in_block_def get_txs_def)
  obtain f where "state_ok sample_chain sample_ghost (state_at sample_started (block_state_root ?g)) f"
    using sample_started_ok(2) by (auto simp: chain_inv_def states_kept_def state_ok_def state_at_def)
  then obtain s' where "state_commit sample_chain (state_at sample_started (block_state_root ?g)) = Some s'"
    using state_commit_get [OF sample_storage_ok [OF sample_like_chain(1)]] by blast
  then have ap: "apply_transactions sample_chain sample_started (block_state_root ?g) b = Some (state_root s', share_backend sample_started s')"
    if "b_txs b = []" for b
    using that by (simp add: apply_transactions_def exc_txs_in_block_def get_txs_def balance_commit_def)
  then show ?thesis
    by (simp add: sample_next_def Let_def set_state_root_def block_state_root_def block_default_def)
qed

theorem import_block_cases_witness:
  "\<exists>bc'. import_block sample_chain sample_started sample_next = Some (Inr (), bc') \<and>
    current_block sample_chain bc' = Some sample_next"
proof -
  obtain bc1 where ap: "apply_transactions sample_chain sample_started (block_state_root (bc_genesis sample_started)) sample_next =
      Some (block_state_root sample_next, bc1)"
    using sample_next_applies by blast
  have "b_header sample_next \<in> sample_headers" by (simp add: sample_headers_def)
  from import_block_cases [OF sample_chain_ok sample_storage_ok [OF sample_like_chain(1)] _ sample_headers_inj sample_started_ok(2) this]
  obtain bc' where imp: "import_block sample_chain sample_started sample_next = Some (Inr (), bc')"
    and inv: "chain_inv sample_chain sample_ghost sample_headers bc' ([bc_genesis sample_started] @ [sample_next])"
    by (auto simp: ap GENESIS_TIME_def)
  then show ?thesis using chain_inv_current(1) [OF inv] by simp
qed

theorem reachable_chain_consistent_witness:
  "\<exists>bc. chain_reach sample_chain sample_headers sample_node bc [bc_genesis sample_started, sample_next] \<and>
    current_block sample_chain bc = Some sample_next \<and>
    get_block_by_number sample_chain (bc_db bc) 1 = Some (Some sample_next) \<and>
    get_block_by_number sample_chain (bc_db bc) 2 = Some None"
proof -
  have H: "b_header (bc_genesis sample_started) \<in> sample_headers" "b_header sample_next \<in> sample_headers"
    by (simp_all add: sample_headers_def)
  from sample_next_applies obtain bc1 where
    ap: "apply_transactions sample_chain sample_started (block_state_root (last [bc_genesis sample_started])) sample_next =
      Some (block_state_root sample_next, bc1)" by auto
  from import_block_accepts [OF sample_chain_ok sample_storage_ok [OF sample_like_chain(1)] sample_chain_sel(1) sample_headers_inj
      sample_started_ok(2) H(2) _ ap]
  obtain bc where "import_block sample_chain sample_started sample_next = Some (Inr (), bc)"
    by (auto simp: GENESIS_TIME_def)
  from chain_reach.accept [OF chain_reach.genesis [OF sample_started_ok(1) H(1)] H(2) this]
  have reach: "chain_reach sample_chain sample_headers sample_node bc [bc_genesis sample_started, sample_next]" by simp
  from reachable_chain_consistent [OF this sample_chain_ok sample_storage_ok [OF sample_like_chain(1)] sample_staking_ok
      sample_balance_oks(1) sample_hex_ok sample_node_fresh sample_chain_sel(1) sample_headers_inj]
  have "current_block sample_chain bc = Some sample_next"
    "\<And>n. get_block_by_number sample_chain (bc_db bc) n =
      Some (if unat n < 2 then Some ([bc_genesis sample_started, sample_next] ! unat n) else None)" by simp_all
  with reach show ?thesis by auto
qed

definition sample_bad_next :: block where
  "sample_bad_next =
    sample_next\<lparr>b_txs := [sample_raw_tx 30],
      b_header := (b_header sample_next)\<lparr>h_tx_root := get_hash_from_txs sample_chain [sample_raw_tx 30]\<rparr>\<rparr>"

theorem import_block_panics_witness: "import_block sample_chain sample_started sample_bad_next = None"
proof -
  have "\<exists>x xs. blake2b_256 sample_chain bs = x # xs \<and> x \<noteq> 0" for bs
    by (simp add: blake2b_256_def inner_blake2b_256_def sample_blake2b_def BLANK_HASH_def)
  then obtain x xs where h: "as_bytes (tx_hash sample_chain (sample_raw_tx 30)) = x # xs" "x \<noteq> 0"
    unfolding tx_hash_def hash.sel by blast
  have "replicate 64 0 \<noteq> sample_sign (x # xs) (replicate 32 0)"
    using h(2) by (simp add: sample_sign_def numeral_eq_Suc)
  with h(1) have "\<exists>e. verify_sign sample_chain (sample_raw_tx 30) = Some (Inl e)"
    by (simp add: verify_sign_def pubkey_from_bytes_def slice_def copy_from_slice_def sample_raw_tx_def transaction_new_def
        pubkey_verify_def to_signature_def get_sign_data_def signature_make_def sample_chain_def sample_len_def
        pubkey_to_pubkey_def pubkey_to_bytes_def to_msg_def replicate_add [symmetric])
  then obtain e where "exc_txs_in_block sample_chain sample_bad_next s address_default = Some (Inl e, s)" for s
    by (auto simp: exc_txs_in_block_def sample_bad_next_def get_txs_def exc_transfer_tx_def get_to_address_def verify_tx_sign_def)
  moreover have "holds sample_chain (bc_db sample_started) [bc_genesis sample_started]"
    using sample_started_ok(2) by (simp add: chain_inv_def)
  moreover have "block_height sample_bad_next = 1" "h_parent_hash (b_header sample_bad_next) = block_hash sample_chain (bc_genesis sample_started)"
    "h_time (b_header sample_bad_next) = GENESIS_TIME + 1" "validate_block sample_chain sample_bad_next = Inr ()"
    using sample_next_sel by (simp_all add: sample_bad_next_def block_height_def validate_block_def split: if_splits)
  ultimately show ?thesis
    by (intro import_block_panics [of _ _ "[bc_genesis sample_started]"]) (auto simp: GENESIS_TIME_def)
qed

end
