(* ===== verification/Collections.thy ===== *)
theory Collections
  imports Prelude
begin

text \<open>
  What the transaction pool uses of the standard library beyond dictionaries: \<^verbatim>\<open>cmp::Ordering\<close>, the
  binary search of a slice, and \<^verbatim>\<open>BTreeSet\<close> as an interface with a list that implements it.
\<close>

section \<open>Orderings\<close>

datatype ordering = Less | Equal | Greater

fun ordering_rank :: "ordering \<Rightarrow> nat" where
  "ordering_rank Less = 0"
| "ordering_rank Equal = 1"
| "ordering_rank Greater = 2"

instantiation ordering :: linorder
begin

definition less_eq_ordering :: "ordering \<Rightarrow> ordering \<Rightarrow> bool" where
  "less_eq_ordering a b \<longleftrightarrow> ordering_rank a \<le> ordering_rank b"

definition less_ordering :: "ordering \<Rightarrow> ordering \<Rightarrow> bool" where
  "less_ordering a b \<longleftrightarrow> ordering_rank a < ordering_rank b"

instance
proof
  fix a b :: ordering
  show "a \<le> b \<Longrightarrow> b \<le> a \<Longrightarrow> a = b" by (cases a; cases b) (simp_all add: less_eq_ordering_def)
qed (auto simp: less_eq_ordering_def less_ordering_def)

end

text \<open>\<^verbatim>\<open>Ord::cmp\<close> of a totally ordered type, and \<^verbatim>\<open>Ordering::reverse\<close>.\<close>

definition ord_cmp :: "'a::linorder \<Rightarrow> 'a \<Rightarrow> ordering" where
  "ord_cmp a b = (if a < b then Less else if a = b then Equal else Greater)"

fun ordering_reverse :: "ordering \<Rightarrow> ordering" where
  "ordering_reverse Less = Greater"
| "ordering_reverse Equal = Equal"
| "ordering_reverse Greater = Less"

text \<open>\<^verbatim>\<open>Ordering::then\<close>.\<close>

definition ordering_then :: "ordering \<Rightarrow> ordering \<Rightarrow> ordering" where
  "ordering_then a b = (if a = Equal then b else a)"

lemma ord_cmp_simps [simp]:
  "ord_cmp a b = Less \<longleftrightarrow> a < b" "ord_cmp a b = Equal \<longleftrightarrow> a = b" "ord_cmp a b = Greater \<longleftrightarrow> b < a"
  by (auto simp: ord_cmp_def)

lemma ordering_le_simps [simp]:
  "Less \<le> x" "x \<le> Greater" "Greater \<le> x \<longleftrightarrow> x = Greater" "x \<le> Less \<longleftrightarrow> x = Less"
  "Equal \<le> Less \<longleftrightarrow> False"
  by (cases x; simp add: less_eq_ordering_def)+

section \<open>Binary search\<close>

text \<open>
  \<^verbatim>\<open>slice::binary_search_by\<close>: \<^verbatim>\<open>Ok\<close> is the position of an element the function calls \<^verbatim>\<open>Equal\<close>, \<^verbatim>\<open>Err\<close> the
  position where one could be inserted.
\<close>

function bsearch_loop :: "('a \<Rightarrow> ordering) \<Rightarrow> 'a list \<Rightarrow> nat \<Rightarrow> nat \<Rightarrow> nat" where
  "bsearch_loop f xs base n =
    (if n \<le> 1 then base
     else let half = n div 2; mid = base + half
          in bsearch_loop f xs (if f (xs ! mid) = Greater then base else mid) (n - half))"
  by auto
termination by (relation "measure (\<lambda>(_, _, _, n). n)") auto

declare bsearch_loop.simps [simp del]

definition binary_search_by :: "('a \<Rightarrow> ordering) \<Rightarrow> 'a list \<Rightarrow> nat + nat" where
  "binary_search_by f xs =
    (if xs = [] then Inl 0
     else let base = bsearch_loop f xs 0 (length xs)
          in case f (xs ! base) of Equal \<Rightarrow> Inr base | Less \<Rightarrow> Inl (base + 1) | Greater \<Rightarrow> Inl base)"

text \<open>The bounds of the loop: not \<^verbatim>\<open>Greater\<close> at its start, \<^verbatim>\<open>Greater\<close> from its end on.\<close>

definition search_frame :: "('a \<Rightarrow> ordering) \<Rightarrow> 'a list \<Rightarrow> nat \<Rightarrow> nat \<Rightarrow> bool" where
  "search_frame f xs base end \<longleftrightarrow> base < end \<and> end \<le> length xs \<and> (base = 0 \<or> f (xs ! base) \<noteq> Greater) \<and>
    (\<forall>i. end \<le> i \<and> i < length xs \<longrightarrow> f (xs ! i) = Greater)"

lemma search_frame_cut:
  assumes "sorted (map f xs)" "search_frame f xs base (base + n)" "1 < n"
  shows "if f (xs ! (base + n div 2)) = Greater then search_frame f xs base (base + n div 2)
    else search_frame f xs (base + n div 2) (base + n)"
proof -
  have "f (xs ! i) = Greater" if "f (xs ! m) = Greater" "m \<le> i" "i < length xs" for m i
    using sorted_nth_mono [OF assms(1), of m i] that by simp
  moreover have "base + n div 2 < base + n" "base + n \<le> length xs" using assms(2,3) by (auto simp: search_frame_def)
  ultimately show ?thesis using assms(2,3) unfolding search_frame_def by fastforce
qed

lemma bsearch_loop_frame:
  "sorted (map f xs) \<Longrightarrow> search_frame f xs base (base + n) \<Longrightarrow> search_frame f xs (bsearch_loop f xs base n) (bsearch_loop f xs base n + 1)"
proof (induction f xs base n rule: bsearch_loop.induct)
  case (1 f xs base n)
  show ?case
  proof (cases "n \<le> 1")
    case True
    with 1 have "n = 1" by (simp add: search_frame_def)
    with 1 show ?thesis by (simp add: bsearch_loop.simps)
  next
    case False
    then have n: "base + n div 2 + (n - n div 2) = base + n" "base + n div 2 \<le> base + (n - n div 2)" by simp_all
    have e: "base + n \<le> length xs" using 1(3) by (simp add: search_frame_def)
    from search_frame_cut [OF 1(2,3)] False n e
    have "search_frame f xs (if f (xs ! (base + n div 2)) = Greater then base else base + n div 2)
        ((if f (xs ! (base + n div 2)) = Greater then base else base + n div 2) + (n - n div 2))"
      by (auto simp: search_frame_def split: if_splits)
    from 1(1) [OF False refl refl 1(2) this] False show ?thesis
      by (subst (1 2) bsearch_loop.simps) (simp add: Let_def)
  qed
qed

theorem binary_search_by_spec:
  assumes "sorted (map f xs)"
  shows "case binary_search_by f xs of
      Inr i \<Rightarrow> i < length xs \<and> f (xs ! i) = Equal
    | Inl i \<Rightarrow> i \<le> length xs \<and> (\<forall>j < i. f (xs ! j) = Less) \<and> (\<forall>j. i \<le> j \<and> j < length xs \<longrightarrow> f (xs ! j) = Greater)"
proof (cases "xs = []")
  case True
  then show ?thesis by (simp add: binary_search_by_def)
next
  case False
  let ?b = "bsearch_loop f xs 0 (length xs)"
  have "search_frame f xs 0 (0 + length xs)" using False by (auto simp: search_frame_def)
  from bsearch_loop_frame [OF assms this] have fr: "search_frame f xs ?b (?b + 1)" .
  have "f (xs ! j) = Less" if "f (xs ! ?b) = Less" "j \<le> ?b" for j
    using sorted_nth_mono [OF assms, of j ?b] that fr by (simp add: search_frame_def)
  with fr False show ?thesis
    by (auto simp: binary_search_by_def Let_def search_frame_def less_Suc_eq_le Suc_le_eq split: ordering.splits)
      (metis gr0I)
qed

section \<open>BTreeSet\<close>

text \<open>
  An ordered set, by its comparison: \<^verbatim>\<open>insert\<close> keeps an element that is already there, \<^verbatim>\<open>remove\<close> takes out the
  one that compares equal, \<^verbatim>\<open>iter\<close> starts at the least and ends at the greatest.
\<close>

definition cmp_ok :: "('a \<Rightarrow> 'a \<Rightarrow> ordering) \<Rightarrow> bool" where
  "cmp_ok cmp \<longleftrightarrow> (\<forall>x. cmp x x = Equal) \<and> (\<forall>x y. cmp y x = ordering_reverse (cmp x y)) \<and>
    (\<forall>x y z. cmp x y \<noteq> Greater \<and> cmp y z \<noteq> Greater \<longrightarrow> cmp x z = (if cmp x y = Equal then cmp y z else Less))"

locale btree_set =
  fixes cmp :: "'a \<Rightarrow> 'a \<Rightarrow> ordering"
    and inv :: "'s \<Rightarrow> bool" and elems :: "'s \<Rightarrow> 'a set"
    and ins :: "'a \<Rightarrow> 's \<Rightarrow> 's" and del :: "'a \<Rightarrow> 's \<Rightarrow> 's"
    and lo :: "'s \<Rightarrow> 'a option" and hi :: "'s \<Rightarrow> 'a option"
  assumes cmp_law: "cmp_ok cmp"
    and finite_law: "inv s \<Longrightarrow> finite (elems s)"
    and unique_law: "\<lbrakk>inv s; x \<in> elems s; y \<in> elems s; cmp x y = Equal\<rbrakk> \<Longrightarrow> x = y"
    and ins_law: "inv s \<Longrightarrow> inv (ins x s) \<and> elems (ins x s) = (if \<exists>y \<in> elems s. cmp x y = Equal then elems s else insert x (elems s))"
    and del_law: "inv s \<Longrightarrow> inv (del x s) \<and> elems (del x s) = {y \<in> elems s. cmp x y \<noteq> Equal}"
    and lo_law: "inv s \<Longrightarrow> (case lo s of None \<Rightarrow> elems s = {} | Some x \<Rightarrow> x \<in> elems s \<and> (\<forall>y \<in> elems s. cmp x y \<noteq> Greater))"
    and hi_law: "inv s \<Longrightarrow> (case hi s of None \<Rightarrow> elems s = {} | Some x \<Rightarrow> x \<in> elems s \<and> (\<forall>y \<in> elems s. cmp y x \<noteq> Greater))"
begin

lemma del_member:
  assumes "inv s" "x \<in> elems s"
  shows "elems (del x s) = elems s - {x}"
proof -
  have "cmp x x = Equal" using cmp_law by (simp add: cmp_ok_def)
  then show ?thesis using del_law [OF assms(1), of x] unique_law [OF assms(1,2)] by auto
qed

lemma ins_fresh: "\<lbrakk>inv s; \<forall>y \<in> elems s. cmp x y \<noteq> Equal\<rbrakk> \<Longrightarrow> elems (ins x s) = insert x (elems s)"
  using ins_law by auto

lemma swap:
  assumes "inv s" "a \<in> elems s" "\<forall>y \<in> elems s - {a}. cmp b y \<noteq> Equal"
  shows "inv (ins b (del a s))" "elems (ins b (del a s)) = insert b (elems s - {a})"
  using assms del_member [OF assms(1,2)] del_law [OF assms(1), of a] ins_law [of "del a s" b]
  by auto

lemma lo_SomeD: "\<lbrakk>inv s; lo s = Some x\<rbrakk> \<Longrightarrow> x \<in> elems s \<and> (\<forall>y \<in> elems s. cmp x y \<noteq> Greater)"
  using lo_law by force

lemma hi_SomeD: "\<lbrakk>inv s; hi s = Some x\<rbrakk> \<Longrightarrow> x \<in> elems s \<and> (\<forall>y \<in> elems s. cmp y x \<noteq> Greater)"
  using hi_law by force

lemma lo_NoneD: "\<lbrakk>inv s; lo s = None\<rbrakk> \<Longrightarrow> elems s = {}"
  using lo_law by force

lemma hi_NoneD: "\<lbrakk>inv s; hi s = None\<rbrakk> \<Longrightarrow> elems s = {}"
  using hi_law by force

end

text \<open>The sorted list of the elements, which is what iteration shows of the tree.\<close>

fun btree_insert :: "('a \<Rightarrow> 'a \<Rightarrow> ordering) \<Rightarrow> 'a \<Rightarrow> 'a list \<Rightarrow> 'a list" where
  "btree_insert cmp x [] = [x]"
| "btree_insert cmp x (y # ys) =
    (case cmp x y of Less \<Rightarrow> x # y # ys | Equal \<Rightarrow> y # ys | Greater \<Rightarrow> y # btree_insert cmp x ys)"

fun btree_remove :: "('a \<Rightarrow> 'a \<Rightarrow> ordering) \<Rightarrow> 'a \<Rightarrow> 'a list \<Rightarrow> 'a list" where
  "btree_remove cmp x [] = []"
| "btree_remove cmp x (y # ys) =
    (case cmp x y of Less \<Rightarrow> y # ys | Equal \<Rightarrow> ys | Greater \<Rightarrow> y # btree_remove cmp x ys)"

definition btree_first :: "'a list \<Rightarrow> 'a option" where
  "btree_first xs = (case xs of [] \<Rightarrow> None | x # _ \<Rightarrow> Some x)"

definition btree_last :: "'a list \<Rightarrow> 'a option" where
  "btree_last xs = (if xs = [] then None else Some (last xs))"

abbreviation btree_sorted :: "('a \<Rightarrow> 'a \<Rightarrow> ordering) \<Rightarrow> 'a list \<Rightarrow> bool" where
  "btree_sorted cmp \<equiv> sorted_wrt (\<lambda>x y. cmp x y = Less)"

lemma cmp_okD:
  assumes "cmp_ok cmp"
  shows "cmp x x = Equal" "cmp y x = ordering_reverse (cmp x y)"
    and "\<lbrakk>cmp x y \<noteq> Greater; cmp y z \<noteq> Greater\<rbrakk> \<Longrightarrow> cmp x z = (if cmp x y = Equal then cmp y z else Less)"
  by (rule assms [unfolded cmp_ok_def, THEN conjunct1, THEN spec])
    (rule assms [unfolded cmp_ok_def, THEN conjunct2, THEN conjunct1, THEN spec, THEN spec],
     rule assms [unfolded cmp_ok_def, THEN conjunct2, THEN conjunct2, THEN spec, THEN spec, THEN spec, THEN mp, OF conjI])

lemma cmp_less_trans: "\<lbrakk>cmp_ok cmp; cmp x y = Less; cmp y z = Less\<rbrakk> \<Longrightarrow> cmp x z = Less"
  using cmp_okD(3) [of cmp x y z] by simp

lemma cmp_flip:
  assumes "cmp_ok cmp"
  shows "cmp x y = Greater \<longleftrightarrow> cmp y x = Less" "cmp x y = Equal \<longleftrightarrow> cmp y x = Equal"
proof -
  have flip: "cmp y x = ordering_reverse (cmp x y)" by (rule cmp_okD(2) [OF assms])
  show "cmp x y = Greater \<longleftrightarrow> cmp y x = Less" unfolding flip by (cases "cmp x y") simp_all
  show "cmp x y = Equal \<longleftrightarrow> cmp y x = Equal" unfolding flip by (cases "cmp x y") simp_all
qed

lemma btree_insert_set:
  assumes "cmp_ok cmp" "btree_sorted cmp xs"
  shows "set (btree_insert cmp x xs) = (if \<exists>y \<in> set xs. cmp x y = Equal then set xs else insert x (set xs))"
  using assms(2)
proof (induction xs)
  case (Cons y ys)
  have "cmp x z \<noteq> Equal" if "cmp x y = Less" "z \<in> set ys" for z
    using cmp_less_trans [OF assms(1) that(1), of z] Cons.prems that(2) by simp
  with Cons show ?case by (auto split: ordering.splits)
qed simp

lemma btree_insert_sorted:
  assumes "cmp_ok cmp" "btree_sorted cmp xs"
  shows "btree_sorted cmp (btree_insert cmp x xs)"
  using assms(2)
proof (induction xs)
  case (Cons y ys)
  have "cmp x z = Less" if "cmp x y = Less" "z \<in> set ys" for z
    using cmp_less_trans [OF assms(1) that(1), of z] Cons.prems that(2) by simp
  with Cons btree_insert_set [OF assms(1), of ys x] show ?case
    by (auto simp: cmp_flip(1) [OF assms(1)] split: ordering.splits if_splits)
qed simp

lemma btree_remove_set:
  assumes "cmp_ok cmp" "btree_sorted cmp xs"
  shows "set (btree_remove cmp x xs) = {y \<in> set xs. cmp x y \<noteq> Equal}"
  using assms(2)
proof (induction xs)
  case (Cons y ys)
  have "cmp x z \<noteq> Equal" if "cmp x y \<noteq> Greater" "z \<in> set ys" for z
    using cmp_okD(3) [OF assms(1) that(1), of z] Cons.prems that(2) by (auto split: if_splits)
  with Cons show ?case by (auto split: ordering.splits)
qed simp

lemma btree_remove_sorted:
  assumes "cmp_ok cmp" "btree_sorted cmp xs"
  shows "btree_sorted cmp (btree_remove cmp x xs)"
  using assms(2)
proof (induction xs)
  case (Cons y ys)
  with btree_remove_set [OF assms(1), of ys x] show ?case by (auto split: ordering.splits)
qed simp

lemma btree_list:
  assumes "cmp_ok cmp"
  shows "btree_set cmp (btree_sorted cmp) set (btree_insert cmp) (btree_remove cmp) btree_first btree_last"
proof
  fix s x y
  assume s: "btree_sorted cmp s"
  have less: "\<forall>z \<in> A. cmp a z = Less \<Longrightarrow> b \<in> A \<Longrightarrow> cmp b a = Greater" for a b A
    using cmp_flip(1) [OF assms, of b a] by simp
  show "x \<in> set s \<Longrightarrow> y \<in> set s \<Longrightarrow> cmp x y = Equal \<Longrightarrow> x = y"
    using s by (induction s) (auto dest: less)
  show "case btree_first s of None \<Rightarrow> set s = {} | Some x \<Rightarrow> x \<in> set s \<and> (\<forall>y \<in> set s. cmp x y \<noteq> Greater)"
    using s cmp_okD(1) [OF assms] by (auto simp: btree_first_def split: list.splits)
  show "case btree_last s of None \<Rightarrow> set s = {} | Some x \<Rightarrow> x \<in> set s \<and> (\<forall>y \<in> set s. cmp y x \<noteq> Greater)"
    using s cmp_okD(1) [OF assms]
    by (cases s rule: rev_cases) (auto simp: btree_last_def sorted_wrt_append)
qed (use assms in \<open>simp_all add: btree_insert_set btree_insert_sorted btree_remove_set btree_remove_sorted\<close>)

end
