(* ===== verification/Pool_Queue.thy ===== *)
theory Pool_Queue
  imports Collections
begin

text \<open>
  The queue of one sender in the transaction pool (src/pool/src/transaction_pool/transactions.rs) with the
  traits it is generic over (scoring.rs, ready.rs): the transactions in the order of \<^verbatim>\<open>compare\<close>, and beside
  them their scores. The scoring and the readiness are parameters, since the pool is generic in them; the
  scoring and readiness of src/pool/src/transaction_pool/tests/helper.rs are an instance.
\<close>

section \<open>Scoring and readiness\<close>

text \<open>\<^verbatim>\<open>pool::Transaction\<close>: a transaction with its insertion id.\<close>

record 'a pool_tx =
  pt_insertion_id :: u64
  pt_transaction :: 'a

datatype choice = RejectNew | ReplaceOld | InsertNew

datatype 'e change = InsertedAt nat | RemovedAt nat | ReplacedAt nat | Culled nat | Event 'e

record ('a, 'c, 'e) scoring =
  compare_by :: "'a \<Rightarrow> 'a \<Rightarrow> ordering"
  choose_by :: "'a \<Rightarrow> 'a \<Rightarrow> choice"
  update_scores_by :: "'a pool_tx list \<Rightarrow> 'c list \<Rightarrow> 'e change \<Rightarrow> 'c list"
  should_ignore_sender_limit :: "'a \<Rightarrow> bool"
  default_score :: 'c
  show_score :: "'c \<Rightarrow> string"

datatype readiness = Stale | Ready | Future

text \<open>A \<^verbatim>\<open>Ready\<close> is a function on a state of its own.\<close>

type_synonym ('r, 'a) is_ready = "'r \<Rightarrow> 'a \<Rightarrow> readiness \<times> 'r"

definition ready_pair :: "('r, 'a) is_ready \<Rightarrow> ('q, 'a) is_ready \<Rightarrow> ('r \<times> 'q, 'a) is_ready" where
  "ready_pair A B s tx =
    (case A (fst s) tx of
       (Ready, a) \<Rightarrow> (case B (snd s) tx of (x, b) \<Rightarrow> (x, (a, b)))
     | (x, a) \<Rightarrow> (x, (a, snd s)))"

section \<open>Score with reference\<close>

record ('a, 'c) score_ref =
  sr_score :: 'c
  sr_transaction :: "'a pool_tx"

text \<open>\<^verbatim>\<open>Ord for ScoreWithRef\<close>: the higher score first, then the lower insertion id.\<close>

definition score_ref_cmp :: "('a, 'c::linorder) score_ref \<Rightarrow> ('a, 'c) score_ref \<Rightarrow> ordering" where
  "score_ref_cmp a b =
    ordering_then (ord_cmp (sr_score b) (sr_score a))
      (ord_cmp (pt_insertion_id (sr_transaction a)) (pt_insertion_id (sr_transaction b)))"

definition score_ref_eq :: "('a, 'c) score_ref \<Rightarrow> ('a, 'c) score_ref \<Rightarrow> bool" where
  "score_ref_eq a b \<longleftrightarrow> sr_score a = sr_score b \<and>
    pt_insertion_id (sr_transaction a) = pt_insertion_id (sr_transaction b)"

lemma score_ref_cmp_ok: "cmp_ok (score_ref_cmp :: ('a, 'c::linorder) score_ref \<Rightarrow> _)"
  by (auto simp: cmp_ok_def score_ref_cmp_def ordering_then_def ord_cmp_def)

interpretation bt: btree_set
  "score_ref_cmp :: ('a, 'c::linorder) score_ref \<Rightarrow> _" "btree_sorted score_ref_cmp" set
  "btree_insert score_ref_cmp" "btree_remove score_ref_cmp" btree_first btree_last
  by (rule btree_list [OF score_ref_cmp_ok])

lemma score_ref_cmp_Equal [simp]: "score_ref_cmp a b = Equal \<longleftrightarrow> score_ref_eq a b"
  by (auto simp: score_ref_cmp_def score_ref_eq_def ordering_then_def ord_cmp_def)

section \<open>The queue\<close>

datatype ('p, 'c) add_result =
    AddOk 'p
  | AddTooCheapToEnter 'p 'c
  | TooCheap 'p 'p \<comment> \<open>old, new\<close>
  | Replaced 'p 'p
  | PushedOut 'p 'p

record ('a, 'c) transactions =
  tq_transactions :: "'a pool_tx list"
  tq_scores :: "'c list"

definition transactions_default :: "('a, 'c) transactions" where
  "transactions_default = \<lparr>tq_transactions = [], tq_scores = []\<rparr>"

definition transactions_is_empty :: "('a, 'c) transactions \<Rightarrow> bool" where
  "transactions_is_empty q \<longleftrightarrow> tq_transactions q = []"

definition transactions_len :: "('a, 'c) transactions \<Rightarrow> nat" where
  "transactions_len q = length (tq_transactions q)"

definition worst_and_best ::
  "('a, 'c) transactions \<Rightarrow> (('c \<times> 'a pool_tx) \<times> ('c \<times> 'a pool_tx)) option option" where
  "worst_and_best q =
    (let len = length (tq_scores q)
     in case tq_scores q of
          [] \<Rightarrow> Some None
        | best # _ \<Rightarrow>
            do { worst \<leftarrow> nth_checked (tq_scores q) (len - 1);
                 best_tx \<leftarrow> nth_checked (tq_transactions q) 0;
                 worst_tx \<leftarrow> nth_checked (tq_transactions q) (len - 1);
                 Some (Some ((worst, worst_tx), (best, best_tx))) })"

text \<open>The position of a transaction, by the order of the scoring.\<close>

definition queue_search :: "('a, 'c, 'e) scoring \<Rightarrow> ('a, 'c) transactions \<Rightarrow> 'a \<Rightarrow> nat + nat" where
  "queue_search S q tx = binary_search_by (\<lambda>old. compare_by S (pt_transaction old) tx) (tq_transactions q)"

definition find_next ::
  "('a, 'c, 'e) scoring \<Rightarrow> ('a, 'c) transactions \<Rightarrow> 'a \<Rightarrow> ('c \<times> 'a pool_tx) option option" where
  "find_next S q tx =
    (case queue_search S q tx of
       Inl _ \<Rightarrow> Some None
     | Inr i \<Rightarrow>
        (let index = i + 1
         in if index < length (tq_scores q)
            then do { t \<leftarrow> nth_checked (tq_transactions q) index; Some (Some (tq_scores q ! index, t)) }
            else Some None))"

text \<open>\<^verbatim>\<open>SmallVec::insert\<close> and \<^verbatim>\<open>SmallVec::remove\<close> panic out of range.\<close>

definition vec_insert :: "nat \<Rightarrow> 'x \<Rightarrow> 'x list \<Rightarrow> 'x list option" where
  "vec_insert i x xs = (if i \<le> length xs then Some (take i xs @ x # drop i xs) else None)"

definition vec_remove :: "nat \<Rightarrow> 'x list \<Rightarrow> 'x list option" where
  "vec_remove i xs = (if i < length xs then Some (take i xs @ drop (Suc i) xs) else None)"

text \<open>\<^verbatim>\<open>scores[index - 1]\<close> with \<^verbatim>\<open>index\<close> 0 panics in every build: the subtraction does, or the index it wraps to.\<close>

definition push_cheapest_transaction ::
  "('a, 'c, 'e) scoring \<Rightarrow> ('a, 'c) transactions \<Rightarrow> 'a pool_tx \<Rightarrow> u64
     \<Rightarrow> (('a pool_tx, 'c) add_result \<times> ('a, 'c) transactions) option" where
  "push_cheapest_transaction S q tx max_count =
    (let index = length (tq_transactions q)
     in if index = unat max_count \<and> \<not> should_ignore_sender_limit S (pt_transaction tx)
        then do { i \<leftarrow> (if index = 0 then None else Some (index - 1));
                  min_score \<leftarrow> nth_checked (tq_scores q) i;
                  Some (AddTooCheapToEnter tx min_score, q) }
        else let txs = tq_transactions q @ [tx]
             in Some (AddOk tx, \<lparr>tq_transactions = txs,
                  tq_scores = update_scores_by S txs (tq_scores q @ [default_score S]) (InsertedAt index)\<rparr>))"

definition queue_update_scores ::
  "('a, 'c, 'e) scoring \<Rightarrow> ('a, 'c) transactions \<Rightarrow> 'e \<Rightarrow> ('a, 'c) transactions" where
  "queue_update_scores S q event =
    q\<lparr>tq_scores := update_scores_by S (tq_transactions q) (tq_scores q) (Event event)\<rparr>"

definition queue_add ::
  "('a, 'c, 'e) scoring \<Rightarrow> ('a, 'c) transactions \<Rightarrow> 'a pool_tx \<Rightarrow> u64
     \<Rightarrow> (('a pool_tx, 'c) add_result \<times> ('a, 'c) transactions) option" where
  "queue_add S q new max_count =
    (let index = (case queue_search S q (pt_transaction new) of Inr i \<Rightarrow> i | Inl i \<Rightarrow> i)
     in if index = length (tq_transactions q) then push_cheapest_transaction S q new max_count
        else do {
          old \<leftarrow> nth_checked (tq_transactions q) index;
          (case choose_by S (pt_transaction old) (pt_transaction new) of
             RejectNew \<Rightarrow> Some (TooCheap old new, q)
           | InsertNew \<Rightarrow> do {
               txs \<leftarrow> vec_insert index new (tq_transactions q);
               scores \<leftarrow> vec_insert index (default_score S) (tq_scores q);
               let scores' = update_scores_by S txs scores (InsertedAt index);
               (if length txs > unat max_count
                then let txs' = butlast txs
                     in Some (PushedOut (last txs) new, \<lparr>tq_transactions = txs',
                          tq_scores = update_scores_by S txs' (butlast scores') (RemovedAt (length txs'))\<rparr>)
                else Some (AddOk new, \<lparr>tq_transactions = txs, tq_scores = scores'\<rparr>)) }
           | ReplaceOld \<Rightarrow>
               (let txs = (tq_transactions q)[index := new]
                in Some (Replaced old new, \<lparr>tq_transactions = txs,
                     tq_scores = update_scores_by S txs (tq_scores q) (ReplacedAt index)\<rparr>))) })"

definition queue_remove ::
  "('a, 'c, 'e) scoring \<Rightarrow> ('a, 'c) transactions \<Rightarrow> 'a \<Rightarrow> (bool \<times> ('a, 'c) transactions) option" where
  "queue_remove S q tx =
    (case queue_search S q tx of
       Inl _ \<Rightarrow> Some (False, q)
     | Inr index \<Rightarrow> do {
         txs \<leftarrow> vec_remove index (tq_transactions q);
         scores \<leftarrow> vec_remove index (tq_scores q);
         Some (True, \<lparr>tq_transactions = txs, tq_scores = update_scores_by S txs scores (RemovedAt index)\<rparr>) })"

text \<open>\<^verbatim>\<open>first_non_stalled\<close>: the readiness is asked up to the first transaction that is not stale.\<close>

fun first_non_stalled :: "('r, 'a) is_ready \<Rightarrow> 'r \<Rightarrow> 'a pool_tx list \<Rightarrow> nat \<times> 'r" where
  "first_non_stalled R r [] = (0, r)"
| "first_non_stalled R r (tx # txs) =
    (case R r (pt_transaction tx) of
       (Stale, r') \<Rightarrow> (case first_non_stalled R r' txs of (n, r'') \<Rightarrow> (Suc n, r''))
     | (_, r') \<Rightarrow> (0, r'))"

text \<open>The loop of \<^verbatim>\<open>cull\<close>, on the reversed vectors: it pops scores and transactions.\<close>

fun cull_pop :: "nat \<Rightarrow> 'x list \<Rightarrow> 'c list \<Rightarrow> 'x list \<Rightarrow> ('x list \<times> 'c list \<times> 'x list) option" where
  "cull_pop 0 txs scores result = Some (txs, scores, result)"
| "cull_pop (Suc n) txs scores result =
    (if txs = [] then None else cull_pop n (butlast txs) (butlast scores) (result @ [last txs]))"

definition queue_cull ::
  "('a, 'c, 'e) scoring \<Rightarrow> ('r, 'a) is_ready \<Rightarrow> 'r \<Rightarrow> ('a, 'c) transactions
     \<Rightarrow> ('a pool_tx list \<times> ('a, 'c) transactions \<times> 'r) option" where
  "queue_cull S R r q =
    (if transactions_is_empty q then Some ([], q, r)
     else case first_non_stalled R r (tq_transactions q) of
       (n, r') \<Rightarrow>
         if n = 0 then Some ([], q, r')
         else do {
           (txs, scores, result) \<leftarrow> cull_pop n (rev (tq_transactions q)) (rev (tq_scores q)) [];
           Some (rev result, \<lparr>tq_transactions = rev txs,
             tq_scores = update_scores_by S (rev txs) (rev scores) (Culled (length result))\<rparr>, r') })"

section \<open>What the queue relies on\<close>

text \<open>
  The contract of a \<^verbatim>\<open>Scoring\<close>: \<^verbatim>\<open>compare\<close> is the order of a key such as the nonce, two transactions with the
  same key are never both kept, and the scores are updated in place.
\<close>

definition scoring_ok :: "('a, 'c, 'e) scoring \<Rightarrow> ('a \<Rightarrow> 'k::linorder) \<Rightarrow> bool" where
  "scoring_ok S rank \<longleftrightarrow>
    (\<forall>a b. compare_by S a b = ord_cmp (rank a) (rank b)) \<and>
    (\<forall>a b. rank a = rank b \<longrightarrow> choose_by S a b \<noteq> InsertNew) \<and>
    (\<forall>txs scores ch. length (update_scores_by S txs scores ch) = length scores)"

lemma scoring_okD:
  assumes "scoring_ok S rank"
  shows "compare_by S a b = ord_cmp (rank a) (rank b)" "rank a = rank b \<Longrightarrow> choose_by S a b \<noteq> InsertNew"
    and "length (update_scores_by S txs scores ch) = length scores"
  using assms by (simp_all add: scoring_ok_def)

abbreviation tx_rank :: "('a \<Rightarrow> 'k) \<Rightarrow> 'a pool_tx \<Rightarrow> 'k" where
  "tx_rank rank t \<equiv> rank (pt_transaction t)"

definition queue_ok :: "('a \<Rightarrow> 'k::linorder) \<Rightarrow> ('a, 'c) transactions \<Rightarrow> bool" where
  "queue_ok rank q \<longleftrightarrow> sorted_wrt (\<lambda>a b. tx_rank rank a < tx_rank rank b) (tq_transactions q) \<and>
    length (tq_scores q) = length (tq_transactions q)"

lemma queue_ok_distinct:
  assumes "queue_ok rank q"
  shows "distinct (tq_transactions q)" "inj_on (tx_rank rank) (set (tq_transactions q))"
proof -
  have "sorted_wrt (<) (map (tx_rank rank) (tq_transactions q))"
    using assms by (simp add: queue_ok_def sorted_wrt_map)
  then have "distinct (map (tx_rank rank) (tq_transactions q))"
    by (simp add: strict_sorted_iff)
  then show "distinct (tq_transactions q)" "inj_on (tx_rank rank) (set (tq_transactions q))"
    by (simp_all add: distinct_map)
qed

lemma ord_cmp_mono: "x < y \<Longrightarrow> ord_cmp x z \<le> ord_cmp y z"
  by (auto simp: ord_cmp_def)

lemma queue_search_spec:
  assumes "scoring_ok S rank" "queue_ok rank q"
  shows "case queue_search S q tx of
      Inr i \<Rightarrow> i < length (tq_transactions q) \<and> tx_rank rank (tq_transactions q ! i) = rank tx
    | Inl i \<Rightarrow> i \<le> length (tq_transactions q) \<and> (\<forall>j < i. tx_rank rank (tq_transactions q ! j) < rank tx) \<and>
        (\<forall>j. i \<le> j \<and> j < length (tq_transactions q) \<longrightarrow> rank tx < tx_rank rank (tq_transactions q ! j))"
proof -
  let ?f = "\<lambda>old. compare_by S (pt_transaction old) tx"
  have "sorted_wrt (\<lambda>a b. ?f a \<le> ?f b) (tq_transactions q)"
    using assms(2) unfolding queue_ok_def scoring_okD(1) [OF assms(1)]
    by (elim conjE sorted_wrt_mono_rel [rotated]) (rule ord_cmp_mono)
  then have "sorted (map ?f (tq_transactions q))" by (simp add: sorted_map)
  from binary_search_by_spec [OF this] show ?thesis
    by (auto simp: queue_search_def scoring_okD(1) [OF assms(1)] split: sum.splits)
qed

lemma queue_search_member:
  assumes "scoring_ok S rank" "queue_ok rank q" "i < length (tq_transactions q)"
  shows "queue_search S q (pt_transaction (tq_transactions q ! i)) = Inr i"
proof -
  let ?txs = "tq_transactions q"
  have inj: "tx_rank rank (?txs ! j) = tx_rank rank (?txs ! i) \<Longrightarrow> j < length ?txs \<Longrightarrow> j = i" for j
    using queue_ok_distinct [OF assms(2)] assms(3) by (metis inj_onD nth_eq_iff_index_eq nth_mem)
  show ?thesis
    using queue_search_spec [OF assms(1,2), of "pt_transaction (?txs ! i)"] inj assms(3)
    by (auto split: sum.splits) (metis less_irrefl not_less)
qed

section \<open>Adding\<close>

lemma sorted_wrt_insert_at:
  assumes "sorted_wrt P xs" "\<forall>j < i. P (xs ! j) x" "\<forall>j. i \<le> j \<and> j < length xs \<longrightarrow> P x (xs ! j)" "i \<le> length xs"
  shows "sorted_wrt P (take i xs @ x # drop i xs)"
proof -
  have "sorted_wrt P (take i xs @ drop i xs)" using assms(1) by simp
  then have "sorted_wrt P (take i xs)" "sorted_wrt P (drop i xs)" "\<forall>a \<in> set (take i xs). \<forall>b \<in> set (drop i xs). P a b"
    unfolding sorted_wrt_append by blast+
  moreover have "\<forall>a \<in> set (take i xs). P a x" "\<forall>b \<in> set (drop i xs). P x b"
    using assms(2-4) by (auto simp: in_set_conv_nth)
  ultimately show ?thesis by (simp add: sorted_wrt_append)
qed

lemma sorted_wrt_update_at:
  assumes "sorted_wrt P xs" "\<forall>j < i. P (xs ! j) x" "\<forall>j. i < j \<and> j < length xs \<longrightarrow> P x (xs ! j)"
  shows "sorted_wrt P (xs[i := x])"
  using assms by (cases "i < length xs") (auto simp: sorted_wrt_iff_nth_less nth_list_update)

text \<open>What adding does to the set of transactions.\<close>

fun add_outcome :: "('p, 'c) add_result \<Rightarrow> 'p \<Rightarrow> 'p set \<Rightarrow> 'p set \<Rightarrow> bool" where
  "add_outcome (AddOk t) new A B \<longleftrightarrow> t = new \<and> B = insert new A"
| "add_outcome (AddTooCheapToEnter t c) new A B \<longleftrightarrow> t = new \<and> B = A"
| "add_outcome (TooCheap old t) new A B \<longleftrightarrow> t = new \<and> old \<in> A \<and> B = A"
| "add_outcome (Replaced old t) new A B \<longleftrightarrow> t = new \<and> old \<in> A \<and> B = insert new (A - {old})"
| "add_outcome (PushedOut old t) new A B \<longleftrightarrow> t = new \<and> old \<in> A \<and> B = insert new (A - {old})"

fun add_rejected :: "('p, 'c) add_result \<Rightarrow> bool" where
  "add_rejected (AddTooCheapToEnter t c) \<longleftrightarrow> True"
| "add_rejected (TooCheap old t) \<longleftrightarrow> True"
| "add_rejected _ \<longleftrightarrow> False"

definition add_ok ::
  "('a, 'c, 'e) scoring \<Rightarrow> ('a \<Rightarrow> 'k::linorder) \<Rightarrow> ('a, 'c) transactions \<Rightarrow> 'a pool_tx \<Rightarrow> u64
     \<Rightarrow> (('a pool_tx, 'c) add_result \<times> ('a, 'c) transactions) option \<Rightarrow> bool" where
  "add_ok S rank q new m r \<longleftrightarrow>
    (\<exists>res q'. r = Some (res, q') \<and> queue_ok rank q' \<and> tq_transactions q' \<noteq> [] \<and>
      add_outcome res new (set (tq_transactions q)) (set (tq_transactions q')) \<and> (add_rejected res \<longrightarrow> q' = q) \<and>
      (length (tq_transactions q) \<le> unat m \<and> \<not> should_ignore_sender_limit S (pt_transaction new) \<longrightarrow>
        length (tq_transactions q') \<le> unat m))"

lemma push_cheapest_ok:
  assumes "scoring_ok S rank" "queue_ok rank q" "0 < unat m"
    and "\<forall>t \<in> set (tq_transactions q). tx_rank rank t < tx_rank rank new"
  shows "add_ok S rank q new m (push_cheapest_transaction S q new m)"
proof (cases "length (tq_transactions q) = unat m \<and> \<not> should_ignore_sender_limit S (pt_transaction new)")
  case True
  moreover from True assms(2,3) have "nth_checked (tq_scores q) (length (tq_transactions q) - 1) \<noteq> None"
    by (auto simp: nth_checked_def queue_ok_def)
  moreover have "tq_transactions q \<noteq> []" using True assms(3) by auto
  ultimately show ?thesis using assms(2,3) by (auto simp: add_ok_def push_cheapest_transaction_def Let_def)
next
  case False
  with assms show ?thesis
    by (auto simp: add_ok_def push_cheapest_transaction_def Let_def queue_ok_def sorted_wrt_append scoring_okD(3))
qed

lemma distinct_butlast_set: "distinct xs \<Longrightarrow> xs \<noteq> [] \<Longrightarrow> set (butlast xs) = set xs - {last xs}"
  by (induction xs rule: rev_induct) auto

text \<open>The two branches of \<^verbatim>\<open>add\<close> that change a queue in the middle.\<close>

definition queue_insert_at ::
  "('a, 'c, 'e) scoring \<Rightarrow> ('a, 'c) transactions \<Rightarrow> 'a pool_tx \<Rightarrow> u64 \<Rightarrow> nat
     \<Rightarrow> (('a pool_tx, 'c) add_result \<times> ('a, 'c) transactions) option" where
  "queue_insert_at S q new m i =
    (let txs = take i (tq_transactions q) @ new # drop i (tq_transactions q);
         scores = update_scores_by S txs (take i (tq_scores q) @ default_score S # drop i (tq_scores q)) (InsertedAt i)
     in if length txs > unat m
        then Some (PushedOut (last txs) new, \<lparr>tq_transactions = butlast txs,
               tq_scores = update_scores_by S (butlast txs) (butlast scores) (RemovedAt (length (butlast txs)))\<rparr>)
        else Some (AddOk new, \<lparr>tq_transactions = txs, tq_scores = scores\<rparr>))"

definition queue_replace_at ::
  "('a, 'c, 'e) scoring \<Rightarrow> ('a, 'c) transactions \<Rightarrow> 'a pool_tx \<Rightarrow> nat
     \<Rightarrow> (('a pool_tx, 'c) add_result \<times> ('a, 'c) transactions) option" where
  "queue_replace_at S q new i =
    (let txs = (tq_transactions q)[i := new]
     in Some (Replaced (tq_transactions q ! i) new, \<lparr>tq_transactions = txs,
          tq_scores = update_scores_by S txs (tq_scores q) (ReplacedAt i)\<rparr>))"

lemma queue_replace_at_ok:
  assumes "scoring_ok S rank" "queue_ok rank q" "i < length (tq_transactions q)"
    and "\<forall>j < i. tx_rank rank (tq_transactions q ! j) < tx_rank rank new"
    and "\<forall>j. i < j \<and> j < length (tq_transactions q) \<longrightarrow> tx_rank rank new < tx_rank rank (tq_transactions q ! j)"
  shows "add_ok S rank q new m (queue_replace_at S q new i)"
  using assms queue_ok_distinct(1) [OF assms(2)] unfolding add_ok_def queue_replace_at_def Let_def
  by (auto simp: queue_ok_def sorted_wrt_update_at scoring_okD(3) set_update_distinct)

lemma queue_insert_at_ok:
  assumes S: "scoring_ok S rank" and q: "queue_ok rank q" and i: "i < length (tq_transactions q)"
    and "\<forall>j < i. tx_rank rank (tq_transactions q ! j) < tx_rank rank new"
    and "\<forall>j. i < j \<and> j < length (tq_transactions q) \<longrightarrow> tx_rank rank new < tx_rank rank (tq_transactions q ! j)"
    and "tx_rank rank new < tx_rank rank (tq_transactions q ! i)"
  shows "add_ok S rank q new m (queue_insert_at S q new m i)"
proof -
  let ?txs = "tq_transactions q" and ?P = "\<lambda>a b. tx_rank rank a < tx_rank rank b"
  let ?new = "take i ?txs @ new # drop i ?txs"
  have after: "\<forall>j. i \<le> j \<and> j < length ?txs \<longrightarrow> ?P new (?txs ! j)" using assms(5,6) by (metis le_neq_implies_less)
  have sorted: "sorted_wrt ?P ?new"
    using q i assms(4) after by (intro sorted_wrt_insert_at) (auto simp: queue_ok_def)
  have set: "set ?new = insert new (set ?txs)"
    by (metis append_take_drop_id list.simps(15) set_append Un_insert_right)
  have "queue_ok rank \<lparr>tq_transactions = ?new, tq_scores = replicate (length ?new) ()\<rparr>"
    using sorted by (simp add: queue_ok_def)
  from queue_ok_distinct(1) [OF this] have dist: "distinct ?new" by simp
  have "?txs \<noteq> []" using i by auto
  then have last: "last ?new = last ?txs" "last ?txs \<in> set ?txs" using i by (simp_all add: last_drop)
  have "?P new (?txs ! (length ?txs - 1))" using i by (intro after [rule_format]) auto
  then have "new \<noteq> last ?txs" using \<open>?txs \<noteq> []\<close> by (auto simp: last_conv_nth)
  then have out: "set (butlast ?new) = insert new (set ?txs - {last ?txs})"
    using distinct_butlast_set [OF dist] last(1) set by auto
  have "sorted_wrt ?P (butlast ?new)" using sorted_wrt_take [OF sorted] by (simp only: butlast_conv_take)
  then show ?thesis
    using sorted set last out i scoring_okD(3) [OF S] q unfolding add_ok_def queue_insert_at_def Let_def
    by (auto simp: queue_ok_def)
qed

lemma queue_add_ok:
  assumes S: "scoring_ok S rank" and q: "queue_ok rank q" and m: "0 < unat m"
    and new: "new \<notin> set (tq_transactions q)"
  shows "add_ok S rank q new m (queue_add S q new m)"
proof -
  let ?txs = "tq_transactions q" and ?P = "\<lambda>a b. tx_rank rank a < tx_rank rank b"
  define i where "i = (case queue_search S q (pt_transaction new) of Inr i \<Rightarrow> i | Inl i \<Rightarrow> i)"
  have sorted: "sorted_wrt ?P ?txs" "length (tq_scores q) = length ?txs" and dist: "distinct ?txs"
    using q queue_ok_distinct(1) [OF q] by (simp_all add: queue_ok_def)
  note search = queue_search_spec [OF S q, of "pt_transaction new"]
  have i: "i \<le> length ?txs" using search by (auto simp: i_def split: sum.splits)
  have mono: "?P (?txs ! j) (?txs ! k)" if "j < k" "k < length ?txs" for j k
    using sorted(1) that by (simp add: sorted_wrt_iff_nth_less)
  have before: "\<forall>j < i. ?P (?txs ! j) new" and after: "\<forall>j. i < j \<and> j < length ?txs \<longrightarrow> ?P new (?txs ! j)"
    using search mono by (auto simp: i_def split: sum.splits) (metis, metis)
  show ?thesis
  proof (cases "i = length ?txs")
    case True
    then have "queue_add S q new m = push_cheapest_transaction S q new m"
      by (simp add: queue_add_def i_def [symmetric])
    moreover have "\<forall>t \<in> set ?txs. ?P t new" using before True by (auto simp: in_set_conv_nth)
    ultimately show ?thesis using push_cheapest_ok [OF S q m] by simp
  next
    case False
    then have lt: "i < length ?txs" using i by simp
    have here: "?P new (?txs ! i)" if "choose_by S (pt_transaction (?txs ! i)) (pt_transaction new) = InsertNew"
      using search that scoring_okD(2) [OF S] lt by (auto simp: i_def split: sum.splits)
    have add: "queue_add S q new m = (case choose_by S (pt_transaction (?txs ! i)) (pt_transaction new) of
        RejectNew \<Rightarrow> Some (TooCheap (?txs ! i) new, q)
      | InsertNew \<Rightarrow> queue_insert_at S q new m i
      | ReplaceOld \<Rightarrow> queue_replace_at S q new i)"
      using lt sorted(2)
      by (simp add: queue_add_def i_def [symmetric] nth_checked_def vec_insert_def queue_insert_at_def
          queue_replace_at_def Let_def split: choice.splits)
    show ?thesis
    proof (cases "choose_by S (pt_transaction (?txs ! i)) (pt_transaction new)")
      case RejectNew
      then show ?thesis using q lt unfolding add add_ok_def by auto
    next
      case ReplaceOld
      then show ?thesis
        unfolding add by (simp add: queue_replace_at_ok [OF S q lt before after])
    next
      case InsertNew
      then show ?thesis
        unfolding add using queue_insert_at_ok [OF S q lt before after here] new by simp
    qed
  qed
qed

section \<open>Removing, culling, reading\<close>

lemma queue_remove_ok:
  assumes "scoring_ok S rank" "queue_ok rank q" "t \<in> set (tq_transactions q)"
  obtains q' where "queue_remove S q (pt_transaction t) = Some (True, q')" "queue_ok rank q'"
    "tq_transactions q' = remove1 t (tq_transactions q)"
proof -
  let ?txs = "tq_transactions q"
  obtain i where i: "i < length ?txs" "t = ?txs ! i" using assms(3) by (auto simp: in_set_conv_nth)
  have txs: "take i ?txs @ drop (Suc i) ?txs = remove1 t ?txs"
  proof -
    have d: "distinct ?txs" by (rule queue_ok_distinct(1) [OF assms(2)])
    then have "t \<notin> set (take i ?txs)" using i by (simp add: in_set_conv_nth nth_eq_iff_index_eq)
    then have "remove1 t (take i ?txs @ t # drop (Suc i) ?txs) = take i ?txs @ drop (Suc i) ?txs"
      by (simp add: remove1_append)
    then show ?thesis using id_take_nth_drop [OF i(1)] i(2) by simp
  qed
  have "sorted_wrt (\<lambda>a b. tx_rank rank a < tx_rank rank b) (remove1 t ?txs)"
    using assms(2) by (auto simp: queue_ok_def distinct_remove1_removeAll sorted_wrt_filter
        queue_ok_distinct(1) [OF assms(2)] removeAll_filter_not_eq)
  with assms(1,2) i txs queue_search_member [OF assms(1,2) i(1)] show thesis
    by (intro that [of "\<lparr>tq_transactions = remove1 t ?txs,
          tq_scores = update_scores_by S (remove1 t ?txs) (take i (tq_scores q) @ drop (Suc i) (tq_scores q)) (RemovedAt i)\<rparr>"])
      (auto simp: queue_remove_def vec_remove_def queue_ok_def scoring_okD(3) length_remove1)
qed

lemma queue_remove_absent:
  assumes "scoring_ok S rank" "queue_ok rank q" "rank tx \<notin> tx_rank rank ` set (tq_transactions q)"
  shows "queue_remove S q tx = Some (False, q)"
proof (cases "queue_search S q tx")
  case (Inr i)
  with queue_search_spec [OF assms(1,2), of tx] assms(3) show ?thesis by (auto simp: image_iff) (metis nth_mem)
qed (simp add: queue_remove_def)

lemma first_non_stalled_le: "fst (first_non_stalled R r txs) \<le> length txs"
proof (induction txs arbitrary: r)
  case (Cons t ts)
  show ?case
    using Cons.IH [of "snd (R r (pt_transaction t))"] by (auto split: prod.splits readiness.splits)
qed simp

lemma cull_pop_rev:
  "n \<le> length txs \<Longrightarrow> length scores = length txs \<Longrightarrow>
    cull_pop n (rev txs) (rev scores) acc = Some (rev (drop n txs), rev (drop n scores), acc @ take n txs)"
proof (induction n arbitrary: txs scores acc)
  case (Suc n)
  then obtain t ts c cs where "txs = t # ts" "scores = c # cs"
    by (metis Suc_le_length_iff length_Suc_conv)
  with Suc show ?case by simp
qed simp

lemma queue_cull_eq:
  assumes "queue_ok rank q" "first_non_stalled R r (tq_transactions q) = (n, r')"
  shows "queue_cull S R r q = Some (rev (take n (tq_transactions q)),
    (if n = 0 then q else \<lparr>tq_transactions = drop n (tq_transactions q),
       tq_scores = update_scores_by S (drop n (tq_transactions q)) (drop n (tq_scores q)) (Culled n)\<rparr>), r')"
proof -
  have n: "n \<le> length (tq_transactions q)" using first_non_stalled_le [of R r "tq_transactions q"] assms(2) by simp
  have "length (tq_scores q) = length (tq_transactions q)" using assms(1) by (simp add: queue_ok_def)
  from cull_pop_rev [OF n this, of "[]"] n assms(2) show ?thesis
    by (auto simp: queue_cull_def transactions_is_empty_def)
qed

lemma queue_cull_ok:
  assumes "scoring_ok S rank" "queue_ok rank q"
  obtains n q' r' where "first_non_stalled R r (tq_transactions q) = (n, r')"
    "queue_cull S R r q = Some (rev (take n (tq_transactions q)), q', r')"
    "queue_ok rank q'" "tq_transactions q' = drop n (tq_transactions q)" "n = 0 \<Longrightarrow> q' = q"
proof -
  obtain n r' where n: "first_non_stalled R r (tq_transactions q) = (n, r')" by fastforce
  show thesis
    using that [OF n queue_cull_eq [OF assms(2) n]] assms
    by (auto simp: queue_ok_def scoring_okD(3) sorted_wrt_drop)
qed

text \<open>The worst and the best transaction of a queue, in the sense of its order.\<close>

lemma worst_and_best_eq:
  assumes "queue_ok rank q"
  shows "worst_and_best q = Some (if tq_transactions q = [] then None
    else Some ((last (tq_scores q), last (tq_transactions q)), (hd (tq_scores q), hd (tq_transactions q))))"
proof (cases "tq_scores q")
  case Nil
  with assms show ?thesis by (simp add: worst_and_best_def queue_ok_def)
next
  case (Cons c cs)
  with assms have "tq_transactions q \<noteq> []" "length (tq_transactions q) = Suc (length cs)" by (auto simp: queue_ok_def)
  with Cons show ?thesis
    by (simp add: worst_and_best_def nth_checked_def last_conv_nth hd_conv_nth Let_def)
qed

lemma find_next_eq:
  assumes "scoring_ok S rank" "queue_ok rank q" "i < length (tq_transactions q)"
  shows "find_next S q (pt_transaction (tq_transactions q ! i)) =
    Some (if Suc i < length (tq_transactions q) then Some (tq_scores q ! Suc i, tq_transactions q ! Suc i) else None)"
  using assms(2) queue_search_member [OF assms] by (simp add: find_next_def queue_ok_def nth_checked_def)

end
