(* ===== verification/Pool.thy ===== *)
theory Pool
  imports Pool_Queue
begin

text \<open>
  The transaction pool (src/pool/src/transaction_pool/pool.rs, with error.rs, listener.rs, options.rs,
  replace.rs and status.rs): the queues of the senders, the transactions by hash, and the best and the worst
  transaction of every sender ordered by score. The transactions, the scoring and the listener are
  parameters, since the pool is generic in them.
\<close>

section \<open>Parameters and data\<close>

datatype 'h pool_error =
    AlreadyImported 'h
  | TooCheapToEnter 'h string
  | TooCheapToReplace 'h 'h

record ('a, 'h, 'l) listener =
  on_added :: "'l \<Rightarrow> 'a \<Rightarrow> 'a option \<Rightarrow> 'l"
  on_rejected :: "'l \<Rightarrow> 'a \<Rightarrow> 'h pool_error \<Rightarrow> 'l"
  on_dropped :: "'l \<Rightarrow> 'a \<Rightarrow> 'a option \<Rightarrow> 'l"
  on_invalid :: "'l \<Rightarrow> 'a \<Rightarrow> 'l"
  on_canceled :: "'l \<Rightarrow> 'a \<Rightarrow> 'l"
  on_culled :: "'l \<Rightarrow> 'a \<Rightarrow> 'l"

definition noop_listener :: "('a, 'h, unit) listener" where
  "noop_listener = \<lparr>on_added = (\<lambda>l _ _. l), on_rejected = (\<lambda>l _ _. l), on_dropped = (\<lambda>l _ _. l),
    on_invalid = (\<lambda>l _. l), on_canceled = (\<lambda>l _. l), on_culled = (\<lambda>l _. l)\<rparr>"

definition listener_pair :: "('a, 'h, 'l) listener \<Rightarrow> ('a, 'h, 'k) listener \<Rightarrow> ('a, 'h, 'l \<times> 'k) listener" where
  "listener_pair A B = \<lparr>
    on_added = (\<lambda>(l, k) tx old. (on_added A l tx old, on_added B k tx old)),
    on_rejected = (\<lambda>(l, k) tx reason. (on_rejected A l tx reason, on_rejected B k tx reason)),
    on_dropped = (\<lambda>(l, k) tx by. (on_dropped A l tx by, on_dropped B k tx by)),
    on_invalid = (\<lambda>(l, k) tx. (on_invalid A l tx, on_invalid B k tx)),
    on_canceled = (\<lambda>(l, k) tx. (on_canceled A l tx, on_canceled B k tx)),
    on_culled = (\<lambda>(l, k) tx. (on_culled A l tx, on_culled B k tx))\<rparr>"

text \<open>What the pool is generic in: \<^verbatim>\<open>VerifiedTransaction\<close>, \<^verbatim>\<open>Scoring\<close>, \<^verbatim>\<open>Listener\<close>, and the build profile.\<close>

record ('a, 'h, 's, 'c, 'e, 'l) pool_env =
  pool_checks :: bool
  vt_hash :: "'a \<Rightarrow> 'h"
  vt_mem_usage :: "'a \<Rightarrow> u64"
  vt_sender :: "'a \<Rightarrow> 's"
  pool_scoring :: "('a, 'c, 'e) scoring"
  pool_listener :: "('a, 'h, 'l) listener"

record pool_options =
  max_count :: u64
  max_per_sender :: u64
  max_mem_usage :: u64

definition options_default :: pool_options where
  "options_default = \<lparr>max_count = 1024, max_per_sender = 16, max_mem_usage = 8 * 1024 * 1024\<rparr>"

record 'a replace_transaction =
  rt_transaction :: "'a pool_tx"
  rt_pooled_by_sender :: "'a pool_tx list option"

type_synonym 'a should_replace = "'a replace_transaction \<Rightarrow> 'a replace_transaction \<Rightarrow> choice"

record ('a, 'h, 's, 'c, 'l) pool =
  pl_listener :: 'l
  pl_options :: pool_options
  pl_mem_usage :: u64
  pl_transactions :: "('s \<times> ('a, 'c) transactions) list"
  pl_by_hash :: "('h \<times> 'a pool_tx) list"
  pl_best :: "('a, 'c) score_ref list"
  pl_worst :: "('a, 'c) score_ref list"
  pl_insertion_id :: u64

abbreviation tx_hash_of :: "('a, 'h, 's, 'c, 'e, 'l, 'z) pool_env_scheme \<Rightarrow> 'a pool_tx \<Rightarrow> 'h" where
  "tx_hash_of P t \<equiv> vt_hash P (pt_transaction t)"

abbreviation tx_sender_of :: "('a, 'h, 's, 'c, 'e, 'l, 'z) pool_env_scheme \<Rightarrow> 'a pool_tx \<Rightarrow> 's" where
  "tx_sender_of P t \<equiv> vt_sender P (pt_transaction t)"

definition pool_new :: "'l \<Rightarrow> pool_options \<Rightarrow> ('a, 'h, 's, 'c, 'l) pool" where
  "pool_new l opts = \<lparr>pl_listener = l, pl_options = opts, pl_mem_usage = 0, pl_transactions = [], pl_by_hash = [],
    pl_best = [], pl_worst = [], pl_insertion_id = 0\<rparr>"

section \<open>Bookkeeping\<close>

definition finalize_remove ::
  "('a, 'h, 's, 'c, 'e, 'l, 'z) pool_env_scheme \<Rightarrow> ('a, 'h, 's, 'c, 'l) pool \<Rightarrow> 'h
     \<Rightarrow> ('a option \<times> ('a, 'h, 's, 'c, 'l) pool) option" where
  "finalize_remove P p h =
    (case map_of (pl_by_hash p) h of
       None \<Rightarrow> Some (None, p)
     | Some old \<Rightarrow>
         do { m \<leftarrow> usub (pool_checks P) (pl_mem_usage p) (vt_mem_usage P (pt_transaction old));
              Some (Some (pt_transaction old), p\<lparr>pl_mem_usage := m, pl_by_hash := AList.delete h (pl_by_hash p)\<rparr>) })"

definition finalize_insert ::
  "('a, 'h, 's, 'c, 'e, 'l, 'z) pool_env_scheme \<Rightarrow> ('a, 'h, 's, 'c, 'l) pool \<Rightarrow> 'a pool_tx \<Rightarrow> 'a pool_tx option
     \<Rightarrow> ('a, 'h, 's, 'c, 'l) pool option" where
  "finalize_insert P p new old =
    do { m \<leftarrow> uadd (pool_checks P) (pl_mem_usage p) (vt_mem_usage P (pt_transaction new));
         let p1 = p\<lparr>pl_mem_usage := m, pl_by_hash := AList.update (tx_hash_of P new) new (pl_by_hash p)\<rparr>;
         (case old of
            None \<Rightarrow> Some p1
          | Some t \<Rightarrow> do { (_, p2) \<leftarrow> finalize_remove P p1 (tx_hash_of P t); Some p2 }) }"

abbreviation as_ref :: "'c \<times> 'a pool_tx \<Rightarrow> ('a, 'c) score_ref" where
  "as_ref x \<equiv> \<lparr>sr_score = fst x, sr_transaction = snd x\<rparr>"

definition is_same ::
  "('a, 'h, 's, 'c, 'e, 'l, 'z) pool_env_scheme \<Rightarrow> 'c \<times> 'a pool_tx \<Rightarrow> 'c \<times> 'a pool_tx \<Rightarrow> bool" where
  "is_same P a b \<longleftrightarrow> fst a = fst b \<and> tx_hash_of P (snd a) = tx_hash_of P (snd b)"

definition update_collection ::
  "('a, 'c::linorder) score_ref list \<Rightarrow> 'c \<times> 'a pool_tx \<Rightarrow> bool \<Rightarrow> ('a, 'c) score_ref list" where
  "update_collection coll x remove =
    (if remove then btree_remove score_ref_cmp (as_ref x) coll else btree_insert score_ref_cmp (as_ref x) coll)"

definition update_senders_worst_and_best ::
  "('a, 'h, 's, 'c::linorder, 'e, 'l, 'z) pool_env_scheme \<Rightarrow> ('a, 'h, 's, 'c, 'l) pool
     \<Rightarrow> (('c \<times> 'a pool_tx) \<times> ('c \<times> 'a pool_tx)) option \<Rightarrow> (('c \<times> 'a pool_tx) \<times> ('c \<times> 'a pool_tx)) option
     \<Rightarrow> ('a, 'h, 's, 'c, 'l) pool" where
  "update_senders_worst_and_best P p previous current =
    (case (previous, current) of
       (None, Some (w, b)) \<Rightarrow>
         p\<lparr>pl_worst := update_collection (pl_worst p) w False, pl_best := update_collection (pl_best p) b False\<rparr>
     | (Some (w, b), None) \<Rightarrow>
         p\<lparr>pl_transactions := AList.delete (tx_sender_of P (snd w)) (pl_transactions p),
           pl_worst := update_collection (pl_worst p) w True, pl_best := update_collection (pl_best p) b True\<rparr>
     | (Some (w1, b1), Some (w2, b2)) \<Rightarrow>
         p\<lparr>pl_worst := (if is_same P w1 w2 then pl_worst p
              else update_collection (update_collection (pl_worst p) w1 True) w2 False),
           pl_best := (if is_same P b1 b2 then pl_best p
              else update_collection (update_collection (pl_best p) b1 True) b2 False)\<rparr>
     | (None, None) \<Rightarrow> p)"

definition remove_from_set ::
  "('a, 'h, 's, 'c::linorder, 'e, 'l, 'z) pool_env_scheme \<Rightarrow> ('a, 'h, 's, 'c, 'l) pool \<Rightarrow> 's
     \<Rightarrow> (('a, 'c) transactions \<Rightarrow> ('x \<times> ('a, 'c) transactions) option) \<Rightarrow> ('x option \<times> ('a, 'h, 's, 'c, 'l) pool) option" where
  "remove_from_set P p sender f =
    (case map_of (pl_transactions p) sender of
       None \<Rightarrow> Some (None, p)
     | Some q \<Rightarrow>
         do { prev \<leftarrow> worst_and_best q;
              (result, q') \<leftarrow> f q;
              nxt \<leftarrow> worst_and_best q';
              let p1 = p\<lparr>pl_transactions := AList.update sender q' (pl_transactions p)\<rparr>;
              Some (Some result, update_senders_worst_and_best P p1 prev nxt) })"

section \<open>Import\<close>

definition remove_worst ::
  "('a, 'h, 's, 'c::linorder, 'e, 'l, 'z) pool_env_scheme \<Rightarrow> 'a should_replace \<Rightarrow> ('a, 'h, 's, 'c, 'l) pool \<Rightarrow> 'a pool_tx
     \<Rightarrow> (('h pool_error + 'a pool_tx option) \<times> ('a, 'h, 's, 'c, 'l) pool) option" where
  "remove_worst P rep p tx =
    (case btree_last (pl_worst p) of
       None \<Rightarrow> Some (Inl (TooCheapToEnter (tx_hash_of P tx) ''unknown''), p)
     | Some old \<Rightarrow>
        (let sender_txs = map_option tq_transactions (map_of (pl_transactions p) (tx_sender_of P tx));
             old_replace = \<lparr>rt_transaction = sr_transaction old, rt_pooled_by_sender = sender_txs\<rparr>;
             new_replace = \<lparr>rt_transaction = tx, rt_pooled_by_sender = sender_txs\<rparr>
         in case rep old_replace new_replace of
              InsertNew \<Rightarrow> Some (Inr None, p)
            | RejectNew \<Rightarrow> Some (Inl (TooCheapToEnter (tx_hash_of P tx) (show_score (pool_scoring P) (sr_score old))), p)
            | ReplaceOld \<Rightarrow>
                do { (_, p1) \<leftarrow> remove_from_set P p (tx_sender_of P (sr_transaction old))
                       (\<lambda>q. queue_remove (pool_scoring P) q (pt_transaction (sr_transaction old)));
                     Some (Inr (Some (sr_transaction old)), p1) }))"

text \<open>The closure \<^verbatim>\<open>remove_worst\<close> of \<^verbatim>\<open>import\<close>: whether something was removed.\<close>

definition make_room ::
  "('a, 'h, 's, 'c::linorder, 'e, 'l, 'z) pool_env_scheme \<Rightarrow> 'a should_replace \<Rightarrow> ('a, 'h, 's, 'c, 'l) pool \<Rightarrow> 'a pool_tx
     \<Rightarrow> (('h pool_error + bool) \<times> ('a, 'h, 's, 'c, 'l) pool) option" where
  "make_room P rep p tx =
    do { (r, p1) \<leftarrow> remove_worst P rep p tx;
         (case r of
            Inl err \<Rightarrow> Some (Inl err, p1\<lparr>pl_listener := on_rejected (pool_listener P) (pl_listener p1) (pt_transaction tx) err\<rparr>)
          | Inr None \<Rightarrow> Some (Inr False, p1)
          | Inr (Some removed) \<Rightarrow>
              do { let p2 = p1\<lparr>pl_listener :=
                     on_dropped (pool_listener P) (pl_listener p1) (pt_transaction removed) (Some (pt_transaction tx))\<rparr>;
                   (_, p3) \<leftarrow> finalize_remove P p2 (tx_hash_of P removed);
                   Some (Inr True, p3) }) }"

text \<open>The two loops; \<^term>\<open>None\<close> is a loop that does not end, \<^term>\<open>Some None\<close> a panic.\<close>

partial_function (option) count_loop ::
  "('a, 'h, 's, 'c::linorder, 'e, 'l, 'z) pool_env_scheme \<Rightarrow> 'a should_replace \<Rightarrow> ('a, 'h, 's, 'c, 'l) pool \<Rightarrow> 'a pool_tx
     \<Rightarrow> (('h pool_error + unit) \<times> ('a, 'h, 's, 'c, 'l) pool) option option" where
  [code]: "count_loop P rep p tx =
    (if length (pl_by_hash p) + 1 > unat (max_count (pl_options p))
     then case make_room P rep p tx of
            None \<Rightarrow> Some None
          | Some (Inl e, p') \<Rightarrow> Some (Some (Inl e, p'))
          | Some (Inr again, p') \<Rightarrow> if again then count_loop P rep p' tx else Some (Some (Inr (), p'))
     else Some (Some (Inr (), p)))"

partial_function (option) mem_loop ::
  "('a, 'h, 's, 'c::linorder, 'e, 'l, 'z) pool_env_scheme \<Rightarrow> 'a should_replace \<Rightarrow> ('a, 'h, 's, 'c, 'l) pool \<Rightarrow> 'a pool_tx
     \<Rightarrow> (('h pool_error + unit) \<times> ('a, 'h, 's, 'c, 'l) pool) option option" where
  [code]: "mem_loop P rep p tx =
    (case uadd (pool_checks P) (pl_mem_usage p) (vt_mem_usage P (pt_transaction tx)) of
       None \<Rightarrow> Some None
     | Some used \<Rightarrow>
        if used > max_mem_usage (pl_options p)
        then case make_room P rep p tx of
               None \<Rightarrow> Some None
             | Some (Inl e, p') \<Rightarrow> Some (Some (Inl e, p'))
             | Some (Inr again, p') \<Rightarrow> if again then mem_loop P rep p' tx else Some (Some (Inr (), p'))
        else Some (Some (Inr (), p)))"

text \<open>What follows the loops: the transaction goes into the queue of its sender.\<close>

definition import_insert ::
  "('a, 'h, 's, 'c::linorder, 'e, 'l, 'z) pool_env_scheme \<Rightarrow> ('a, 'h, 's, 'c, 'l) pool \<Rightarrow> 'a pool_tx
     \<Rightarrow> (('h pool_error + 'a) \<times> ('a, 'h, 's, 'c, 'l) pool) option" where
  "import_insert P p tx =
    (let sender = tx_sender_of P tx;
         q = (case map_of (pl_transactions p) sender of None \<Rightarrow> transactions_default | Some q \<Rightarrow> q)
     in do {
       prev \<leftarrow> worst_and_best q;
       (result, q') \<leftarrow> queue_add (pool_scoring P) q tx (max_per_sender (pl_options p));
       current \<leftarrow> worst_and_best q';
       let p1 = update_senders_worst_and_best P (p\<lparr>pl_transactions := AList.update sender q' (pl_transactions p)\<rparr>) prev current;
       (case result of
          AddOk t \<Rightarrow>
            do { let p2 = p1\<lparr>pl_listener := on_added (pool_listener P) (pl_listener p1) (pt_transaction t) None\<rparr>;
                 p3 \<leftarrow> finalize_insert P p2 t None;
                 Some (Inr (pt_transaction t), p3) }
        | PushedOut old new \<Rightarrow>
            do { let p2 = p1\<lparr>pl_listener :=
                   on_added (pool_listener P) (pl_listener p1) (pt_transaction new) (Some (pt_transaction old))\<rparr>;
                 p3 \<leftarrow> finalize_insert P p2 new (Some old);
                 Some (Inr (pt_transaction new), p3) }
        | Replaced old new \<Rightarrow>
            do { let p2 = p1\<lparr>pl_listener :=
                   on_added (pool_listener P) (pl_listener p1) (pt_transaction new) (Some (pt_transaction old))\<rparr>;
                 p3 \<leftarrow> finalize_insert P p2 new (Some old);
                 Some (Inr (pt_transaction new), p3) }
        | TooCheap old new \<Rightarrow>
            (let err = TooCheapToReplace (tx_hash_of P old) (tx_hash_of P new)
             in Some (Inl err, p1\<lparr>pl_listener := on_rejected (pool_listener P) (pl_listener p1) (pt_transaction new) err\<rparr>))
        | AddTooCheapToEnter new score \<Rightarrow>
            (let err = TooCheapToEnter (tx_hash_of P new) (show_score (pool_scoring P) score)
             in Some (Inl err, p1\<lparr>pl_listener := on_rejected (pool_listener P) (pl_listener p1) (pt_transaction new) err\<rparr>))) })"

definition pool_import ::
  "('a, 'h, 's, 'c::linorder, 'e, 'l, 'z) pool_env_scheme \<Rightarrow> 'a should_replace \<Rightarrow> ('a, 'h, 's, 'c, 'l) pool \<Rightarrow> 'a
     \<Rightarrow> (('h pool_error + 'a) \<times> ('a, 'h, 's, 'c, 'l) pool) option option" where
  "pool_import P rep p a =
    (if map_of (pl_by_hash p) (vt_hash P a) \<noteq> None then Some (Some (Inl (AlreadyImported (vt_hash P a)), p))
     else case uadd (pool_checks P) (pl_insertion_id p) 1 of
       None \<Rightarrow> Some None
     | Some iid \<Rightarrow>
        (let tx = \<lparr>pt_insertion_id = iid, pt_transaction = a\<rparr>;
             p1 = p\<lparr>pl_insertion_id := iid\<rparr>
         in case count_loop P rep p1 tx of
              None \<Rightarrow> None
            | Some None \<Rightarrow> Some None
            | Some (Some (Inl e, p2)) \<Rightarrow> Some (Some (Inl e, p2))
            | Some (Some (Inr _, p2)) \<Rightarrow>
               (case mem_loop P rep p2 tx of
                  None \<Rightarrow> None
                | Some None \<Rightarrow> Some None
                | Some (Some (Inl e, p3)) \<Rightarrow> Some (Some (Inl e, p3))
                | Some (Some (Inr _, p3)) \<Rightarrow> Some (import_insert P p3 tx))))"

section \<open>Removal\<close>

definition pool_clear ::
  "('a, 'h, 's, 'c, 'e, 'l, 'z) pool_env_scheme \<Rightarrow> ('a, 'h, 's, 'c, 'l) pool \<Rightarrow> ('a, 'h, 's, 'c, 'l) pool" where
  "pool_clear P p =
    p\<lparr>pl_mem_usage := 0, pl_transactions := [], pl_best := [], pl_worst := [], pl_by_hash := [],
      pl_listener := fold (\<lambda>(_, tx) l. on_dropped (pool_listener P) l (pt_transaction tx) None) (pl_by_hash p) (pl_listener p)\<rparr>"

definition pool_remove ::
  "('a, 'h, 's, 'c::linorder, 'e, 'l, 'z) pool_env_scheme \<Rightarrow> ('a, 'h, 's, 'c, 'l) pool \<Rightarrow> 'h \<Rightarrow> bool
     \<Rightarrow> ('a option \<times> ('a, 'h, 's, 'c, 'l) pool) option" where
  "pool_remove P p h is_invalid =
    do { (r, p1) \<leftarrow> finalize_remove P p h;
         (case r of
            None \<Rightarrow> Some (None, p1)
          | Some tx \<Rightarrow>
              do { (_, p2) \<leftarrow> remove_from_set P p1 (vt_sender P tx) (\<lambda>q. queue_remove (pool_scoring P) q tx);
                   Some (Some tx, p2\<lparr>pl_listener :=
                     (if is_invalid then on_invalid (pool_listener P) (pl_listener p2) tx
                      else on_canceled (pool_listener P) (pl_listener p2) tx)\<rparr>) }) }"

fun finalize_culled ::
  "('a, 'h, 's, 'c, 'e, 'l, 'z) pool_env_scheme \<Rightarrow> ('a, 'h, 's, 'c, 'l) pool \<Rightarrow> 'a pool_tx list
     \<Rightarrow> ('a, 'h, 's, 'c, 'l) pool option" where
  "finalize_culled P p [] = Some p"
| "finalize_culled P p (tx # txs) =
    do { (_, p1) \<leftarrow> finalize_remove P p (tx_hash_of P tx);
         finalize_culled P (p1\<lparr>pl_listener := on_culled (pool_listener P) (pl_listener p1) (pt_transaction tx)\<rparr>) txs }"

definition remove_stalled ::
  "('a, 'h, 's, 'c::linorder, 'e, 'l, 'z) pool_env_scheme \<Rightarrow> ('r, 'a) is_ready \<Rightarrow> 'r \<Rightarrow> ('a, 'h, 's, 'c, 'l) pool \<Rightarrow> 's
     \<Rightarrow> (nat \<times> 'r \<times> ('a, 'h, 's, 'c, 'l) pool) option" where
  "remove_stalled P R r p sender =
    do { (res, p1) \<leftarrow> remove_from_set P p sender
           (\<lambda>q. do { (removed, q', r') \<leftarrow> queue_cull (pool_scoring P) R r q; Some ((removed, r'), q') });
         (case res of
            Some (removed, r') \<Rightarrow> do { p2 \<leftarrow> finalize_culled P p1 removed; Some (length removed, r', p2) }
          | None \<Rightarrow> Some (0, r, p1)) }"

fun cull_senders ::
  "('a, 'h, 's, 'c::linorder, 'e, 'l, 'z) pool_env_scheme \<Rightarrow> ('r, 'a) is_ready \<Rightarrow> 'r \<Rightarrow> ('a, 'h, 's, 'c, 'l) pool \<Rightarrow> 's list
     \<Rightarrow> (nat \<times> ('a, 'h, 's, 'c, 'l) pool) option" where
  "cull_senders P R r p [] = Some (0, p)"
| "cull_senders P R r p (s # ss) =
    do { (n, r', p1) \<leftarrow> remove_stalled P R r p s;
         (m, p2) \<leftarrow> cull_senders P R r' p1 ss;
         Some (n + m, p2) }"

definition pool_cull ::
  "('a, 'h, 's, 'c::linorder, 'e, 'l, 'z) pool_env_scheme \<Rightarrow> 's list option \<Rightarrow> ('r, 'a) is_ready \<Rightarrow> 'r
     \<Rightarrow> ('a, 'h, 's, 'c, 'l) pool \<Rightarrow> (nat \<times> ('a, 'h, 's, 'c, 'l) pool) option" where
  "pool_cull P senders R r p =
    cull_senders P R r p (case senders of Some ss \<Rightarrow> ss | None \<Rightarrow> map fst (pl_transactions p))"

section \<open>Queries\<close>

definition pool_find :: "('a, 'h, 's, 'c, 'l) pool \<Rightarrow> 'h \<Rightarrow> 'a option" where
  "pool_find p h = map_option pt_transaction (map_of (pl_by_hash p) h)"

definition worst_transaction :: "('a, 'h, 's, 'c, 'l) pool \<Rightarrow> 'a option" where
  "worst_transaction p = map_option (\<lambda>x. pt_transaction (sr_transaction x)) (btree_last (pl_worst p))"

definition is_full :: "('a, 'h, 's, 'c, 'l) pool \<Rightarrow> bool" where
  "is_full p \<longleftrightarrow> length (pl_by_hash p) \<ge> unat (max_count (pl_options p)) \<or> pl_mem_usage p \<ge> max_mem_usage (pl_options p)"

definition pool_senders :: "('a, 'h, 's, 'c, 'e, 'l, 'z) pool_env_scheme \<Rightarrow> ('a, 'h, 's, 'c, 'l) pool \<Rightarrow> 's list" where
  "pool_senders P p = map (\<lambda>x. tx_sender_of P (sr_transaction x)) (pl_best p)"

definition pool_update_scores ::
  "('a, 'h, 's, 'c::linorder, 'e, 'l, 'z) pool_env_scheme \<Rightarrow> ('a, 'h, 's, 'c, 'l) pool \<Rightarrow> 's \<Rightarrow> 'e
     \<Rightarrow> ('a, 'h, 's, 'c, 'l) pool option" where
  "pool_update_scores P p sender event =
    (case map_of (pl_transactions p) sender of
       None \<Rightarrow> Some p
     | Some q \<Rightarrow>
        (let q' = queue_update_scores (pool_scoring P) q event
         in do { prev \<leftarrow> worst_and_best q;
                 current \<leftarrow> worst_and_best q';
                 Some (update_senders_worst_and_best P (p\<lparr>pl_transactions := AList.update sender q' (pl_transactions p)\<rparr>)
                   prev current) }))"

record pool_status =
  st_stalled :: nat
  st_pending :: nat
  st_future :: nat

fun status_queue :: "('r, 'a) is_ready \<Rightarrow> 'r \<Rightarrow> pool_status \<Rightarrow> 'a pool_tx list \<Rightarrow> pool_status \<times> 'r" where
  "status_queue R r st [] = (st, r)"
| "status_queue R r st (tx # txs) =
    (case R r (pt_transaction tx) of
       (Stale, r') \<Rightarrow> status_queue R r' (st\<lparr>st_stalled := st_stalled st + 1\<rparr>) txs
     | (Ready, r') \<Rightarrow> status_queue R r' (st\<lparr>st_pending := st_pending st + 1\<rparr>) txs
     | (Future, r') \<Rightarrow> (st\<lparr>st_future := st_future st + length (tx # txs)\<rparr>, r'))"

definition pool_status_of :: "('r, 'a) is_ready \<Rightarrow> 'r \<Rightarrow> ('a, 'h, 's, 'c, 'l) pool \<Rightarrow> pool_status" where
  "pool_status_of R r p =
    fst (fold (\<lambda>(_, q) (st, r'). status_queue R r' st (tq_transactions q)) (pl_transactions p)
      (\<lparr>st_stalled = 0, st_pending = 0, st_future = 0\<rparr>, r))"

record light_status =
  ls_mem_usage :: u64
  ls_transaction_count :: nat
  ls_senders :: nat

definition pool_light_status :: "('a, 'h, 's, 'c, 'l) pool \<Rightarrow> light_status" where
  "pool_light_status p = \<lparr>ls_mem_usage = pl_mem_usage p, ls_transaction_count = length (pl_by_hash p),
    ls_senders = length (pl_transactions p)\<rparr>"

section \<open>Iterators\<close>

text \<open>\<^verbatim>\<open>UnorderedIterator::next\<close>: the rest of the senders and the rest of the current queue.\<close>

fun unordered_next ::
  "('r, 'a) is_ready \<Rightarrow> 'r \<Rightarrow> 'a pool_tx list option \<Rightarrow> ('s \<times> ('a, 'c) transactions) list
     \<Rightarrow> 'a option \<times> 'r \<times> 'a pool_tx list option \<times> ('s \<times> ('a, 'c) transactions) list" where
  "unordered_next R r (Some (tx # rest)) senders =
    (case R r (pt_transaction tx) of
       (Ready, r') \<Rightarrow> (Some (pt_transaction tx), r', Some rest, senders)
     | (_, r') \<Rightarrow>
        (case senders of
           [] \<Rightarrow> (None, r', Some rest, [])
         | (_, q) # qs \<Rightarrow> unordered_next R r' (Some (tq_transactions q)) qs))"
| "unordered_next R r (Some []) senders =
    (case senders of [] \<Rightarrow> (None, r, Some [], []) | (_, q) # qs \<Rightarrow> unordered_next R r (Some (tq_transactions q)) qs)"
| "unordered_next R r None senders =
    (case senders of [] \<Rightarrow> (None, r, None, []) | (_, q) # qs \<Rightarrow> unordered_next R r (Some (tq_transactions q)) qs)"

text \<open>\<^verbatim>\<open>unordered_pending\<close>: the iterator at its start, as the arguments of \<^const>\<open>unordered_next\<close>.\<close>

definition unordered_pending ::
  "'r \<Rightarrow> ('a, 'h, 's, 'c, 'l) pool \<Rightarrow> 'r \<times> 'a pool_tx list option \<times> ('s \<times> ('a, 'c) transactions) list" where
  "unordered_pending r p = (r, None, pl_transactions p)"

text \<open>\<^verbatim>\<open>PendingIterator\<close>: the readiness and the next transaction of every sender.\<close>

record ('a, 'c, 'r) pending_iterator =
  pi_ready :: 'r
  pi_best :: "('a, 'c) score_ref list"

definition pool_pending :: "'r \<Rightarrow> ('a, 'h, 's, 'c, 'l) pool \<Rightarrow> ('a, 'c, 'r) pending_iterator" where
  "pool_pending r p = \<lparr>pi_ready = r, pi_best = pl_best p\<rparr>"

definition pending_from_sender ::
  "'r \<Rightarrow> ('a, 'h, 's, 'c::linorder, 'l) pool \<Rightarrow> 's \<Rightarrow> ('a, 'c, 'r) pending_iterator option" where
  "pending_from_sender r p sender =
    (case map_of (pl_transactions p) sender of
       None \<Rightarrow> Some \<lparr>pi_ready = r, pi_best = []\<rparr>
     | Some q \<Rightarrow>
        do { wb \<leftarrow> worst_and_best q;
             Some \<lparr>pi_ready = r, pi_best =
               (case wb of None \<Rightarrow> [] | Some (_, best) \<Rightarrow> btree_insert score_ref_cmp (as_ref best) [])\<rparr> })"

text \<open>One round of the loop of \<^verbatim>\<open>next\<close>, on the first of the best transactions.\<close>

definition pending_round ::
  "('a, 'h, 's, 'c::linorder, 'e, 'l, 'z) pool_env_scheme \<Rightarrow> ('r, 'a) is_ready \<Rightarrow> ('a, 'h, 's, 'c, 'l) pool
     \<Rightarrow> ('a, 'c, 'r) pending_iterator \<Rightarrow> ('a, 'c) score_ref \<Rightarrow> (readiness \<times> ('a, 'c, 'r) pending_iterator) option" where
  "pending_round P R p it best =
    (let best_set = btree_remove score_ref_cmp best (pi_best it)
     in case R (pi_ready it) (pt_transaction (sr_transaction best)) of
          (state, r') \<Rightarrow>
            (if state = Future then Some (state, \<lparr>pi_ready = r', pi_best = best_set\<rparr>)
             else case map_of (pl_transactions p) (tx_sender_of P (sr_transaction best)) of
                    None \<Rightarrow> Some (state, \<lparr>pi_ready = r', pi_best = best_set\<rparr>)
                  | Some q \<Rightarrow>
                      do { nxt \<leftarrow> find_next (pool_scoring P) q (pt_transaction (sr_transaction best));
                           Some (state, \<lparr>pi_ready = r', pi_best =
                             (case nxt of None \<Rightarrow> best_set | Some x \<Rightarrow> btree_insert score_ref_cmp (as_ref x) best_set)\<rparr>) }))"

partial_function (option) pending_next ::
  "('a, 'h, 's, 'c::linorder, 'e, 'l, 'z) pool_env_scheme \<Rightarrow> ('r, 'a) is_ready \<Rightarrow> ('a, 'h, 's, 'c, 'l) pool
     \<Rightarrow> ('a, 'c, 'r) pending_iterator \<Rightarrow> ('a option \<times> ('a, 'c, 'r) pending_iterator) option option" where
  [code]: "pending_next P R p it =
    (case btree_first (pi_best it) of
       None \<Rightarrow> Some (Some (None, it))
     | Some best \<Rightarrow>
        (case pending_round P R p it best of
           None \<Rightarrow> Some None
         | Some (state, it') \<Rightarrow>
             if state = Ready then Some (Some (Some (pt_transaction (sr_transaction best)), it'))
             else pending_next P R p it'))"

text \<open>The transactions a caller gets that asks until there is none left.\<close>

partial_function (option) pending_collect ::
  "('a, 'h, 's, 'c::linorder, 'e, 'l, 'z) pool_env_scheme \<Rightarrow> ('r, 'a) is_ready \<Rightarrow> ('a, 'h, 's, 'c, 'l) pool
     \<Rightarrow> ('a, 'c, 'r) pending_iterator \<Rightarrow> 'a list option option" where
  [code]: "pending_collect P R p it =
    (case pending_next P R p it of
       None \<Rightarrow> None
     | Some None \<Rightarrow> Some None
     | Some (Some (None, _)) \<Rightarrow> Some (Some [])
     | Some (Some (Some a, it')) \<Rightarrow>
        do { rest \<leftarrow> pending_collect P R p it'; Some (map_option (Cons a) rest) })"

end
