(* ===== verification/Pool_Inv.thy ===== *)
theory Pool_Inv
  imports Pool
begin

text \<open>
  The consistency of the transaction pool: its four views of the same transactions (queues, hashes, best and
  worst) agree, and every operation keeps them so.
\<close>

section \<open>The invariant\<close>

text \<open>All transactions in the queues, and the ends of the queues; \<open>Q\<close> is the dictionary of the queues.\<close>

definition queued :: "('s \<Rightarrow> ('a, 'c) transactions option) \<Rightarrow> 'a pool_tx set" where
  "queued Q = (\<Union>q \<in> ran Q. set (tq_transactions q))"

definition best_ref :: "('a, 'c) transactions \<Rightarrow> 'c \<times> 'a pool_tx" where
  "best_ref q = (hd (tq_scores q), hd (tq_transactions q))"

definition worst_ref :: "('a, 'c) transactions \<Rightarrow> 'c \<times> 'a pool_tx" where
  "worst_ref q = (last (tq_scores q), last (tq_transactions q))"

definition refs_ok ::
  "('s \<Rightarrow> ('a, 'c::linorder) transactions option) \<Rightarrow> (('a, 'c) transactions \<Rightarrow> 'c \<times> 'a pool_tx) \<Rightarrow> ('a, 'c) score_ref list \<Rightarrow> bool" where
  "refs_ok Q F coll \<longleftrightarrow> btree_sorted score_ref_cmp coll \<and> set coll = (\<lambda>q. as_ref (F q)) ` ran Q"

definition queues_ok ::
  "('a, 'h, 's, 'c, 'e, 'l, 'z) pool_env_scheme \<Rightarrow> ('a \<Rightarrow> 'k::linorder) \<Rightarrow> u64 \<Rightarrow> ('s \<Rightarrow> ('a, 'c) transactions option) \<Rightarrow> bool" where
  "queues_ok P rank iid Q \<longleftrightarrow>
    (\<forall>s q. Q s = Some q \<longrightarrow> queue_ok rank q \<and> tq_transactions q \<noteq> [] \<and> (\<forall>t \<in> set (tq_transactions q). tx_sender_of P t = s)) \<and>
    inj_on pt_insertion_id (queued Q) \<and> (\<forall>t \<in> queued Q. pt_insertion_id t \<le> iid) \<and> inj_on (tx_hash_of P) (queued Q)"

definition core_ok ::
  "('a, 'h, 's, 'c::linorder, 'e, 'l, 'z) pool_env_scheme \<Rightarrow> ('a \<Rightarrow> 'k::linorder) \<Rightarrow> ('a, 'h, 's, 'c, 'l) pool \<Rightarrow> bool" where
  "core_ok P rank p \<longleftrightarrow>
    (let Q = map_of (pl_transactions p)
     in keys_distinct (pl_transactions p) \<and> queues_ok P rank (pl_insertion_id p) Q \<and>
        refs_ok Q best_ref (pl_best p) \<and> refs_ok Q worst_ref (pl_worst p))"

text \<open>The dictionary by hash and the memory counter, for a set \<open>A\<close> of transactions.\<close>

definition tracks ::
  "('a, 'h, 's, 'c, 'e, 'l, 'z) pool_env_scheme \<Rightarrow> ('a, 'h, 's, 'c, 'l) pool \<Rightarrow> 'a pool_tx set \<Rightarrow> bool" where
  "tracks P p A \<longleftrightarrow> finite A \<and> keys_distinct (pl_by_hash p) \<and> length (pl_by_hash p) = card A \<and>
    (\<forall>h t. map_of (pl_by_hash p) h = Some t \<longleftrightarrow> t \<in> A \<and> tx_hash_of P t = h) \<and>
    unat (pl_mem_usage p) = (\<Sum>t\<in>A. unat (vt_mem_usage P (pt_transaction t)))"

definition pool_ok ::
  "('a, 'h, 's, 'c::linorder, 'e, 'l, 'z) pool_env_scheme \<Rightarrow> ('a \<Rightarrow> 'k::linorder) \<Rightarrow> ('a, 'h, 's, 'c, 'l) pool \<Rightarrow> bool" where
  "pool_ok P rank p \<longleftrightarrow> core_ok P rank p \<and> tracks P p (queued (map_of (pl_transactions p)))"

abbreviation pool_txs :: "('a, 'h, 's, 'c, 'l) pool \<Rightarrow> 'a pool_tx set" where
  "pool_txs p \<equiv> queued (map_of (pl_transactions p))"

lemma queued_upd: "queued (Q(s := None)) \<subseteq> queued Q" "queued (Q(s \<mapsto> q)) = set (tq_transactions q) \<union> queued (Q(s := None))"
  by (auto simp: queued_def ran_def split: if_splits)

lemma queued_split: "Q s = Some q \<Longrightarrow> queued Q = set (tq_transactions q) \<union> queued (Q(s := None))"
  using queued_upd(2) [of Q s q] by (simp add: fun_upd_idem)

lemma queued_memberI: "Q s = Some q \<Longrightarrow> t \<in> set (tq_transactions q) \<Longrightarrow> t \<in> queued Q"
  by (auto simp: queued_def ran_def)

lemma queues_okD:
  assumes "queues_ok P rank iid Q" "Q s = Some q"
  shows "queue_ok rank q" "tq_transactions q \<noteq> []" "t \<in> set (tq_transactions q) \<Longrightarrow> tx_sender_of P t = s"
  using assms by (auto simp: queues_ok_def)

lemma queues_ok_apart:
  assumes "queues_ok P rank iid Q" "Q s = Some q"
  shows "set (tq_transactions q) \<inter> queued (Q(s := None)) = {}"
proof (rule equals0I)
  fix t assume "t \<in> set (tq_transactions q) \<inter> queued (Q(s := None))"
  then obtain s' q' where "t \<in> set (tq_transactions q)" "Q s' = Some q'" "s' \<noteq> s" "t \<in> set (tq_transactions q')"
    by (auto simp: queued_def ran_def split: if_splits)
  with queues_okD(3) [OF assms(1)] assms(2) show False by metis
qed

lemma queued_owner:
  assumes "queues_ok P rank iid Q" "t \<in> queued Q"
  obtains q where "Q (tx_sender_of P t) = Some q" "t \<in> set (tq_transactions q)"
proof -
  from assms(2) obtain s q where sq: "Q s = Some q" "t \<in> set (tq_transactions q)" by (auto simp: queued_def ran_def)
  show thesis
    by (rule that [of q]) (simp_all add: queues_okD(3) [OF assms(1) sq] sq)
qed

section \<open>One end of the queues\<close>

text \<open>What \<^verbatim>\<open>update_senders_worst_and_best\<close> does with either collection.\<close>

definition end_update ::
  "('a, 'h, 's, 'c::linorder, 'e, 'l, 'z) pool_env_scheme \<Rightarrow> ('a, 'c) score_ref list \<Rightarrow> ('c \<times> 'a pool_tx) option
     \<Rightarrow> ('c \<times> 'a pool_tx) option \<Rightarrow> ('a, 'c) score_ref list" where
  "end_update P coll prev cur =
    (case (prev, cur) of
       (None, Some b) \<Rightarrow> update_collection coll b False
     | (Some a, None) \<Rightarrow> update_collection coll a True
     | (Some a, Some b) \<Rightarrow> if is_same P a b then coll else update_collection (update_collection coll a True) b False
     | (None, None) \<Rightarrow> coll)"

lemma update_senders_eq:
  "update_senders_worst_and_best P p prev cur =
    p\<lparr>pl_transactions := (case (prev, cur) of (Some (w, _), None) \<Rightarrow> AList.delete (tx_sender_of P (snd w)) (pl_transactions p)
        | _ \<Rightarrow> pl_transactions p),
      pl_worst := end_update P (pl_worst p) (map_option fst prev) (map_option fst cur),
      pl_best := end_update P (pl_best p) (map_option snd prev) (map_option snd cur)\<rparr>"
  by (auto simp: update_senders_worst_and_best_def end_update_def split: option.splits)

lemma end_update_ok:
  assumes coll: "refs_ok Q F coll"
    and old: "\<And>q r. Q s = Some q \<Longrightarrow> r \<in> ran (Q(s := None)) \<Longrightarrow> pt_insertion_id (snd (F r)) \<noteq> pt_insertion_id (snd (F q))"
    and new: "\<And>q r. qn = Some q \<Longrightarrow> r \<in> ran (Q(s := None)) \<Longrightarrow> pt_insertion_id (snd (F r)) \<noteq> pt_insertion_id (snd (F q))"
    and same: "\<And>q q'. \<lbrakk>Q s = Some q; qn = Some q'; is_same P (F q) (F q')\<rbrakk> \<Longrightarrow> F q = F q'"
  shows "refs_ok (Q(s := qn)) F (end_update P coll (map_option F (Q s)) (map_option F qn))"
proof -
  define others where "others = ran (Q(s := None))"
  let ?O = "(\<lambda>q. as_ref (F q)) ` others"
  have ran: "ran (Q(s := x)) = others \<union> (case x of None \<Rightarrow> {} | Some q \<Rightarrow> {q})" for x
    by (auto simp: others_def ran_def split: option.splits if_splits)
  note old = old [folded others_def] and new = new [folded others_def]
  from coll have inv: "btree_sorted score_ref_cmp coll" and set: "set coll = ?O \<union> (case Q s of None \<Rightarrow> {} | Some q \<Rightarrow> {as_ref (F q)})"
    using ran [of "Q s"] by (auto simp: refs_ok_def fun_upd_idem split: option.splits)
  have del: "btree_sorted score_ref_cmp (btree_remove score_ref_cmp (as_ref (F q)) coll)"
    "set (btree_remove score_ref_cmp (as_ref (F q)) coll) = ?O" if "Q s = Some q" for q
  proof -
    have "as_ref (F q) \<noteq> as_ref (F r)" if "r \<in> others" for r
      using old [OF \<open>Q s = Some q\<close> that] by auto
    then have "as_ref (F q) \<notin> ?O" by blast
    then show "set (btree_remove score_ref_cmp (as_ref (F q)) coll) = ?O"
      using bt.del_member [OF inv, of "as_ref (F q)"] set that by auto
  qed (use bt.del_law [OF inv] in simp)
  have ins: "btree_sorted score_ref_cmp (btree_insert score_ref_cmp (as_ref (F q)) d)"
    "set (btree_insert score_ref_cmp (as_ref (F q)) d) = insert (as_ref (F q)) ?O"
    if q: "qn = Some q" and d: "btree_sorted score_ref_cmp d" "set d = ?O" for q d
  proof -
    have "\<not> score_ref_eq (as_ref (F q)) (as_ref (F r))" if "r \<in> others" for r
      using new [OF q that] by (auto simp: score_ref_eq_def)
    then have "\<forall>y \<in> set d. score_ref_cmp (as_ref (F q)) y \<noteq> Equal"
      using d(2) by auto
    from bt.ins_fresh [OF d(1) this] d(2) show "set (btree_insert score_ref_cmp (as_ref (F q)) d) = insert (as_ref (F q)) ?O"
      by simp
  qed (use bt.ins_law [OF d(1)] in simp)
  show ?thesis
  proof (cases "Q s")
    case None
    with inv set ins [OF _ inv] show ?thesis
      by (cases qn) (auto simp: refs_ok_def ran end_update_def update_collection_def)
  next
    case (Some q)
    note d = del [OF Some]
    show ?thesis
    proof (cases qn)
      case None
      with Some d show ?thesis by (simp add: refs_ok_def ran end_update_def update_collection_def)
    next
      case q': (Some q')
      show ?thesis
        using inv set Some q' ins [OF q' d] same [OF Some q'] by (auto simp: refs_ok_def ran end_update_def update_collection_def)
    qed
  qed
qed

section \<open>Replacing one queue\<close>

lemma ref_member:
  "tq_transactions q \<noteq> [] \<Longrightarrow> snd (best_ref q) \<in> set (tq_transactions q)"
  "tq_transactions q \<noteq> [] \<Longrightarrow> snd (worst_ref q) \<in> set (tq_transactions q)"
  by (simp_all add: best_ref_def worst_ref_def)

lemma ids_apart:
  assumes "queues_ok P rank iid Q" "Q s = Some q" "r \<in> ran (Q(s := None))"
    and "t \<in> set (tq_transactions q)" "u \<in> set (tq_transactions r)"
  shows "pt_insertion_id u \<noteq> pt_insertion_id t"
proof -
  have u: "u \<in> queued (Q(s := None))" using assms(3,5) by (auto simp: queued_def)
  have "u \<noteq> t" using queues_ok_apart [OF assms(1,2)] assms(4) u by auto
  moreover have "u \<in> queued Q" "t \<in> queued Q" using u queued_upd(1) [of Q s] assms(2,4) by (auto intro: queued_memberI)
  ultimately show ?thesis using assms(1) by (auto simp: queues_ok_def dest: inj_onD)
qed

lemma refs_step:
  assumes F: "\<And>q. tq_transactions q \<noteq> [] \<Longrightarrow> snd (F q) \<in> set (tq_transactions q)"
    and "refs_ok Q F coll" "queues_ok P rank iid Q" "queues_ok P rank iid' (Q(s := qn))"
    and "inj_on (tx_hash_of P) (queued Q \<union> queued (Q(s := qn)))"
  shows "refs_ok (Q(s := qn)) F (end_update P coll (map_option F (Q s)) (map_option F qn))"
proof (rule end_update_ok [OF assms(2)])
  fix q r assume q: "Q s = Some q" and r: "r \<in> ran (Q(s := None))"
  then obtain s' where "Q s' = Some r" by (auto simp: ran_def split: if_splits)
  then show "pt_insertion_id (snd (F r)) \<noteq> pt_insertion_id (snd (F q))"
    using queues_okD(2) [OF assms(3)] q F by (intro ids_apart [OF assms(3) q r]) blast+
next
  fix q r assume q: "qn = Some q" and r: "r \<in> ran (Q(s := None))"
  then obtain s' where "Q s' = Some r" "s' \<noteq> s" by (auto simp: ran_def split: if_splits)
  then have "tq_transactions r \<noteq> []" using queues_okD(2) [OF assms(3)] by blast
  moreover have "tq_transactions q \<noteq> []" using queues_okD(2) [OF assms(4), of s q] q by simp
  moreover have "(Q(s := qn)) s = Some q" "r \<in> ran ((Q(s := qn))(s := None))" using q r by simp_all
  ultimately show "pt_insertion_id (snd (F r)) \<noteq> pt_insertion_id (snd (F q))"
    using F by (intro ids_apart [OF assms(4)]) blast+
next
  fix q q' assume q: "Q s = Some q" and q': "qn = Some q'" and same: "is_same P (F q) (F q')"
  have "snd (F q) \<in> queued Q" using queues_okD(2) [OF assms(3) q] F by (intro queued_memberI [of Q s q] q) blast
  moreover have "snd (F q') \<in> queued (Q(s := qn))"
    using queues_okD(2) [OF assms(4), of s q'] q' F by (intro queued_memberI [of _ s q']) auto
  ultimately have "snd (F q) = snd (F q')" using same assms(5) by (auto simp: is_same_def dest: inj_onD)
  with same show "F q = F q'" by (simp add: is_same_def prod_eq_iff)
qed

text \<open>\<^verbatim>\<open>worst_and_best\<close> of a queue that may be missing.\<close>

definition ends_of :: "('a, 'c) transactions option \<Rightarrow> (('c \<times> 'a pool_tx) \<times> ('c \<times> 'a pool_tx)) option" where
  "ends_of qo = map_option (\<lambda>q. (worst_ref q, best_ref q)) qo"

definition stored_queue :: "('a, 'c) transactions \<Rightarrow> ('a, 'c) transactions option" where
  "stored_queue q = (if tq_transactions q = [] then None else Some q)"

lemma worst_and_best_ends: "queue_ok rank q \<Longrightarrow> worst_and_best q = Some (ends_of (stored_queue q))"
  by (simp add: worst_and_best_eq ends_of_def stored_queue_def worst_ref_def best_ref_def)

lemma stored_queueD: "queues_ok P rank iid Q \<Longrightarrow> Q s = Some q \<Longrightarrow> stored_queue q = Some q"
  by (auto simp: stored_queue_def dest: queues_okD(2))

text \<open>The pool with the queue of one sender replaced, and its ends updated.\<close>

definition put_queue ::
  "('a, 'h, 's, 'c::linorder, 'e, 'l, 'z) pool_env_scheme \<Rightarrow> ('a, 'h, 's, 'c, 'l) pool \<Rightarrow> 's \<Rightarrow> ('a, 'c) transactions
     \<Rightarrow> ('a, 'h, 's, 'c, 'l) pool" where
  "put_queue P p s q = update_senders_worst_and_best P (p\<lparr>pl_transactions := AList.update s q (pl_transactions p)\<rparr>)
    (ends_of (map_of (pl_transactions p) s)) (ends_of (stored_queue q))"

lemma core_step:
  assumes core: "core_ok P rank p" 
    and ok: "queues_ok P rank (pl_insertion_id p) ((map_of (pl_transactions p))(s := stored_queue q'))"
    and inj: "inj_on (tx_hash_of P) (pool_txs p \<union> set (tq_transactions q'))"
    and some: "map_of (pl_transactions p) s = None \<longrightarrow> tq_transactions q' \<noteq> []"
  defines "p' \<equiv> put_queue P p s q'"
  shows "core_ok P rank p'"
    and "map_of (pl_transactions p') = (map_of (pl_transactions p))(s := stored_queue q')"
    and "pl_by_hash p' = pl_by_hash p" "pl_mem_usage p' = pl_mem_usage p" "pl_options p' = pl_options p"
      "pl_insertion_id p' = pl_insertion_id p" "pl_listener p' = pl_listener p"
proof -
  let ?Q = "map_of (pl_transactions p)"
  from core have Q: "keys_distinct (pl_transactions p)" "queues_ok P rank (pl_insertion_id p) ?Q"
    "refs_ok ?Q best_ref (pl_best p)" "refs_ok ?Q worst_ref (pl_worst p)" by (simp_all add: core_ok_def Let_def)
  have "queued (?Q(s := stored_queue q')) \<subseteq> pool_txs p \<union> set (tq_transactions q')"
    using queued_upd [of ?Q s] by (auto simp: stored_queue_def split: if_splits)
  then have inj': "inj_on (tx_hash_of P) (queued ?Q \<union> queued (?Q(s := stored_queue q')))"
    by (intro inj_on_subset [OF inj]) auto
  note best = refs_step [OF ref_member(1) Q(3,2) ok inj'] and worst = refs_step [OF ref_member(2) Q(4,2) ok inj']
  have sender: "tx_sender_of P (snd (worst_ref q)) = s" if "?Q s = Some q" for q
    using queues_okD [OF Q(2) that] ref_member(2) by blast
  have trans: "pl_transactions p' = (if tq_transactions q' = [] then AList.delete s (AList.update s q' (pl_transactions p))
      else AList.update s q' (pl_transactions p))"
    using sender some by (auto simp: p'_def put_queue_def update_senders_eq ends_of_def stored_queue_def split: option.splits)
  show map: "map_of (pl_transactions p') = ?Q(s := stored_queue q')"
    by (simp add: trans stored_queue_def)
  have ends: "pl_best p' = end_update P (pl_best p) (map_option best_ref (?Q s)) (map_option best_ref (stored_queue q'))"
    "pl_worst p' = end_update P (pl_worst p) (map_option worst_ref (?Q s)) (map_option worst_ref (stored_queue q'))"
    by (simp_all add: p'_def put_queue_def update_senders_eq ends_of_def option.map_comp comp_def)
  have "keys_distinct (pl_transactions p')" using Q(1) by (simp add: trans)
  then show "core_ok P rank p'"
    using best worst ok map ends by (simp add: core_ok_def Let_def p'_def put_queue_def update_senders_eq)
qed (simp_all add: p'_def put_queue_def update_senders_eq)

lemma queues_ok_shrink:
  assumes "queues_ok P rank iid Q" "Q s = Some q" "queue_ok rank q'" "set (tq_transactions q') \<subseteq> set (tq_transactions q)"
  shows "queues_ok P rank iid (Q(s := stored_queue q'))"
    and "queued (Q(s := stored_queue q')) = queued Q - (set (tq_transactions q) - set (tq_transactions q'))"
proof -
  have eq: "queued (Q(s := stored_queue q')) = set (tq_transactions q') \<union> queued (Q(s := None))"
    using queued_upd(2) [of Q s q'] by (simp add: stored_queue_def)
  then have sub: "queued (Q(s := stored_queue q')) \<subseteq> queued Q"
    using queued_split [of Q s q] assms(2,4) by auto
  show "queued (Q(s := stored_queue q')) = queued Q - (set (tq_transactions q) - set (tq_transactions q'))"
    using eq queued_split [of Q s q] queues_ok_apart [OF assms(1,2)] assms(2,4) by auto
  have "queue_ok rank r \<and> tq_transactions r \<noteq> [] \<and> (\<forall>t \<in> set (tq_transactions r). tx_sender_of P t = s')"
    if "(Q(s := stored_queue q')) s' = Some r" for s' r
    using that queues_okD [OF assms(1)] assms(2-4) by (auto simp: stored_queue_def split: if_splits)
  with assms(1) sub show "queues_ok P rank iid (Q(s := stored_queue q'))"
    unfolding queues_ok_def by (meson inj_on_subset subsetD)
qed

lemma core_hash_inj: "core_ok P rank p \<Longrightarrow> inj_on (tx_hash_of P) (pool_txs p)"
  by (simp add: core_ok_def queues_ok_def Let_def)

lemma core_queues: "core_ok P rank p \<Longrightarrow> queues_ok P rank (pl_insertion_id p) (map_of (pl_transactions p))"
  by (simp add: core_ok_def Let_def)

lemma remove_from_set_ok:
  assumes core: "core_ok P rank p" and q: "map_of (pl_transactions p) s = Some q"
    and f: "f q = Some (x, q')" "queue_ok rank q'" "set (tq_transactions q') \<subseteq> set (tq_transactions q)"
  obtains p' where "remove_from_set P p s f = Some (Some x, p')" "core_ok P rank p'"
    "pool_txs p' = pool_txs p - (set (tq_transactions q) - set (tq_transactions q'))"
    "pl_by_hash p' = pl_by_hash p" "pl_mem_usage p' = pl_mem_usage p" "pl_options p' = pl_options p"
    "pl_insertion_id p' = pl_insertion_id p"
    "map_of (pl_transactions p') = (map_of (pl_transactions p))(s := stored_queue q')"
proof -
  note Q = core_queues [OF core]
  note shrink = queues_ok_shrink [OF Q q f(2,3)]
  have "set (tq_transactions q') \<subseteq> pool_txs p" using f(3) queued_split [of _ s q] q by auto
  then have inj: "inj_on (tx_hash_of P) (pool_txs p \<union> set (tq_transactions q'))"
    using core_hash_inj [OF core] by (simp add: Un_absorb2)
  let ?p = "put_queue P p s q'"
  have "map_of (pl_transactions p) s = None \<longrightarrow> tq_transactions q' \<noteq> []" by (simp add: q)
  note step = core_step [OF core shrink(1) inj this]
  have wb: "worst_and_best q = Some (ends_of (map_of (pl_transactions p) s))" "worst_and_best q' = Some (ends_of (stored_queue q'))"
    using worst_and_best_ends [OF queues_okD(1) [OF Q q]] worst_and_best_ends [OF f(2)] stored_queueD [OF Q q] by (simp_all add: q)
  show thesis
  proof (rule that)
    show "remove_from_set P p s f = Some (Some x, ?p)" by (simp add: remove_from_set_def put_queue_def q f(1) wb [unfolded q])
    show "pool_txs ?p = pool_txs p - (set (tq_transactions q) - set (tq_transactions q'))"
      unfolding step(2) by (rule shrink(2))
  qed (rule step)+
qed

section \<open>Hashes and memory\<close>

lemma finalize_remove_tracks:
  assumes "tracks P p A" "t \<in> A"
  obtains p' where "finalize_remove P p (tx_hash_of P t) = Some (Some (pt_transaction t), p')" "tracks P p' (A - {t})"
    "p' = p\<lparr>pl_mem_usage := pl_mem_usage p', pl_by_hash := pl_by_hash p'\<rparr>"
proof -
  from assms(1) have T: "finite A" "keys_distinct (pl_by_hash p)" "length (pl_by_hash p) = card A"
    "\<And>h t. map_of (pl_by_hash p) h = Some t \<longleftrightarrow> t \<in> A \<and> tx_hash_of P t = h"
    "unat (pl_mem_usage p) = (\<Sum>t\<in>A. unat (vt_mem_usage P (pt_transaction t)))" by (auto simp: tracks_def)
  have le: "unat (vt_mem_usage P (pt_transaction t)) \<le> unat (pl_mem_usage p)"
    unfolding T(5) using assms(2) T(1) by (intro member_le_sum) auto
  have found: "map_of (pl_by_hash p) (tx_hash_of P t) = Some t" using T(4) assms(2) by simp
  have same: "u = t" if "u \<in> A" "tx_hash_of P u = tx_hash_of P t" for u
    using T(4) [of "tx_hash_of P t" u] that found by simp
  let ?p = "p\<lparr>pl_mem_usage := pl_mem_usage p - vt_mem_usage P (pt_transaction t),
    pl_by_hash := AList.delete (tx_hash_of P t) (pl_by_hash p)\<rparr>"
  have "finalize_remove P p (tx_hash_of P t) = Some (Some (pt_transaction t), ?p)"
    using le by (simp add: finalize_remove_def found usub_exact)
  moreover have "tracks P ?p (A - {t})"
    using T(1-3,5) assms(2) le same
    by (auto simp: tracks_def unat_sub_exact sum_diff1_nat length_delete [OF T(2) found] T(4))
  ultimately show thesis by (rule that) simp
qed

lemma finalize_remove_absent:
  assumes "tracks P p A" "h \<notin> tx_hash_of P ` A"
  shows "finalize_remove P p h = Some (None, p)"
proof (cases "map_of (pl_by_hash p) h")
  case (Some t)
  with assms have "t \<in> A" "tx_hash_of P t = h" by (auto simp: tracks_def)
  with assms(2) show ?thesis by auto
qed (simp add: finalize_remove_def)

lemma finalize_insert_tracks:
  assumes "tracks P p A" "tx_hash_of P new \<notin> tx_hash_of P ` A" "old \<in> {None} \<union> Some ` A"
    and "unat (pl_mem_usage p) + unat (vt_mem_usage P (pt_transaction new)) < 2 ^ 64"
  obtains p' where "finalize_insert P p new old = Some p'" "tracks P p' (insert new A - set_option old)"
    "p' = p\<lparr>pl_mem_usage := pl_mem_usage p', pl_by_hash := pl_by_hash p'\<rparr>"
proof -
  from assms(1) have T: "finite A" "keys_distinct (pl_by_hash p)" "length (pl_by_hash p) = card A"
    "\<And>h t. map_of (pl_by_hash p) h = Some t \<longleftrightarrow> t \<in> A \<and> tx_hash_of P t = h"
    "unat (pl_mem_usage p) = (\<Sum>t\<in>A. unat (vt_mem_usage P (pt_transaction t)))" by (auto simp: tracks_def)
  have new: "new \<notin> A" and diff: "\<And>t. t \<in> A \<Longrightarrow> tx_hash_of P t \<noteq> tx_hash_of P new"
    using assms(2) by (auto simp: image_iff)
  have free: "map_of (pl_by_hash p) (tx_hash_of P new) = None"
  proof (cases "map_of (pl_by_hash p) (tx_hash_of P new)")
    case (Some t)
    with T(4) have "t \<in> A" "tx_hash_of P t = tx_hash_of P new" by simp_all
    with diff show ?thesis by blast
  qed
  let ?p = "p\<lparr>pl_mem_usage := pl_mem_usage p + vt_mem_usage P (pt_transaction new),
    pl_by_hash := AList.update (tx_hash_of P new) new (pl_by_hash p)\<rparr>"
  have ins: "tracks P ?p (insert new A)"
    using T(1-3,5) new diff assms(4)
    by (auto simp: tracks_def unat_add_exact length_update [OF T(2) free] card_insert_if T(4))
  show thesis
  proof (cases old)
    case None
    show thesis
      by (rule that [of ?p]) (use None ins assms(4) in \<open>simp_all add: finalize_insert_def uadd_exact\<close>)
  next
    case (Some t)
    then have "t \<in> insert new A" using assms(3) by auto
    from finalize_remove_tracks [OF ins this] obtain p' where
      p': "finalize_remove P ?p (tx_hash_of P t) = Some (Some (pt_transaction t), p')" "tracks P p' (insert new A - {t})"
      "p' = ?p\<lparr>pl_mem_usage := pl_mem_usage p', pl_by_hash := pl_by_hash p'\<rparr>" .
    show thesis
      by (rule that [of p']) (use Some p'(1,2) assms(4) in \<open>simp_all add: finalize_insert_def uadd_exact\<close>, subst p'(3), simp)
  qed
qed

section \<open>Making room\<close>

lemma pool_ok_listener [simp]:
  "pool_ok P rank (p\<lparr>pl_listener := l\<rparr>) = pool_ok P rank p" "core_ok P rank (p\<lparr>pl_listener := l\<rparr>) = core_ok P rank p"
  "tracks P (p\<lparr>pl_listener := l\<rparr>) A = tracks P p A"
  by (simp_all add: pool_ok_def core_ok_def tracks_def)

lemma pool_okD:
  assumes "pool_ok P rank p"
  shows "core_ok P rank p" "tracks P p (pool_txs p)" "finite (pool_txs p)" "length (pl_by_hash p) = card (pool_txs p)"
  using assms by (auto simp: pool_ok_def tracks_def)

text \<open>Taking one transaction out of its queue and out of the books.\<close>

lemma take_out:
  assumes S: "scoring_ok (pool_scoring P) rank" and core: "core_ok P rank p" and t: "t \<in> pool_txs p"
  obtains x p1 where "remove_from_set P p (tx_sender_of P t) (\<lambda>q. queue_remove (pool_scoring P) q (pt_transaction t)) = Some (Some x, p1)"
    "core_ok P rank p1" "pool_txs p1 = pool_txs p - {t}" "pl_by_hash p1 = pl_by_hash p" "pl_mem_usage p1 = pl_mem_usage p"
    "pl_options p1 = pl_options p" "pl_insertion_id p1 = pl_insertion_id p"
proof -
  obtain q where q: "map_of (pl_transactions p) (tx_sender_of P t) = Some q" "t \<in> set (tq_transactions q)"
    using queued_owner [OF core_queues [OF core] t] .
  note qok = queues_okD(1) [OF core_queues [OF core] q(1)]
  obtain q' where q': "queue_remove (pool_scoring P) q (pt_transaction t) = Some (True, q')" "queue_ok rank q'"
    "tq_transactions q' = remove1 t (tq_transactions q)"
    using queue_remove_ok [OF S qok q(2)] .
  have set: "set (tq_transactions q') = set (tq_transactions q) - {t}"
    using queue_ok_distinct(1) [OF qok] by (simp add: q'(3) set_remove1_eq)
  then have sub: "set (tq_transactions q') \<subseteq> set (tq_transactions q)" by auto
  obtain p1 where p1: "remove_from_set P p (tx_sender_of P t) (\<lambda>q. queue_remove (pool_scoring P) q (pt_transaction t)) = Some (Some True, p1)"
    "core_ok P rank p1" "pool_txs p1 = pool_txs p - (set (tq_transactions q) - set (tq_transactions q'))"
    "pl_by_hash p1 = pl_by_hash p" "pl_mem_usage p1 = pl_mem_usage p" "pl_options p1 = pl_options p"
    "pl_insertion_id p1 = pl_insertion_id p"
    by (rule remove_from_set_ok [OF core q(1), of "\<lambda>q. queue_remove (pool_scoring P) q (pt_transaction t)", OF q'(1,2) sub])
  have "pool_txs p1 = pool_txs p - {t}" using p1(3) set q(2) by auto
  with that p1 show thesis by blast
qed

lemma tracks_frame:
  "pl_by_hash p' = pl_by_hash p \<Longrightarrow> pl_mem_usage p' = pl_mem_usage p \<Longrightarrow> tracks P p' A = tracks P p A"
  by (simp add: tracks_def)

lemma core_frame:
  "p' = p\<lparr>pl_mem_usage := m, pl_by_hash := b\<rparr> \<Longrightarrow> core_ok P rank p' = core_ok P rank p"
  by (simp add: core_ok_def)

lemma worst_in_pool:
  assumes "core_ok P rank p" "btree_last (pl_worst p) = Some old"
  shows "sr_transaction old \<in> pool_txs p"
proof -
  have "old \<in> set (pl_worst p)" using assms(2) by (auto simp: btree_last_def split: if_splits)
  then obtain s q where "map_of (pl_transactions p) s = Some q" "old = as_ref (worst_ref q)"
    using assms(1) by (auto simp: core_ok_def Let_def refs_ok_def ran_def)
  moreover from this have "tq_transactions q \<noteq> []" using queues_okD(2) [OF core_queues [OF assms(1)]] by blast
  ultimately show ?thesis using ref_member(2) [of q] by (auto intro: queued_memberI)
qed

lemma make_room_ok:
  assumes S: "scoring_ok (pool_scoring P) rank" and p: "pool_ok P rank p"
  obtains r p' where "make_room P rep p tx = Some (r, p')" "pool_ok P rank p'"
    "pl_options p' = pl_options p" "pl_insertion_id p' = pl_insertion_id p" "pool_txs p' \<subseteq> pool_txs p"
    "r = Inr True \<Longrightarrow> card (pool_txs p') < card (pool_txs p)" "r = Inr False \<Longrightarrow> \<exists>a b. rep a b = InsertNew"
    "r \<noteq> Inr True \<Longrightarrow> pool_txs p' = pool_txs p"
proof (cases "btree_last (pl_worst p)")
  case None
  then have "\<exists>e l. make_room P rep p tx = Some (Inl e, p\<lparr>pl_listener := l\<rparr>)" by (simp add: make_room_def remove_worst_def) blast
  then show thesis using p by (elim exE) (rule that, assumption, simp_all)
next
  case (Some old)
  note t = worst_in_pool [OF pool_okD(1) [OF p] Some]
  let ?txs = "map_option tq_transactions (map_of (pl_transactions p) (tx_sender_of P tx))"
  let ?a = "\<lparr>rt_transaction = sr_transaction old, rt_pooled_by_sender = ?txs\<rparr>"
  let ?b = "\<lparr>rt_transaction = tx, rt_pooled_by_sender = ?txs\<rparr>"
  show thesis
  proof (cases "rep ?a ?b")
    case RejectNew
    with Some have "\<exists>e l. make_room P rep p tx = Some (Inl e, p\<lparr>pl_listener := l\<rparr>)"
      by (simp add: make_room_def remove_worst_def Let_def) blast
    then show thesis using p by (elim exE) (rule that, assumption, simp_all)
  next
    case InsertNew
    with Some have "make_room P rep p tx = Some (Inr False, p)" by (simp add: make_room_def remove_worst_def Let_def)
    from this p show thesis by (rule that) (use InsertNew in auto)
  next
    case ReplaceOld
    obtain x p1 where p1: "remove_from_set P p (tx_sender_of P (sr_transaction old))
        (\<lambda>q. queue_remove (pool_scoring P) q (pt_transaction (sr_transaction old))) = Some (Some x, p1)"
      "core_ok P rank p1" "pool_txs p1 = pool_txs p - {sr_transaction old}" "pl_by_hash p1 = pl_by_hash p" "pl_mem_usage p1 = pl_mem_usage p"
      "pl_options p1 = pl_options p" "pl_insertion_id p1 = pl_insertion_id p"
      using take_out [OF S pool_okD(1) [OF p] t] .
    let ?p2 = "p1\<lparr>pl_listener := on_dropped (pool_listener P) (pl_listener p1) (pt_transaction (sr_transaction old)) (Some (pt_transaction tx))\<rparr>"
    obtain p3 where p3: "finalize_remove P ?p2 (tx_hash_of P (sr_transaction old)) = Some (Some (pt_transaction (sr_transaction old)), p3)"
      "tracks P p3 (pool_txs p - {sr_transaction old})" "p3 = ?p2\<lparr>pl_mem_usage := pl_mem_usage p3, pl_by_hash := pl_by_hash p3\<rparr>"
      using finalize_remove_tracks [of P ?p2 "pool_txs p", OF _ t] pool_okD(2) [OF p] tracks_frame [OF p1(4,5)] by auto
    have same: "pl_transactions p3 = pl_transactions p1" "pl_options p3 = pl_options p" "pl_insertion_id p3 = pl_insertion_id p"
      using p1(6,7) by (subst p3(3), simp)+
    have "make_room P rep p tx = Some (Inr True, p3)"
      using Some ReplaceOld p1(1) p3(1) by (simp add: make_room_def remove_worst_def Let_def)
    moreover have "pool_ok P rank p3"
      using p1(2,3) p3(2) core_frame [OF p3(3), of P rank] by (simp add: pool_ok_def same)
    moreover have "card (pool_txs p3) < card (pool_txs p)"
      using card_Diff1_less [OF pool_okD(3) [OF p] t] by (simp only: same p1(3))
    ultimately show thesis using same p1(3) by (intro that [of "Inr True" p3]) auto
  qed
qed

text \<open>What the loops leave: a consistent pool with some transactions dropped.\<close>

definition trimmed ::
  "('a, 'h, 's, 'c::linorder, 'e, 'l, 'z) pool_env_scheme \<Rightarrow> ('a \<Rightarrow> 'k::linorder) \<Rightarrow> ('a, 'h, 's, 'c, 'l) pool
     \<Rightarrow> ('a, 'h, 's, 'c, 'l) pool \<Rightarrow> bool" where
  "trimmed P rank p p' \<longleftrightarrow> pool_ok P rank p' \<and> pl_options p' = pl_options p \<and> pl_insertion_id p' = pl_insertion_id p \<and>
    pool_txs p' \<subseteq> pool_txs p"

lemma trimmed_trans: "trimmed P rank p p1 \<Longrightarrow> trimmed P rank p1 p2 \<Longrightarrow> trimmed P rank p p2"
  by (auto simp: trimmed_def)

lemma make_room_trimmed:
  assumes "scoring_ok (pool_scoring P) rank" "pool_ok P rank p"
  obtains e p' where "make_room P rep p tx = Some (Inl e, p')" "trimmed P rank p p'"
  | p' where "make_room P rep p tx = Some (Inr False, p')" "trimmed P rank p p'" "\<exists>a b. rep a b = InsertNew"
  | p' where "make_room P rep p tx = Some (Inr True, p')" "trimmed P rank p p'" "card (pool_txs p') < card (pool_txs p)"
proof -
  obtain r p' where m: "make_room P rep p tx = Some (r, p')" "trimmed P rank p p'"
    "r = Inr True \<longrightarrow> card (pool_txs p') < card (pool_txs p)" "r = Inr False \<longrightarrow> (\<exists>a b. rep a b = InsertNew)"
    using make_room_ok [OF assms] unfolding trimmed_def by metis
  consider e where "r = Inl e" | "r = Inr False" | "r = Inr True" by (metis sum.exhaust)
  then show thesis using m that by cases auto
qed

lemma pool_mem_mono:
  assumes "pool_ok P rank p" "trimmed P rank p p'"
  shows "unat (pl_mem_usage p') \<le> unat (pl_mem_usage p)"
proof -
  have "(\<Sum>t\<in>pool_txs p'. unat (vt_mem_usage P (pt_transaction t))) \<le> (\<Sum>t\<in>pool_txs p. unat (vt_mem_usage P (pt_transaction t)))"
    using assms(2) pool_okD(3) [OF assms(1)] by (intro sum_mono2) (auto simp: trimmed_def)
  then show ?thesis using assms by (auto simp: trimmed_def pool_ok_def tracks_def)
qed

lemma count_loop_ends:
  assumes "scoring_ok (pool_scoring P) rank" "pool_ok P rank p"
  shows "\<exists>r p'. count_loop P rep p tx = Some (Some (r, p')) \<and> trimmed P rank p p' \<and>
    (r = Inr () \<longrightarrow> length (pl_by_hash p') < unat (max_count (pl_options p)) \<or> (\<exists>a b. rep a b = InsertNew))"
  using assms(2)
proof (induction "card (pool_txs p)" arbitrary: p rule: less_induct)
  case less
  show ?case
  proof (cases "length (pl_by_hash p) + 1 > unat (max_count (pl_options p))")
    case False
    with less.prems show ?thesis by (subst count_loop.simps) (auto simp: trimmed_def)
  next
    case True
    from make_room_trimmed [OF assms(1) less.prems, of rep tx] show ?thesis
    proof cases
      case (3 p')
      from less.hyps [OF 3(3)] 3(2) obtain r p'' where "count_loop P rep p' tx = Some (Some (r, p''))" "trimmed P rank p' p''"
        "r = Inr () \<longrightarrow> length (pl_by_hash p'') < unat (max_count (pl_options p)) \<or> (\<exists>a b. rep a b = InsertNew)"
        by (auto simp: trimmed_def)
      with True 3 trimmed_trans [OF 3(2)] show ?thesis by (subst count_loop.simps) auto
    next
      case (1 e p')
      with True show ?thesis by (subst count_loop.simps) auto
    next
      case (2 p')
      with True show ?thesis by (subst count_loop.simps) auto
    qed
  qed
qed

lemma mem_loop_ends:
  assumes "scoring_ok (pool_scoring P) rank" "pool_ok P rank p"
    and "unat (pl_mem_usage p) + unat (vt_mem_usage P (pt_transaction tx)) < 2 ^ 64"
  shows "\<exists>r p'. mem_loop P rep p tx = Some (Some (r, p')) \<and> trimmed P rank p p' \<and>
    (r = Inr () \<longrightarrow> unat (pl_mem_usage p') + unat (vt_mem_usage P (pt_transaction tx)) \<le> unat (max_mem_usage (pl_options p)) \<or>
      (\<exists>a b. rep a b = InsertNew))"
  using assms(2,3)
proof (induction "card (pool_txs p)" arbitrary: p rule: less_induct)
  case less
  have add: "uadd (pool_checks P) (pl_mem_usage p) (vt_mem_usage P (pt_transaction tx)) =
      Some (pl_mem_usage p + vt_mem_usage P (pt_transaction tx))"
    "unat (pl_mem_usage p + vt_mem_usage P (pt_transaction tx)) = unat (pl_mem_usage p) + unat (vt_mem_usage P (pt_transaction tx))"
    using less.prems(2) by (simp_all add: exact_arith)
  show ?case
  proof (cases "pl_mem_usage p + vt_mem_usage P (pt_transaction tx) > max_mem_usage (pl_options p)")
    case False
    then have "mem_loop P rep p tx = Some (Some (Inr (), p))" by (subst mem_loop.simps) (simp add: add(1))
    moreover have "unat (pl_mem_usage p) + unat (vt_mem_usage P (pt_transaction tx)) \<le> unat (max_mem_usage (pl_options p))"
      using False unfolding add(2) [symmetric] by (simp add: not_less word_le_nat_alt)
    ultimately show ?thesis using less.prems(1) by (simp add: trimmed_def)
  next
    case True
    from make_room_trimmed [OF assms(1) less.prems(1), of rep tx] show ?thesis
    proof cases
      case (3 p')
      have ok: "pool_ok P rank p'" "pl_options p' = pl_options p" using 3(2) by (simp_all add: trimmed_def)
      have "unat (pl_mem_usage p') + unat (vt_mem_usage P (pt_transaction tx)) < 2 ^ 64"
        using pool_mem_mono [OF less.prems(1) 3(2)] less.prems(2) by linarith
      from less.hyps [OF 3(3) ok(1) this] ok(2) obtain r p'' where "mem_loop P rep p' tx = Some (Some (r, p''))" "trimmed P rank p' p''"
        "r = Inr () \<longrightarrow> unat (pl_mem_usage p'') + unat (vt_mem_usage P (pt_transaction tx)) \<le> unat (max_mem_usage (pl_options p)) \<or>
          (\<exists>a b. rep a b = InsertNew)"
        by auto
      with True 3 add trimmed_trans [OF 3(2)] show ?thesis by (subst mem_loop.simps) auto
    next
      case (1 e p')
      with True add(1) show ?thesis by (subst mem_loop.simps) auto
    next
      case (2 p')
      with True add(1) show ?thesis by (subst mem_loop.simps) auto
    qed
  qed
qed

section \<open>Import\<close>

definition sender_queue :: "('a, 'h, 's, 'c, 'l) pool \<Rightarrow> 's \<Rightarrow> ('a, 'c) transactions" where
  "sender_queue p s = (case map_of (pl_transactions p) s of None \<Rightarrow> transactions_default | Some q \<Rightarrow> q)"

lemma sender_queue_ok:
  assumes "queues_ok P rank iid (map_of (pl_transactions p))"
  shows "queue_ok rank (sender_queue p s)" "worst_and_best (sender_queue p s) = Some (ends_of (map_of (pl_transactions p) s))"
    and "pool_txs p = set (tq_transactions (sender_queue p s)) \<union> queued ((map_of (pl_transactions p))(s := None))"
    and "set (tq_transactions (sender_queue p s)) \<inter> queued ((map_of (pl_transactions p))(s := None)) = {}"
    and "t \<in> set (tq_transactions (sender_queue p s)) \<Longrightarrow> tx_sender_of P t = s"
proof -
  have d: "queue_ok rank transactions_default" "worst_and_best transactions_default = Some (ends_of None)"
    by (simp_all add: queue_ok_def transactions_default_def worst_and_best_def ends_of_def)
  show "queue_ok rank (sender_queue p s)"
    using d(1) queues_okD(1) [OF assms] by (auto simp: sender_queue_def split: option.splits)
  show "worst_and_best (sender_queue p s) = Some (ends_of (map_of (pl_transactions p) s))"
    using d(2) worst_and_best_ends [OF queues_okD(1) [OF assms]] stored_queueD [OF assms]
    by (auto simp: sender_queue_def split: option.splits)
  show "pool_txs p = set (tq_transactions (sender_queue p s)) \<union> queued ((map_of (pl_transactions p))(s := None))"
    using queued_split [of "map_of (pl_transactions p)" s]
    by (auto simp: sender_queue_def transactions_default_def fun_upd_idem split: option.splits)
  show "set (tq_transactions (sender_queue p s)) \<inter> queued ((map_of (pl_transactions p))(s := None)) = {}"
    using queues_ok_apart [OF assms] by (auto simp: sender_queue_def transactions_default_def split: option.splits)
  show "tx_sender_of P t = s" if "t \<in> set (tq_transactions (sender_queue p s))"
    using that queues_okD(3) [OF assms] by (auto simp: sender_queue_def transactions_default_def split: option.splits)
qed

lemma outcome_lift:
  "\<lbrakk>add_outcome res t A B; A \<inter> rest = {}; t \<notin> rest\<rbrakk> \<Longrightarrow> add_outcome res t (A \<union> rest) (B \<union> rest)"
  by (cases res) auto

text \<open>A transaction that is new to the pool, and for whose size the memory counter has room.\<close>

definition fresh_tx ::
  "('a, 'h, 's, 'c, 'e, 'l, 'z) pool_env_scheme \<Rightarrow> ('a, 'h, 's, 'c, 'l) pool \<Rightarrow> 'a pool_tx \<Rightarrow> bool" where
  "fresh_tx P p tx \<longleftrightarrow> tx_hash_of P tx \<notin> tx_hash_of P ` pool_txs p \<and> pt_insertion_id tx \<notin> pt_insertion_id ` pool_txs p \<and>
    pt_insertion_id tx \<le> pl_insertion_id p \<and>
    unat (pl_mem_usage p) + unat (vt_mem_usage P (pt_transaction tx)) < 2 ^ 64"

lemma add_to_sender:
  assumes S: "scoring_ok (pool_scoring P) rank" and p: "core_ok P rank p"
    and m: "0 < unat (max_per_sender (pl_options p))" and new: "fresh_tx P p tx"
  defines "s \<equiv> tx_sender_of P tx"
  obtains res q' where "queue_add (pool_scoring P) (sender_queue p s) tx (max_per_sender (pl_options p)) = Some (res, q')"
    "worst_and_best q' = Some (ends_of (stored_queue q'))"
    "queues_ok P rank (pl_insertion_id p) ((map_of (pl_transactions p))(s := stored_queue q'))"
    "inj_on (tx_hash_of P) (pool_txs p \<union> set (tq_transactions q'))" "tq_transactions q' \<noteq> []"
    "add_outcome res tx (pool_txs p) (queued ((map_of (pl_transactions p))(s := stored_queue q')))"
proof -
  let ?Q = "map_of (pl_transactions p)"
  note Q = core_queues [OF p] and q = sender_queue_ok [OF core_queues [OF p], where s = s]
  have fresh: "tx \<notin> pool_txs p" using new by (auto simp: fresh_tx_def)
  then have "tx \<notin> set (tq_transactions (sender_queue p s))" using q(3) by blast
  from queue_add_ok [OF S q(1) m this] obtain res q' where
    add: "queue_add (pool_scoring P) (sender_queue p s) tx (max_per_sender (pl_options p)) = Some (res, q')"
    "queue_ok rank q'" "tq_transactions q' \<noteq> []"
    "add_outcome res tx (set (tq_transactions (sender_queue p s))) (set (tq_transactions q'))"
    unfolding add_ok_def by blast
  have sub: "set (tq_transactions q') \<subseteq> insert tx (set (tq_transactions (sender_queue p s)))"
    using add(4) by (cases res) auto
  have stored: "stored_queue q' = Some q'" using add(3) by (simp add: stored_queue_def)
  have all: "queued (?Q(s := stored_queue q')) \<subseteq> insert tx (pool_txs p)"
    using queued_upd(2) [of ?Q s q'] sub q(3) unfolding stored by blast
  have ids: "inj_on pt_insertion_id (insert tx (pool_txs p))" "\<forall>t \<in> insert tx (pool_txs p). pt_insertion_id t \<le> pl_insertion_id p"
    and hashes: "inj_on (tx_hash_of P) (insert tx (pool_txs p))"
    using Q new by (auto simp: queues_ok_def fresh_tx_def)
  have "queue_ok rank r \<and> tq_transactions r \<noteq> [] \<and> (\<forall>t \<in> set (tq_transactions r). tx_sender_of P t = s')"
    if "(?Q(s := stored_queue q')) s' = Some r" for s' r
    using that queues_okD [OF Q] add(2,3) sub q(5) unfolding stored by (cases "s' = s") (auto simp: s_def)
  then have ok: "queues_ok P rank (pl_insertion_id p) (?Q(s := stored_queue q'))"
    unfolding queues_ok_def using all ids hashes by (meson inj_on_subset subsetD)
  have "pool_txs p \<union> set (tq_transactions q') \<subseteq> insert tx (pool_txs p)" using sub q(3) by blast
  from inj_on_subset [OF hashes this] have hash: "inj_on (tx_hash_of P) (pool_txs p \<union> set (tq_transactions q'))" .
  have out: "add_outcome res tx (pool_txs p) (queued (?Q(s := stored_queue q')))"
    using outcome_lift [OF add(4) q(4)] fresh q(3) queued_upd(2) [of ?Q s q'] unfolding stored by auto
  show thesis
    by (rule that [OF add(1) worst_and_best_ends [OF add(2)] ok hash add(3) out])
qed

lemma import_insert_eq:
  assumes "worst_and_best (sender_queue p (tx_sender_of P tx)) = Some (ends_of (map_of (pl_transactions p) (tx_sender_of P tx)))"
    and "queue_add (pool_scoring P) (sender_queue p (tx_sender_of P tx)) tx (max_per_sender (pl_options p)) = Some (res, q')"
    and "worst_and_best q' = Some (ends_of (stored_queue q'))"
  defines "p1 \<equiv> put_queue P p (tx_sender_of P tx) q'"
  shows "import_insert P p tx = (case res of
      AddOk t \<Rightarrow> map_option (Pair (Inr (pt_transaction t)))
        (finalize_insert P (p1\<lparr>pl_listener := on_added (pool_listener P) (pl_listener p1) (pt_transaction t) None\<rparr>) t None)
    | PushedOut old t \<Rightarrow> map_option (Pair (Inr (pt_transaction t)))
        (finalize_insert P (p1\<lparr>pl_listener := on_added (pool_listener P) (pl_listener p1) (pt_transaction t) (Some (pt_transaction old))\<rparr>) t (Some old))
    | Replaced old t \<Rightarrow> map_option (Pair (Inr (pt_transaction t)))
        (finalize_insert P (p1\<lparr>pl_listener := on_added (pool_listener P) (pl_listener p1) (pt_transaction t) (Some (pt_transaction old))\<rparr>) t (Some old))
    | TooCheap old t \<Rightarrow> (let e = TooCheapToReplace (tx_hash_of P old) (tx_hash_of P t)
        in Some (Inl e, p1\<lparr>pl_listener := on_rejected (pool_listener P) (pl_listener p1) (pt_transaction t) e\<rparr>))
    | AddTooCheapToEnter t c \<Rightarrow> (let e = TooCheapToEnter (tx_hash_of P t) (show_score (pool_scoring P) c)
        in Some (Inl e, p1\<lparr>pl_listener := on_rejected (pool_listener P) (pl_listener p1) (pt_transaction t) e\<rparr>)))"
  using assms(1-3) unfolding import_insert_def Let_def sender_queue_def p1_def put_queue_def
  by (simp split: add_result.splits) (auto split: bind_splits)

lemma import_insert_ok:
  assumes S: "scoring_ok (pool_scoring P) rank" and p: "pool_ok P rank p"
    and m: "0 < unat (max_per_sender (pl_options p))" and new: "fresh_tx P p tx"
  obtains e p' where "import_insert P p tx = Some (Inl e, p')" "pool_ok P rank p'" "pool_txs p' = pool_txs p"
    "pl_options p' = pl_options p" "pl_insertion_id p' = pl_insertion_id p"
  | old p' where "import_insert P p tx = Some (Inr (pt_transaction tx), p')" "pool_ok P rank p'"
    "pool_txs p' = insert tx (pool_txs p - old)" "old \<subseteq> pool_txs p" "card old \<le> 1"
    "pl_options p' = pl_options p" "pl_insertion_id p' = pl_insertion_id p"
proof -
  let ?s = "tx_sender_of P tx" and ?Q = "map_of (pl_transactions p)"
  note core = pool_okD(1) [OF p] and finish = that
  obtain res q' where add: "queue_add (pool_scoring P) (sender_queue p ?s) tx (max_per_sender (pl_options p)) = Some (res, q')"
    "worst_and_best q' = Some (ends_of (stored_queue q'))"
    "queues_ok P rank (pl_insertion_id p) (?Q(?s := stored_queue q'))"
    "inj_on (tx_hash_of P) (pool_txs p \<union> set (tq_transactions q'))" "tq_transactions q' \<noteq> []"
    "add_outcome res tx (pool_txs p) (queued (?Q(?s := stored_queue q')))"
    using add_to_sender [OF S core m new] .
  let ?p1 = "put_queue P p ?s q'"
  note step = core_step [OF core add(3,4), OF impI, OF add(5)]
  have prev: "worst_and_best (sender_queue p ?s) = Some (ends_of (?Q ?s))"
    using sender_queue_ok(2) [OF core_queues [OF core]] .
  have tr: "tracks P (?p1\<lparr>pl_listener := l\<rparr>) (pool_txs p)" for l
    using pool_okD(2) [OF p] tracks_frame [OF step(3,4), of P] by simp
  have mem: "unat (pl_mem_usage (?p1\<lparr>pl_listener := l\<rparr>)) + unat (vt_mem_usage P (pt_transaction tx)) < 2 ^ 64"
    and hash: "tx_hash_of P tx \<notin> tx_hash_of P ` pool_txs p" for l
    using new by (simp_all add: fresh_tx_def step(4))
  note out = add(6) [folded step(2)]
  have accept: thesis
    if run: "\<And>p3. finalize_insert P (?p1\<lparr>pl_listener := l\<rparr>) tx old = Some p3 \<Longrightarrow>
        import_insert P p tx = Some (Inr (pt_transaction tx), p3)"
      and old: "old \<in> {None} \<union> Some ` pool_txs p" "pool_txs ?p1 = insert tx (pool_txs p - set_option old)" for old l
  proof -
    obtain p3 where p3: "finalize_insert P (?p1\<lparr>pl_listener := l\<rparr>) tx old = Some p3"
      "tracks P p3 (insert tx (pool_txs p) - set_option old)"
      "p3 = ?p1\<lparr>pl_listener := l, pl_mem_usage := pl_mem_usage p3, pl_by_hash := pl_by_hash p3\<rparr>"
      using finalize_insert_tracks [OF tr hash old(1) mem] by auto
    have same: "pl_transactions p3 = pl_transactions ?p1" "pl_options p3 = pl_options p" "pl_insertion_id p3 = pl_insertion_id p"
      using step(5,6) by (subst p3(3), simp)+
    have set: "insert tx (pool_txs p) - set_option old = insert tx (pool_txs p - set_option old)"
      using old(1) hash by auto
    have "core_ok P rank p3" using step(1) core_frame [OF p3(3), of P rank] by simp
    with p3(2) have "pool_ok P rank p3" by (simp add: pool_ok_def same old(2) set)
    then show thesis
      using run [OF p3(1)] old same by (intro finish(2) [of p3 "set_option old"]) auto
  qed
  note imp = import_insert_eq [OF prev add(1,2)]
  have reject: thesis if "import_insert P p tx = Some (Inl e, ?p1\<lparr>pl_listener := l\<rparr>)" "pool_txs ?p1 = pool_txs p" for e l
    using that step(1,5,6) tr by (intro finish(1) [of e "?p1\<lparr>pl_listener := l\<rparr>"]) (auto simp: pool_ok_def)
  show thesis
  proof (cases res)
    case (AddOk t)
    with out show thesis by (intro accept [of _ None]) (simp_all add: imp)
  next
    case (PushedOut old t)
    with out show thesis by (intro accept [of _ "Some old"]) (simp_all add: imp)
  next
    case (Replaced old t)
    with out show thesis by (intro accept [of _ "Some old"]) (simp_all add: imp)
  next
    case (TooCheap old t)
    with out show thesis by (intro reject) (simp_all add: imp Let_def)
  next
    case (AddTooCheapToEnter t c)
    with out show thesis by (intro reject) (simp_all add: imp Let_def)
  qed
qed

end
