(* ===== verification/Pool_Ops.thy ===== *)
theory Pool_Ops
  imports Pool_Inv
begin

text \<open>
  The operations of the transaction pool keep its invariant: import with its two limits, removal, culling,
  new scores; and the iteration over the pending transactions.
\<close>

section \<open>Import\<close>

lemma pool_find_iff:
  assumes "pool_ok P rank p"
  shows "pool_find p h = Some a \<longleftrightarrow> (\<exists>t \<in> pool_txs p. tx_hash_of P t = h \<and> pt_transaction t = a)"
  using pool_okD(2) [OF assms] by (auto simp: pool_find_def tracks_def)

lemma pool_find_None:
  assumes "pool_ok P rank p"
  shows "pool_find p h = None \<longleftrightarrow> h \<notin> tx_hash_of P ` pool_txs p"
  using pool_find_iff [OF assms, of h] by (cases "pool_find p h") auto

lemma pool_find_subset:
  assumes "pool_ok P rank p" "pool_ok P rank p'" "\<And>t. t \<in> pool_txs p' \<Longrightarrow> tx_hash_of P t = h \<Longrightarrow> t \<in> pool_txs p"
  shows "pool_find p' h \<in> {None, pool_find p h}"
proof (cases "pool_find p' h")
  case (Some a)
  with pool_find_iff [OF assms(2)] assms(3) have "pool_find p h = Some a" by (auto simp: pool_find_iff [OF assms(1)])
  with Some show ?thesis by simp
qed simp

lemma pool_ok_next_id:
  assumes "pool_ok P rank p" "pl_insertion_id p \<le> i"
  shows "pool_ok P rank (p\<lparr>pl_insertion_id := i\<rparr>)"
  using assms by (auto simp: pool_ok_def core_ok_def queues_ok_def tracks_def Let_def intro: order_trans)

text \<open>The room for one more transaction: a number for it, and the bytes of its size in the counter.\<close>

definition has_room :: "('a, 'h, 's, 'c, 'e, 'l, 'z) pool_env_scheme \<Rightarrow> ('a, 'h, 's, 'c, 'l) pool \<Rightarrow> 'a \<Rightarrow> bool" where
  "has_room P p a \<longleftrightarrow> unat (pl_insertion_id p) + 1 < 2 ^ 64 \<and> unat (pl_mem_usage p) + unat (vt_mem_usage P a) < 2 ^ 64 \<and>
    0 < max_per_sender (pl_options p)"

definition within_limits :: "('a, 'h, 's, 'c, 'l) pool \<Rightarrow> bool" where
  "within_limits p \<longleftrightarrow> length (pl_by_hash p) \<le> unat (max_count (pl_options p)) \<and> pl_mem_usage p \<le> max_mem_usage (pl_options p)"

lemma fresh_trimmed:
  assumes "pool_ok P rank p" "trimmed P rank p p'" "fresh_tx P p tx"
  shows "fresh_tx P p' tx"
  using pool_mem_mono [OF assms(1,2)] assms(2,3) by (auto simp: fresh_tx_def trimmed_def)

lemma fresh_next_id:
  assumes p: "pool_ok P rank p" and room: "has_room P p a" and new: "pool_find p (vt_hash P a) = None"
  defines "i \<equiv> pl_insertion_id p + 1"
  shows "fresh_tx P (p\<lparr>pl_insertion_id := i\<rparr>) \<lparr>pt_insertion_id = i, pt_transaction = a\<rparr>" "pl_insertion_id p < i"
proof -
  show less: "pl_insertion_id p < i" using room by (simp add: has_room_def i_def word_less_nat_alt exact_arith)
  have "t \<in> pool_txs p \<Longrightarrow> pt_insertion_id t \<le> pl_insertion_id p" for t
    using core_queues [OF pool_okD(1) [OF p]] by (auto simp: queues_ok_def)
  with less have "i \<notin> pt_insertion_id ` pool_txs p" by force
  then show "fresh_tx P (p\<lparr>pl_insertion_id := i\<rparr>) \<lparr>pt_insertion_id = i, pt_transaction = a\<rparr>"
    using new room by (simp add: fresh_tx_def pool_find_None [OF p] has_room_def)
qed

lemma inserted_limits:
  assumes p: "pool_ok P rank p" and p': "pool_ok P rank p'" "pool_txs p' = insert tx (pool_txs p - old)" "old \<subseteq> pool_txs p"
    "pl_options p' = pl_options p"
    and "length (pl_by_hash p) < unat (max_count (pl_options p))"
    and "unat (pl_mem_usage p) + unat (vt_mem_usage P (pt_transaction tx)) \<le> unat (max_mem_usage (pl_options p))"
  shows "within_limits p'"
proof -
  let ?size = "\<lambda>t. unat (vt_mem_usage P (pt_transaction t))"
  have fin: "finite (pool_txs p)" and len: "length (pl_by_hash p) = card (pool_txs p)" "length (pl_by_hash p') = card (pool_txs p')"
    and mem: "unat (pl_mem_usage p) = sum ?size (pool_txs p)" "unat (pl_mem_usage p') = sum ?size (pool_txs p')"
    using p p'(1) by (auto simp: pool_ok_def tracks_def)
  have "card (pool_txs p') \<le> Suc (card (pool_txs p))"
    unfolding p'(2) using fin card_mono [OF fin, of "pool_txs p - old"] by (auto simp: card_insert_if)
  moreover have "sum ?size (pool_txs p') \<le> sum ?size (pool_txs p) + ?size tx"
    unfolding p'(2) using fin sum_mono2 [OF fin, of "pool_txs p - old" ?size] by (cases "tx \<in> pool_txs p - old") (auto simp: insert_absorb)
  ultimately show ?thesis
    using assms(6,7) len mem unfolding within_limits_def p'(4) word_le_nat_alt by linarith
qed

text \<open>The ways an import ends: an earlier import of the same hash, a refusal, or a new transaction in the pool.\<close>

lemma make_space_ends:
  assumes S: "scoring_ok (pool_scoring P) rank" and p: "pool_ok P rank p" and new: "fresh_tx P p tx"
  obtains e p' where "count_loop P rep p tx = Some (Some (Inl e, p'))" "trimmed P rank p p'"
  | e p1 p' where "count_loop P rep p tx = Some (Some (Inr (), p1))" "mem_loop P rep p1 tx = Some (Some (Inl e, p'))" "trimmed P rank p p'"
  | p1 p' where "count_loop P rep p tx = Some (Some (Inr (), p1))" "mem_loop P rep p1 tx = Some (Some (Inr (), p'))" "trimmed P rank p p'"
    "(\<forall>x y. rep x y \<noteq> InsertNew) \<longrightarrow> length (pl_by_hash p') < unat (max_count (pl_options p)) \<and>
      unat (pl_mem_usage p') + unat (vt_mem_usage P (pt_transaction tx)) \<le> unat (max_mem_usage (pl_options p))"
proof -
  note finish = that
  obtain r p1 where c: "count_loop P rep p tx = Some (Some (r, p1))" "trimmed P rank p p1"
    "r = Inr () \<longrightarrow> length (pl_by_hash p1) < unat (max_count (pl_options p)) \<or> (\<exists>a b. rep a b = InsertNew)"
    using count_loop_ends [OF S p] by blast
  have ok: "pool_ok P rank p1" "pl_options p1 = pl_options p" using c(2) by (simp_all add: trimmed_def)
  show thesis
  proof (cases r)
    case (Inl e)
    with c finish(1) show thesis by simp
  next
    case (Inr u)
    have "unat (pl_mem_usage p1) + unat (vt_mem_usage P (pt_transaction tx)) < 2 ^ 64"
      using fresh_trimmed [OF p c(2) new] by (simp add: fresh_tx_def)
    from mem_loop_ends [OF S ok(1) this, of rep] obtain r' p' where m: "mem_loop P rep p1 tx = Some (Some (r', p'))" "trimmed P rank p1 p'"
      "r' = Inr () \<longrightarrow> unat (pl_mem_usage p') + unat (vt_mem_usage P (pt_transaction tx)) \<le> unat (max_mem_usage (pl_options p)) \<or>
        (\<exists>a b. rep a b = InsertNew)" unfolding ok(2) by blast
    note t = trimmed_trans [OF c(2) m(2)]
    have "card (pool_txs p') \<le> card (pool_txs p1)"
      using m(2) pool_okD(3) [OF ok(1)] by (auto simp: trimmed_def intro: card_mono)
    then have "length (pl_by_hash p') \<le> length (pl_by_hash p1)"
      using m(2) ok(1) by (simp add: trimmed_def pool_ok_def tracks_def)
    with c(1,3) m(1,3) t Inr show thesis by (cases r') (auto intro: finish(2,3))
  qed
qed

lemma pool_import_run:
  assumes S: "scoring_ok (pool_scoring P) rank" and p: "pool_ok P rank p" and room: "has_room P p a"
    and unknown: "pool_find p (vt_hash P a) = None"
  obtains e p' where "pool_import P rep p a = Some (Some (Inl e, p'))" "pool_ok P rank p'" "pool_txs p' \<subseteq> pool_txs p"
    "pl_options p' = pl_options p"
  | tx p' where "pool_import P rep p a = Some (Some (Inr a, p'))" "pool_ok P rank p'" "pt_transaction tx = a"
    "tx \<in> pool_txs p'" "pool_txs p' \<subseteq> insert tx (pool_txs p)" "pl_options p' = pl_options p"
    "(\<forall>x y. rep x y \<noteq> InsertNew) \<longrightarrow> within_limits p'"
proof -
  let ?i = "pl_insertion_id p + 1"
  let ?tx = "\<lparr>pt_insertion_id = ?i, pt_transaction = a\<rparr>" and ?p = "p\<lparr>pl_insertion_id := ?i\<rparr>"
  note finish = that and new = fresh_next_id [OF p room unknown]
  have ok: "pool_ok P rank ?p" using pool_ok_next_id [OF p] new(2) by simp
  have start: "uadd (pool_checks P) (pl_insertion_id p) 1 = Some ?i" "map_of (pl_by_hash p) (vt_hash P a) = None"
    using room unknown by (simp_all add: has_room_def pool_find_def exact_arith)
  from make_space_ends [OF S ok new(1), of rep] show thesis
  proof cases
    case (1 e p')
    with start show thesis by (intro finish(1) [of e p']) (auto simp: pool_import_def trimmed_def)
  next
    case (2 e p1 p')
    with start show thesis by (intro finish(1) [of e p']) (auto simp: pool_import_def trimmed_def)
  next
    case (3 p1 p2)
    then have p2: "pool_ok P rank p2" "pool_txs p2 \<subseteq> pool_txs p" "pl_options p2 = pl_options p" by (simp_all add: trimmed_def)
    have run: "pool_import P rep p a = Some (import_insert P p2 ?tx)" using start 3(1,2) by (simp add: pool_import_def)
    have m: "0 < unat (max_per_sender (pl_options p2))" using room by (simp add: p2(3) has_room_def word_less_nat_alt)
    from import_insert_ok [OF S p2(1) m fresh_trimmed [OF ok 3(3) new(1)]] show thesis
    proof cases
      case (1 e p')
      with run p2 show thesis by (intro finish(1) [of e p']) auto
    next
      case (2 old p')
      have lim: "within_limits p'" if "\<forall>x y. rep x y \<noteq> InsertNew"
        using that 3(4) inserted_limits [OF p2(1) 2(2-4,6)] by (simp add: p2(3))
      with 2 run p2 show thesis by (intro finish(2) [of p' ?tx]) auto
    qed
  qed
qed

section \<open>Removal and culling\<close>

lemma pool_remove_found:
  assumes S: "scoring_ok (pool_scoring P) rank" and p: "pool_ok P rank p" and t: "t \<in> pool_txs p"
  obtains p' where "pool_remove P p (tx_hash_of P t) bad = Some (Some (pt_transaction t), p')" "pool_ok P rank p'"
    "pool_txs p' = pool_txs p - {t}" "pl_options p' = pl_options p" "pl_insertion_id p' = pl_insertion_id p"
proof -
  obtain p1 where p1: "finalize_remove P p (tx_hash_of P t) = Some (Some (pt_transaction t), p1)" "tracks P p1 (pool_txs p - {t})"
    "p1 = p\<lparr>pl_mem_usage := pl_mem_usage p1, pl_by_hash := pl_by_hash p1\<rparr>"
    using finalize_remove_tracks [OF pool_okD(2) [OF p] t] .
  have same: "pl_transactions p1 = pl_transactions p" "pl_options p1 = pl_options p" "pl_insertion_id p1 = pl_insertion_id p"
    by (subst p1(3), simp)+
  have core: "core_ok P rank p1" using pool_okD(1) [OF p] core_frame [OF p1(3)] by blast
  from t have "t \<in> pool_txs p1" by (simp add: same)
  from take_out [OF S core this] obtain x p2 where
    p2: "remove_from_set P p1 (tx_sender_of P t) (\<lambda>q. queue_remove (pool_scoring P) q (pt_transaction t)) = Some (Some x, p2)"
    "core_ok P rank p2" "pool_txs p2 = pool_txs p1 - {t}" "pl_by_hash p2 = pl_by_hash p1" "pl_mem_usage p2 = pl_mem_usage p1"
    "pl_options p2 = pl_options p1" "pl_insertion_id p2 = pl_insertion_id p1" .
  have "pool_ok P rank p2"
    using p2(2) p1(2) tracks_frame [OF p2(4,5), of P] by (simp add: pool_ok_def p2(3) same)
  moreover have "\<exists>l. pool_remove P p (tx_hash_of P t) bad = Some (Some (pt_transaction t), p2\<lparr>pl_listener := l\<rparr>)"
    by (simp add: pool_remove_def p1(1) p2(1)) blast
  ultimately show thesis using that p2(3,6,7) same by auto
qed

lemma finalize_culled_tracks:
  assumes "tracks P p A" "set ts \<subseteq> A" "distinct ts"
  shows "\<exists>p'. finalize_culled P p ts = Some p' \<and> tracks P p' (A - set ts) \<and>
    p' = p\<lparr>pl_mem_usage := pl_mem_usage p', pl_by_hash := pl_by_hash p', pl_listener := pl_listener p'\<rparr>"
  using assms
proof (induction ts arbitrary: p A)
  case (Cons t ts)
  obtain p1 where p1: "finalize_remove P p (tx_hash_of P t) = Some (Some (pt_transaction t), p1)" "tracks P p1 (A - {t})"
    "p1 = p\<lparr>pl_mem_usage := pl_mem_usage p1, pl_by_hash := pl_by_hash p1\<rparr>"
    using finalize_remove_tracks [OF Cons.prems(1), of t] Cons.prems(2) by auto
  let ?p2 = "p1\<lparr>pl_listener := on_culled (pool_listener P) (pl_listener p1) (pt_transaction t)\<rparr>"
  have "tracks P ?p2 (A - {t})" using p1(2) by (simp add: tracks_def)
  from Cons.IH [OF this] Cons.prems obtain p' where p': "finalize_culled P ?p2 ts = Some p'" "tracks P p' (A - {t} - set ts)"
    "p' = ?p2\<lparr>pl_mem_usage := pl_mem_usage p', pl_by_hash := pl_by_hash p', pl_listener := pl_listener p'\<rparr>" by auto
  have "p' = p\<lparr>pl_mem_usage := pl_mem_usage p', pl_by_hash := pl_by_hash p', pl_listener := pl_listener p'\<rparr>"
    by (subst p'(3), subst p1(3)) simp
  with p1(1) p'(1,2) show ?case by (auto simp: Diff_insert2 [symmetric])
qed simp

text \<open>A pool after some stale transactions of it were dropped.\<close>

definition culled ::
  "('a, 'h, 's, 'c::linorder, 'e, 'l, 'z) pool_env_scheme \<Rightarrow> ('a \<Rightarrow> 'k::linorder) \<Rightarrow> ('r, 'a) is_ready
     \<Rightarrow> ('a, 'h, 's, 'c, 'l) pool \<Rightarrow> nat \<Rightarrow> ('a, 'h, 's, 'c, 'l) pool \<Rightarrow> bool" where
  "culled P rank R p n p' \<longleftrightarrow> trimmed P rank p p' \<and> card (pool_txs p) = n + card (pool_txs p') \<and>
    (\<forall>t \<in> pool_txs p - pool_txs p'. \<exists>r. fst (R r (pt_transaction t)) = Stale)"

lemma culled_trans:
  assumes "culled P rank R p n p1" "culled P rank R p1 m p2"
  shows "culled P rank R p (n + m) p2"
proof -
  have "t \<in> pool_txs p - pool_txs p1 \<or> t \<in> pool_txs p1 - pool_txs p2" if "t \<in> pool_txs p - pool_txs p2" for t using that by blast
  with assms show ?thesis using trimmed_trans [of P rank p p1 p2] by (auto simp: culled_def)
qed

lemma first_non_stalled_spec:
  "first_non_stalled R r txs = (n, r') \<Longrightarrow> (\<forall>t \<in> set (take n txs). \<exists>r. fst (R r (pt_transaction t)) = Stale) \<and>
    (n < length txs \<longrightarrow> (\<exists>r. fst (R r (pt_transaction (txs ! n))) \<noteq> Stale))"
proof (induction txs arbitrary: r n)
  case (Cons t ts)
  obtain st r1 where R: "R r (pt_transaction t) = (st, r1)" by fastforce
  obtain m r2 where rest: "first_non_stalled R r1 ts = (m, r2)" by fastforce
  have "\<exists>r. fst (R r (pt_transaction t)) = st" "st \<noteq> Stale \<Longrightarrow> \<exists>r. fst (R r (pt_transaction t)) \<noteq> Stale"
    using R by (metis fst_conv)+
  with Cons.prems Cons.IH [of r1 m] R rest show ?case by (cases st) auto
qed simp

text \<open>The best transaction of a sender, when there is one, is not stale.\<close>

definition head_live :: "('r, 'a) is_ready \<Rightarrow> ('a, 'h, 's, 'c, 'l) pool \<Rightarrow> 's \<Rightarrow> bool" where
  "head_live R p s \<longleftrightarrow> (\<forall>q. map_of (pl_transactions p) s = Some q \<longrightarrow>
    (\<exists>r. fst (R r (pt_transaction (hd (tq_transactions q)))) \<noteq> Stale))"

lemma remove_stalled_ok:
  assumes S: "scoring_ok (pool_scoring P) rank" and p: "pool_ok P rank p"
  obtains n r' p' where "remove_stalled P R r p s = Some (n, r', p')" "culled P rank R p n p'" "head_live R p' s"
    "\<And>s'. s' \<noteq> s \<Longrightarrow> map_of (pl_transactions p') s' = map_of (pl_transactions p) s'"
proof (cases "map_of (pl_transactions p) s")
  case None
  then have "remove_stalled P R r p s = Some (0, r, p)" by (simp add: remove_stalled_def remove_from_set_def)
  then show thesis by (rule that) (use p None in \<open>auto simp: culled_def trimmed_def head_live_def\<close>)
next
  case (Some q)
  note core = pool_okD(1) [OF p]
  note Q = core_queues [OF core]
  note q = queues_okD [OF Q Some]
  obtain n q' r' where c: "first_non_stalled R r (tq_transactions q) = (n, r')"
    "queue_cull (pool_scoring P) R r q = Some (rev (take n (tq_transactions q)), q', r')"
    "queue_ok rank q'" "tq_transactions q' = drop n (tq_transactions q)"
    using queue_cull_ok [OF S q(1)] by metis
  let ?ts = "take n (tq_transactions q)"
  let ?f = "\<lambda>q. do { (removed, q', r') \<leftarrow> queue_cull (pool_scoring P) R r q; Some ((removed, r'), q') }"
  have f: "?f q = Some ((rev ?ts, r'), q')" by (simp add: c(2))
  have sub: "set (tq_transactions q') \<subseteq> set (tq_transactions q)" by (simp add: c(4) set_drop_subset)
  obtain p1 where p1: "remove_from_set P p s ?f = Some (Some (rev ?ts, r'), p1)" "core_ok P rank p1"
    "pool_txs p1 = pool_txs p - (set (tq_transactions q) - set (tq_transactions q'))"
    "pl_by_hash p1 = pl_by_hash p" "pl_mem_usage p1 = pl_mem_usage p" "pl_options p1 = pl_options p"
    "pl_insertion_id p1 = pl_insertion_id p"
    "map_of (pl_transactions p1) = (map_of (pl_transactions p))(s := stored_queue q')"
    by (rule remove_from_set_ok [of P rank p s q ?f, OF core Some f c(3) sub])
  have d: "distinct (tq_transactions q)" using queue_ok_distinct(1) [OF q(1)] .
  have parts: "set (tq_transactions q) - set (tq_transactions q') = set ?ts" "set ?ts \<subseteq> pool_txs p"
    using d queued_memberI [of "map_of (pl_transactions p)", OF Some] set_take_subset [of n "tq_transactions q"]
      set_take_disj_set_drop_if_distinct [OF d order_refl, of n]
      set_append [of ?ts "drop n (tq_transactions q)"] by (auto simp: c(4))
  obtain p' where p': "finalize_culled P p1 (rev ?ts) = Some p'" "tracks P p' (pool_txs p - set ?ts)"
    "p' = p1\<lparr>pl_mem_usage := pl_mem_usage p', pl_by_hash := pl_by_hash p', pl_listener := pl_listener p'\<rparr>"
    using finalize_culled_tracks [of P p1 "pool_txs p" "rev ?ts"] pool_okD(2) [OF p] tracks_frame [OF p1(4,5), of P] parts d
    by auto
  have same: "pl_transactions p' = pl_transactions p1" "pl_options p' = pl_options p" "pl_insertion_id p' = pl_insertion_id p"
    using p1(6,7) by (subst p'(3), simp)+
  have txs: "pool_txs p' = pool_txs p - set ?ts" by (simp only: same p1(3) parts)
  have "core_ok P rank p'" using p1(2) by (subst p'(3)) (simp add: core_ok_def)
  then have ok: "pool_ok P rank p'" using p'(2) txs by (simp add: pool_ok_def)
  show thesis
  proof (rule that [of "length ?ts" r' p'])
    show "remove_stalled P R r p s = Some (length ?ts, r', p')" using p1(1) p'(1) by (simp add: remove_stalled_def)
    have "card (set ?ts) = length ?ts" using d by (intro distinct_card) simp
    then show "culled P rank R p (length ?ts) p'"
      using ok same(2,3) txs first_non_stalled_spec [OF c(1)] card_Diff_subset [OF finite_set parts(2)] parts(2)
        card_mono [OF pool_okD(3) [OF p] parts(2)]
      by (auto simp: culled_def trimmed_def)
    show "head_live R p' s" using first_non_stalled_spec [OF c(1)]
      by (auto simp: head_live_def same p1(8) stored_queue_def c(4) hd_drop_conv_nth split: if_splits)
    show "map_of (pl_transactions p') s' = map_of (pl_transactions p) s'" if "s' \<noteq> s" for s'
      using that by (simp add: same p1(8))
  qed
qed

lemma head_live_trimmed:
  assumes "map_of (pl_transactions p') s = map_of (pl_transactions p) s"
  shows "head_live R p' s = head_live R p s"
  using assms by (simp add: head_live_def)

lemma cull_senders_ok:
  assumes "scoring_ok (pool_scoring P) rank" "pool_ok P rank p"
  shows "\<exists>n p'. cull_senders P R r p ss = Some (n, p') \<and> culled P rank R p n p' \<and>
    (\<forall>s. s \<in> set ss \<or> head_live R p s \<longrightarrow> head_live R p' s)"
  using assms(2)
proof (induction ss arbitrary: r p)
  case Nil
  then show ?case by (auto simp: culled_def trimmed_def)
next
  case (Cons s ss)
  from remove_stalled_ok [OF assms(1) Cons.prems] obtain n r1 p1 where one: "remove_stalled P R r p s = Some (n, r1, p1)"
    "culled P rank R p n p1" "head_live R p1 s" "\<And>s'. s' \<noteq> s \<Longrightarrow> map_of (pl_transactions p1) s' = map_of (pl_transactions p) s'"
    by metis
  have "pool_ok P rank p1" using one(2) by (simp add: culled_def trimmed_def)
  from Cons.IH [OF this] obtain m p' where rest: "cull_senders P R r1 p1 ss = Some (m, p')" "culled P rank R p1 m p'"
    "\<forall>s. s \<in> set ss \<or> head_live R p1 s \<longrightarrow> head_live R p' s" by blast
  have "head_live R p' s'" if "s' \<in> set (s # ss) \<or> head_live R p s'" for s'
    using that rest(3) one(3) head_live_trimmed [OF one(4), of s' R] by (cases "s' = s") auto
  with one(1) rest(1) culled_trans [OF one(2) rest(2)] show ?case by auto
qed

section \<open>New scores, clearing, a new pool\<close>

lemma pool_update_scores_ok:
  assumes S: "scoring_ok (pool_scoring P) rank" and p: "pool_ok P rank p"
  obtains p' where "pool_update_scores P p s ev = Some p'" "pool_ok P rank p'" "pool_txs p' = pool_txs p"
    "pl_options p' = pl_options p" "pl_insertion_id p' = pl_insertion_id p"
proof (cases "map_of (pl_transactions p) s")
  case None
  with p show thesis by (intro that [of p]) (auto simp: pool_update_scores_def)
next
  case (Some q)
  let ?q = "queue_update_scores (pool_scoring P) q ev" and ?Q = "map_of (pl_transactions p)"
  note core = pool_okD(1) [OF p]
  note Q = core_queues [OF core]
  note q = queues_okD [OF Q Some]
  have txs: "tq_transactions ?q = tq_transactions q" by (simp add: queue_update_scores_def)
  have ok: "queue_ok rank ?q" using q(1) S by (simp add: queue_ok_def queue_update_scores_def scoring_okD(3))
  have stored: "stored_queue ?q = Some ?q" "stored_queue q = Some q" using q(2) by (simp_all add: stored_queue_def txs)
  have same: "queued (?Q(s \<mapsto> ?q)) = pool_txs p"
    using queued_upd(2) [of ?Q s ?q] queued_split [of ?Q, OF Some] by (simp add: txs)
  have "queues_ok P rank (pl_insertion_id p) (?Q(s \<mapsto> ?q))"
    using Q ok q(2,3) Some same txs by (auto simp: queues_ok_def)
  then have new: "queues_ok P rank (pl_insertion_id p) (?Q(s := stored_queue ?q))" by (simp only: stored)
  have hashes: "inj_on (tx_hash_of P) (pool_txs p \<union> set (tq_transactions ?q))"
    using core_hash_inj [OF core] queued_split [of ?Q, OF Some] by (simp add: txs Un_absorb2)
  note step = core_step [OF core new hashes, OF impI, OF q(2) [folded txs]]
  have "pool_update_scores P p s ev = Some (put_queue P p s ?q)"
    using worst_and_best_ends [OF q(1)] worst_and_best_ends [OF ok] Some
    by (simp add: pool_update_scores_def put_queue_def Let_def stored)
  moreover have "pool_ok P rank (put_queue P p s ?q)"
    using step(1) pool_okD(2) [OF p] tracks_frame [OF step(3,4), of P]
    by (simp add: pool_ok_def step(2) stored same)
  ultimately show thesis using step(5,6) by (intro that [of "put_queue P p s ?q"]) (simp_all add: step(2) stored same)
qed

lemma pool_clear_ok:
  assumes "pool_ok P rank p"
  shows "pool_ok P rank (pool_clear P p)" "pool_txs (pool_clear P p) = {}"
  by (auto simp: pool_clear_def pool_ok_def core_ok_def queues_ok_def refs_ok_def tracks_def queued_def)

lemma pool_new_ok: "pool_ok P rank (pool_new l opts)" "pool_txs (pool_new l opts) = {}"
  by (auto simp: pool_new_def pool_ok_def core_ok_def queues_ok_def refs_ok_def tracks_def queued_def)

section \<open>Iteration over the pending transactions\<close>

text \<open>Where an iterator stands: in the queue of sender \<open>s\<close> it has passed \<open>pos s\<close> transactions.\<close>

definition ref_at :: "('a, 'c) transactions \<Rightarrow> nat \<Rightarrow> ('a, 'c) score_ref" where
  "ref_at q i = as_ref (tq_scores q ! i, tq_transactions q ! i)"

definition refs_at :: "('a, 'h, 's, 'c, 'l) pool \<Rightarrow> ('s \<Rightarrow> nat) \<Rightarrow> ('a, 'c) score_ref set" where
  "refs_at p pos = {ref_at q (pos s) | s q. map_of (pl_transactions p) s = Some q \<and> pos s < length (tq_transactions q)}"

definition iter_at ::
  "('a, 'h, 's, 'c::linorder, 'l) pool \<Rightarrow> ('s \<Rightarrow> nat) \<Rightarrow> ('a, 'c, 'r) pending_iterator \<Rightarrow> bool" where
  "iter_at p pos it \<longleftrightarrow> btree_sorted score_ref_cmp (pi_best it) \<and> set (pi_best it) = refs_at p pos"

definition iter_left :: "('a, 'h, 's, 'c, 'l) pool \<Rightarrow> ('s \<Rightarrow> nat) \<Rightarrow> nat" where
  "iter_left p pos = (\<Sum>(s, q) \<leftarrow> pl_transactions p. length (tq_transactions q) - pos s)"

lemma ref_at_inj:
  assumes Q: "queues_ok P rank iid Q" and a: "Q s = Some q" "i < length (tq_transactions q)"
    and b: "Q s' = Some q'" "j < length (tq_transactions q')" and eq: "score_ref_eq (ref_at q i) (ref_at q' j)"
  shows "s = s'" "q = q'" "i = j"
proof -
  have m: "tq_transactions q ! i \<in> set (tq_transactions q)" "tq_transactions q' ! j \<in> set (tq_transactions q')"
    using a(2) b(2) by simp_all
  have "tq_transactions q ! i \<in> queued Q" "tq_transactions q' ! j \<in> queued Q"
    using queued_memberI [of Q, OF a(1) m(1)] queued_memberI [of Q, OF b(1) m(2)] by simp_all
  with eq Q have t: "tq_transactions q ! i = tq_transactions q' ! j"
    by (auto simp: queues_ok_def score_ref_eq_def ref_at_def inj_on_def)
  with queues_okD(3) [OF Q a(1) m(1)] queues_okD(3) [OF Q b(1) m(2)] show s: "s = s'" by simp
  with a(1) b(1) show q: "q = q'" by simp
  with t a(2) b(2) queue_ok_distinct(1) [OF queues_okD(1) [OF Q a(1)]] show "i = j" by (simp add: nth_eq_iff_index_eq)
qed

lemma iter_start: "pool_ok P rank p \<Longrightarrow> iter_at p (\<lambda>_. 0) (pool_pending r p)"
proof -
  assume p: "pool_ok P rank p"
  note Q = core_queues [OF pool_okD(1) [OF p]]
  have first: "tq_transactions q \<noteq> []" "tq_scores q \<noteq> []" if "map_of (pl_transactions p) s = Some q" for s q
    using queues_okD(1,2) [OF Q that] by (auto simp: queue_ok_def)
  have "(\<lambda>q. as_ref (best_ref q)) ` ran (map_of (pl_transactions p)) =
      refs_at p (\<lambda>_. 0)"
    using first by (auto simp: refs_at_def ran_def best_ref_def ref_at_def hd_conv_nth image_iff) (metis first hd_conv_nth)+
  then show ?thesis using pool_okD(1) [OF p] by (auto simp: iter_at_def pool_pending_def core_ok_def refs_ok_def Let_def)
qed

lemma iter_left_less:
  assumes "map_of (pl_transactions p) s = Some q" "pos s < i" "pos s < length (tq_transactions q)"
  shows "iter_left p (pos(s := i)) < iter_left p pos"
proof -
  have "(s, q) \<in> set (pl_transactions p)" using assms(1) by (rule map_of_SomeD)
  then obtain xs ys where xs: "pl_transactions p = xs @ (s, q) # ys" by (meson split_list)
  have "(\<Sum>(s', q) \<leftarrow> zs. length (tq_transactions q) - (pos(s := i)) s') \<le> (\<Sum>(s', q) \<leftarrow> zs. length (tq_transactions q) - pos s')"
    for zs
    using assms(2) by (intro sum_list_mono) (auto split: prod.splits)
  from this [of xs] this [of ys] show ?thesis using assms(2,3) by (simp add: iter_left_def xs)
qed

definition refs_but :: "('a, 'h, 's, 'c, 'l) pool \<Rightarrow> ('s \<Rightarrow> nat) \<Rightarrow> 's \<Rightarrow> ('a, 'c) score_ref set" where
  "refs_but p pos s = {ref_at q (pos s') | s' q. s' \<noteq> s \<and> map_of (pl_transactions p) s' = Some q \<and> pos s' < length (tq_transactions q)}"

lemma refs_but_same: "refs_but p (pos(s := i)) s = refs_but p pos s"
  unfolding refs_but_def by (rule Collect_cong) (metis fun_upd_other)

lemma refs_at_split:
  assumes "map_of (pl_transactions p) s = Some q"
  shows "refs_at p pos = (if pos s < length (tq_transactions q) then insert (ref_at q (pos s)) (refs_but p pos s) else refs_but p pos s)"
proof -
  have "x \<in> refs_at p pos \<longleftrightarrow> (pos s < length (tq_transactions q) \<and> x = ref_at q (pos s)) \<or> x \<in> refs_but p pos s" for x
    unfolding refs_at_def refs_but_def mem_Collect_eq using assms by (metis option.inject)
  then show ?thesis by auto
qed

lemma refs_at_next:
  assumes "map_of (pl_transactions p) s = Some q"
  shows "refs_at p (pos(s := i)) = (if i < length (tq_transactions q) then insert (ref_at q i) (refs_but p pos s) else refs_but p pos s)"
  using refs_at_split [OF assms, of "pos(s := i)"] by (simp add: refs_but_same)

lemma refs_but_fresh:
  assumes "queues_ok P rank iid (map_of (pl_transactions p))" "map_of (pl_transactions p) s = Some q" "i < length (tq_transactions q)"
    and "y \<in> refs_but p pos s"
  shows "\<not> score_ref_eq (ref_at q i) y"
proof
  from assms(4) obtain s' q' where y: "y = ref_at q' (pos s')" "s' \<noteq> s" "map_of (pl_transactions p) s' = Some q'"
    "pos s' < length (tq_transactions q')" unfolding refs_but_def by blast
  assume "score_ref_eq (ref_at q i) y"
  with ref_at_inj(1) [OF assms(1-3) y(3,4)] y(1,2) show False by simp
qed

lemma pending_round_ok:
  assumes S: "scoring_ok (pool_scoring P) rank" and p: "pool_ok P rank p" and it: "iter_at p pos it"
    and first: "btree_first (pi_best it) = Some best" and R: "R (pi_ready it) (pt_transaction (sr_transaction best)) = (st, r')"
  obtains s q i it' where "map_of (pl_transactions p) s = Some q" "pos s < length (tq_transactions q)"
    "sr_transaction best = tq_transactions q ! pos s" "pending_round P R p it best = Some (st, it')"
    "pos s < i" "iter_at p (pos(s := i)) it'"
proof -
  note Q = core_queues [OF pool_okD(1) [OF p]]
  from it have srt: "btree_sorted score_ref_cmp (pi_best it)" and set: "set (pi_best it) = refs_at p pos" by (simp_all add: iter_at_def)
  have mem: "best \<in> set (pi_best it)" using bt.lo_SomeD [OF srt first] by blast
  then obtain s q where q: "best = ref_at q (pos s)" "map_of (pl_transactions p) s = Some q" "pos s < length (tq_transactions q)"
    by (auto simp: set refs_at_def)
  let ?len = "length (tq_transactions q)"
  let ?rest = "btree_remove score_ref_cmp best (pi_best it)"
  have rest: "btree_sorted score_ref_cmp ?rest" "set ?rest = refs_but p pos s"
    using bt.del_law [OF srt, of best] bt.del_member [OF srt mem] refs_at_split [OF q(2), of pos] q(3)
      refs_but_fresh [OF Q q(2,3), of best pos] by (auto simp: set q(1) score_ref_eq_def)
  have tx: "sr_transaction best = tq_transactions q ! pos s" by (simp add: q(1) ref_at_def)
  have sender: "tx_sender_of P (sr_transaction best) = s" using queues_okD(3) [OF Q q(2)] q(3) tx by simp
  note finish = that [OF q(2,3) tx]
  have stop: thesis if "pending_round P R p it best = Some (st, \<lparr>pi_ready = r', pi_best = ?rest\<rparr>)"
    using rest q(3) by (intro finish [OF that, of ?len]) (simp_all add: iter_at_def refs_at_next [OF q(2)])
  have next_tx: "find_next (pool_scoring P) q (pt_transaction (sr_transaction best)) =
      Some (if Suc (pos s) < ?len then Some (tq_scores q ! Suc (pos s), tq_transactions q ! Suc (pos s)) else None)"
    using find_next_eq [OF S queues_okD(1) [OF Q q(2)] q(3)] by (simp add: tx)
  show thesis
  proof (cases "st \<noteq> Future \<and> Suc (pos s) < ?len")
    case False
    with R next_tx sender q(2) show thesis by (intro stop) (auto simp: pending_round_def Let_def)
  next
    case True
    let ?new = "btree_insert score_ref_cmp (ref_at q (Suc (pos s))) ?rest"
    have run: "pending_round P R p it best = Some (st, \<lparr>pi_ready = r', pi_best = ?new\<rparr>)"
      using True R next_tx sender q(2) by (simp add: pending_round_def Let_def ref_at_def)
    have "\<forall>y \<in> set ?rest. score_ref_cmp (ref_at q (Suc (pos s))) y \<noteq> Equal"
      using refs_but_fresh [OF Q q(2), of "Suc (pos s)"] True by (auto simp: rest(2))
    from bt.ins_fresh [OF rest(1) this] bt.ins_law [OF rest(1), of "ref_at q (Suc (pos s))"] True
    show thesis by (intro finish [OF run, of "Suc (pos s)"]) (simp_all add: iter_at_def rest(2) refs_at_next [OF q(2)])
  qed
qed

text \<open>What a call of \<^verbatim>\<open>next\<close> gives: a transaction further in the queue of its sender, or the end.\<close>

definition visited ::
  "('a, 'h, 's, 'c, 'l) pool \<Rightarrow> ('s \<Rightarrow> nat) \<Rightarrow> ('s \<Rightarrow> nat) \<Rightarrow> 'a \<Rightarrow> bool" where
  "visited p pos pos' a \<longleftrightarrow> (\<exists>s q i. map_of (pl_transactions p) s = Some q \<and> pos s \<le> i \<and> i < pos' s \<and>
    i < length (tq_transactions q) \<and> a = pt_transaction (tq_transactions q ! i))"

lemma visited_mono:
  assumes "\<forall>s. pos s \<le> pos1 s" "visited p pos1 pos2 a"
  shows "visited p pos pos2 a"
proof -
  from assms(2) obtain s q i where "map_of (pl_transactions p) s = Some q" "pos1 s \<le> i" "i < pos2 s"
    "i < length (tq_transactions q)" "a = pt_transaction (tq_transactions q ! i)" unfolding visited_def by blast
  moreover from this assms(1) have "pos s \<le> i" by (meson order_trans)
  ultimately show ?thesis unfolding visited_def by blast
qed

lemma pending_next_ok:
  assumes S: "scoring_ok (pool_scoring P) rank" and p: "pool_ok P rank p"
  shows "iter_at p pos it \<Longrightarrow> \<exists>r it' pos'. pending_next P R p it = Some (Some (r, it')) \<and> iter_at p pos' it' \<and> (\<forall>s. pos s \<le> pos' s) \<and>
    (case r of None \<Rightarrow> pi_best it' = []
     | Some a \<Rightarrow> visited p pos pos' a \<and> (\<exists>r. fst (R r a) = Ready) \<and> iter_left p pos' < iter_left p pos)"
proof (induction "iter_left p pos" arbitrary: pos it rule: less_induct)
  case less
  show ?case
  proof (cases "btree_first (pi_best it)")
    case None
    then have "pi_best it = []" by (simp add: btree_first_def split: list.splits)
    with None less.prems show ?thesis by (subst pending_next.simps) auto
  next
    case (Some best)
    obtain st r' where R: "R (pi_ready it) (pt_transaction (sr_transaction best)) = (st, r')" by fastforce
    obtain s q i it' where step: "map_of (pl_transactions p) s = Some q" "pos s < length (tq_transactions q)"
      "sr_transaction best = tq_transactions q ! pos s" "pending_round P R p it best = Some (st, it')"
      "pos s < i" "iter_at p (pos(s := i)) it'"
      using pending_round_ok [of P rank p pos it best R, OF S p less.prems Some R] .
    have left: "iter_left p (pos(s := i)) < iter_left p pos" using iter_left_less [of p s q pos i, OF step(1,5,2)] .
    show ?thesis
    proof (cases "st = Ready")
      case True
      have "visited p pos (pos(s := i)) (pt_transaction (sr_transaction best))"
        unfolding visited_def using step by (metis fun_upd_same order_refl)
      moreover have "\<exists>r. fst (R r (pt_transaction (sr_transaction best))) = Ready" using R True by (metis fst_conv)
      ultimately have "pending_next P R p it = Some (Some (Some (pt_transaction (sr_transaction best)), it')) \<and>
          iter_at p (pos(s := i)) it' \<and> (\<forall>s'. pos s' \<le> (pos(s := i)) s') \<and> visited p pos (pos(s := i)) (pt_transaction (sr_transaction best)) \<and>
          (\<exists>r. fst (R r (pt_transaction (sr_transaction best))) = Ready)"
        using Some step True by (subst pending_next.simps) simp
      with left show ?thesis by (intro exI [of _ "Some (pt_transaction (sr_transaction best))"] exI [of _ it'] exI [of _ "pos(s := i)"]) simp
    next
      case False
      from less.hyps [OF left step(6)] obtain r it2 pos2 where rest: "pending_next P R p it' = Some (Some (r, it2))"
        "iter_at p pos2 it2" "\<forall>s'. (pos(s := i)) s' \<le> pos2 s'" "case r of None \<Rightarrow> pi_best it2 = []
          | Some a \<Rightarrow> visited p (pos(s := i)) pos2 a \<and> (\<exists>r. fst (R r a) = Ready) \<and> iter_left p pos2 < iter_left p (pos(s := i))" by blast
      have mono: "\<forall>s'. pos s' \<le> (pos(s := i)) s'" using step(5) by simp
      have "visited p pos pos2 a" if "visited p (pos(s := i)) pos2 a" for a using visited_mono [OF mono that] .
      moreover have "\<forall>s'. pos s' \<le> pos2 s'" using mono rest(3) by (meson order_trans)
      moreover have "pending_next P R p it = Some (Some (r, it2))"
        using Some step(4) False rest(1) by (subst pending_next.simps) simp
      ultimately show ?thesis using rest(2,4) left
        by (intro exI [of _ r] exI [of _ it2] exI [of _ pos2]) (auto split: option.splits)
    qed
  qed
qed

lemma visited_order:
  assumes p: "pool_ok P rank p" and "visited p pos pos' a" "visited p pos' pos'' b" "vt_sender P a = vt_sender P b"
  shows "rank a < rank b"
proof -
  note Q = core_queues [OF pool_okD(1) [OF p]]
  from assms(2,3) obtain s q i s' q' j where a: "map_of (pl_transactions p) s = Some q" "i < pos' s" "i < length (tq_transactions q)"
    "a = pt_transaction (tq_transactions q ! i)" and b: "map_of (pl_transactions p) s' = Some q'" "pos' s' \<le> j"
    "j < length (tq_transactions q')" "b = pt_transaction (tq_transactions q' ! j)" unfolding visited_def by blast
  have "vt_sender P a = s" "vt_sender P b = s'" using queues_okD(3) [OF Q a(1)] queues_okD(3) [OF Q b(1)] a(3,4) b(3,4) by simp_all
  with assms(4) a(1) b(1) have "s' = s" "q' = q" by simp_all
  with a b queues_okD(1) [OF Q a(1)] show ?thesis by (simp add: queue_ok_def sorted_wrt_iff_nth_less)
qed

lemma pending_collect_ok:
  assumes S: "scoring_ok (pool_scoring P) rank" and p: "pool_ok P rank p"
  shows "iter_at p pos it \<Longrightarrow> \<exists>xs. pending_collect P R p it = Some (Some xs) \<and>
    (\<forall>a \<in> set xs. (\<exists>pos'. visited p pos pos' a) \<and> (\<exists>r. fst (R r a) = Ready)) \<and>
    sorted_wrt (\<lambda>a b. vt_sender P a = vt_sender P b \<longrightarrow> rank a < rank b) xs"
proof (induction "iter_left p pos" arbitrary: pos it rule: less_induct)
  case less
  from pending_next_ok [OF S p less.prems, of R] obtain r it' pos' where nxt: "pending_next P R p it = Some (Some (r, it'))"
    "iter_at p pos' it'" "\<forall>s. pos s \<le> pos' s" "case r of None \<Rightarrow> pi_best it' = []
     | Some a \<Rightarrow> visited p pos pos' a \<and> (\<exists>r. fst (R r a) = Ready) \<and> iter_left p pos' < iter_left p pos" by blast
  show ?case
  proof (cases r)
    case None
    with nxt(1) show ?thesis by (subst pending_collect.simps) simp
  next
    case (Some a)
    with nxt(4) have a: "visited p pos pos' a" "\<exists>r. fst (R r a) = Ready" "iter_left p pos' < iter_left p pos" by simp_all
    from less.hyps [OF a(3) nxt(2)] obtain xs where xs: "pending_collect P R p it' = Some (Some xs)"
      "\<forall>a \<in> set xs. (\<exists>pos2. visited p pos' pos2 a) \<and> (\<exists>r. fst (R r a) = Ready)"
      "sorted_wrt (\<lambda>a b. vt_sender P a = vt_sender P b \<longrightarrow> rank a < rank b) xs" by blast
    have "vt_sender P a = vt_sender P b \<longrightarrow> rank a < rank b" if "b \<in> set xs" for b
      using that xs(2) visited_order [OF p a(1)] by blast
    moreover have "\<exists>pos2. visited p pos pos2 b" if "b \<in> set xs" for b
      using that xs(2) visited_mono [OF nxt(3), of p] by blast
    ultimately show ?thesis using Some nxt(1) xs a by (subst pending_collect.simps) auto
  qed
qed

section \<open>The promises of the pool\<close>

text \<open>The states a pool can reach; \<open>R\<close> is the readiness the culling asks. An import happens while there is room.\<close>

inductive pool_reachable ::
  "('a, 'h, 's, 'c::linorder, 'e, 'l, 'z) pool_env_scheme \<Rightarrow> ('r, 'a) is_ready \<Rightarrow> ('a, 'h, 's, 'c, 'l) pool \<Rightarrow> bool"
  for P R where
  start: "pool_reachable P R (pool_new l opts)"
| import_step: "\<lbrakk>pool_reachable P R p; has_room P p a; pool_import P rep p a = Some (Some (res, p'))\<rbrakk> \<Longrightarrow> pool_reachable P R p'"
| remove_step: "\<lbrakk>pool_reachable P R p; pool_remove P p h bad = Some (res, p')\<rbrakk> \<Longrightarrow> pool_reachable P R p'"
| cull_step: "\<lbrakk>pool_reachable P R p; pool_cull P ss R r p = Some (n, p')\<rbrakk> \<Longrightarrow> pool_reachable P R p'"
| scores_step: "\<lbrakk>pool_reachable P R p; pool_update_scores P p s ev = Some p'\<rbrakk> \<Longrightarrow> pool_reachable P R p'"
| clear_step: "pool_reachable P R p \<Longrightarrow> pool_reachable P R (pool_clear P p)"

lemma pool_import_known:
  "pool_find p (vt_hash P a) \<noteq> None \<Longrightarrow> pool_import P rep p a = Some (Some (Inl (AlreadyImported (vt_hash P a)), p))"
  by (simp add: pool_find_def pool_import_def)

lemma pool_import_keeps:
  assumes "scoring_ok (pool_scoring P) rank" "pool_ok P rank p" "has_room P p a" "pool_import P rep p a = Some (Some (res, p'))"
  shows "pool_ok P rank p'"
proof (cases "pool_find p (vt_hash P a)")
  case None
  from pool_import_run [OF assms(1-3) None, of rep] show ?thesis by cases (use assms(4) in auto)
next
  case (Some b)
  then show ?thesis using pool_import_known [of p P a rep] assms(2,4) by simp
qed

lemma pool_remove_keeps:
  assumes "scoring_ok (pool_scoring P) rank" "pool_ok P rank p"
  shows "(if h \<in> tx_hash_of P ` pool_txs p then \<exists>t p'. t \<in> pool_txs p \<and> tx_hash_of P t = h \<and>
      pool_remove P p h bad = Some (Some (pt_transaction t), p') \<and> pool_ok P rank p' \<and> pool_txs p' = pool_txs p - {t}
    else pool_remove P p h bad = Some (None, p))"
proof (cases "h \<in> tx_hash_of P ` pool_txs p")
  case True
  then obtain t where t: "t \<in> pool_txs p" "h = tx_hash_of P t" by blast
  from pool_remove_found [OF assms t(1), of bad] obtain p' where "pool_remove P p h bad = Some (Some (pt_transaction t), p')"
    "pool_ok P rank p'" "pool_txs p' = pool_txs p - {t}" unfolding t(2) .
  with t show ?thesis unfolding if_P [OF True] by blast
next
  case False
  then show ?thesis using finalize_remove_absent [OF pool_okD(2) [OF assms(2)] False] by (simp add: pool_remove_def)
qed

lemma within_limits_mono:
  assumes "pool_ok P rank p" "pool_ok P rank p'" "pool_txs p' \<subseteq> pool_txs p" "pl_options p' = pl_options p" "within_limits p"
  shows "within_limits p'"
proof -
  have "card (pool_txs p') \<le> card (pool_txs p)" using pool_okD(3) [OF assms(1)] assms(3) by (rule card_mono)
  moreover have "unat (pl_mem_usage p') \<le> unat (pl_mem_usage p)"
    using sum_mono2 [OF pool_okD(3) [OF assms(1)] assms(3), of "\<lambda>t. unat (vt_mem_usage P (pt_transaction t))"] assms(1,2)
    by (simp add: pool_ok_def tracks_def)
  ultimately show ?thesis using assms(1,2,4,5) by (simp add: within_limits_def pool_ok_def tracks_def word_le_nat_alt)
qed

text \<open>C24. Whatever sequence of imports, removals, cullings, rescorings and clearings a pool has seen, its views agree:
  the queues of the senders are sorted and hold the transactions of that sender only, the best and the worst set
  hold exactly the two ends of every queue, the dictionary by hash holds exactly the queued transactions, and the memory
  counter is the sum of their sizes.\<close>

theorem reachable_pool_consistent:
  assumes "scoring_ok (pool_scoring P) rank" and "pool_reachable P R p"
  shows "pool_ok P rank p"
  using assms(2)
proof (induction rule: pool_reachable.induct)
  case (start l opts)
  show ?case by (rule pool_new_ok)
next
  case (import_step p a rep res p')
  then show ?case using pool_import_keeps [OF assms(1)] by blast
next
  case (remove_step p h bad res p')
  then show ?case using pool_remove_keeps [OF assms(1) remove_step.IH, of h bad] by (auto split: if_splits)
next
  case (cull_step p ss r n p')
  then show ?case using cull_senders_ok [OF assms(1) cull_step.IH, of R r "case ss of Some ss \<Rightarrow> ss | None \<Rightarrow> map fst (pl_transactions p)"]
    by (auto simp: pool_cull_def culled_def trimmed_def)
next
  case (scores_step p s ev p')
  from pool_update_scores_ok [OF assms(1) scores_step.IH, of s ev] scores_step.hyps show ?case by auto
next
  case (clear_step p)
  from pool_clear_ok(1) [OF clear_step.IH] show ?case .
qed

text \<open>C25. An import returns (its two loops end and nothing panics). It answers \<^verbatim>\<open>AlreadyImported\<close> exactly for a known hash
  and then changes nothing; when it succeeds the transaction can be found; when it fails the transaction is not in the
  pool; and no other transaction appears or changes.\<close>

theorem pool_import_spec:
  assumes "scoring_ok (pool_scoring P) rank" and "pool_ok P rank p" and "has_room P p a"
  shows "\<exists>res p'. pool_import P rep p a = Some (Some (res, p')) \<and> pool_ok P rank p' \<and>
    (if pool_find p (vt_hash P a) \<noteq> None then res = Inl (AlreadyImported (vt_hash P a)) \<and> p' = p
     else (case res of Inr b \<Rightarrow> b = a \<and> pool_find p' (vt_hash P a) = Some a | Inl e \<Rightarrow> pool_find p' (vt_hash P a) = None) \<and>
       (\<forall>h. h \<noteq> vt_hash P a \<longrightarrow> pool_find p' h \<in> {None, pool_find p h}))"
proof (cases "pool_find p (vt_hash P a)")
  case (Some b)
  then show ?thesis using pool_import_known [of p P a rep] assms(2) by auto
next
  case None
  from pool_import_run [OF assms None, of rep] show ?thesis
  proof cases
    case (1 e p')
    have "pool_find p' (vt_hash P a) = None" using 1(3) None pool_find_None [OF 1(2)] pool_find_None [OF assms(2)] by auto
    with 1 None pool_find_subset [OF assms(2) 1(2)] show ?thesis by auto
  next
    case (2 tx p')
    have "pool_find p' (vt_hash P a) = Some a" using 2(3,4) by (auto simp: pool_find_iff [OF 2(2)])
    moreover have "pool_find p' h \<in> {None, pool_find p h}" if "h \<noteq> vt_hash P a" for h
      using that 2(3,5) by (intro pool_find_subset [OF assms(2) 2(2)]) auto
    ultimately show ?thesis using 2(1,2) None by auto
  qed
qed

text \<open>C26. Unless the replacement policy asks to insert over the limits, a pool stays within its limits on the number of
  transactions and on memory: an import into a pool within them gives one, and a successful import always does.\<close>

theorem pool_import_limits:
  assumes "scoring_ok (pool_scoring P) rank" and "pool_ok P rank p" and "has_room P p a"
    and "\<And>x y. rep x y \<noteq> InsertNew"
    and "pool_import P rep p a = Some (Some (res, p'))" and "within_limits p \<or> (pool_find p (vt_hash P a) = None \<and> (\<exists>b. res = Inr b))"
  shows "within_limits p'"
proof (cases "pool_find p (vt_hash P a)")
  case (Some b)
  then show ?thesis using pool_import_known [of p P a rep] assms(5,6) by simp
next
  case None
  from pool_import_run [OF assms(1-3) None, of rep] show ?thesis
  proof cases
    case (1 e p2)
    with assms(5,6) have p': "within_limits p" "pool_ok P rank p'" "pool_txs p' \<subseteq> pool_txs p" "pl_options p' = pl_options p" by auto
    show ?thesis using within_limits_mono [OF assms(2) p'(2-4,1)] .
  next
    case (2 tx p2)
    with assms(4,5) show ?thesis by auto
  qed
qed

text \<open>C27. Removing by hash takes exactly the transaction with this hash out of the pool and returns it; an unknown hash
  changes nothing.\<close>

theorem pool_remove_spec:
  assumes "scoring_ok (pool_scoring P) rank" and "pool_ok P rank p"
  shows "\<exists>p'. pool_remove P p h bad = Some (pool_find p h, p') \<and> pool_ok P rank p' \<and> pool_find p' h = None \<and>
    (\<forall>h'. h' \<noteq> h \<longrightarrow> pool_find p' h' = pool_find p h') \<and> (pool_find p h = None \<longrightarrow> p' = p)"
proof (cases "h \<in> tx_hash_of P ` pool_txs p")
  case False
  with pool_remove_keeps [OF assms, of h bad] pool_find_None [OF assms(2), of h] assms(2) show ?thesis by auto
next
  case True
  with pool_remove_keeps [OF assms, of h bad] obtain t p' where t: "t \<in> pool_txs p" "tx_hash_of P t = h"
    "pool_remove P p h bad = Some (Some (pt_transaction t), p')" "pool_ok P rank p'" "pool_txs p' = pool_txs p - {t}" by auto
  have found: "pool_find p h = Some (pt_transaction t)" using t(1,2) pool_find_iff [OF assms(2)] by blast
  have only: "u = t" if "u \<in> pool_txs p" "tx_hash_of P u = h" for u
    using that t(1,2) core_hash_inj [OF pool_okD(1) [OF assms(2)]] by (auto dest: inj_onD)
  have "pool_find p' h = None" using only by (auto simp: pool_find_None [OF t(4)] t(5))
  moreover have "pool_find p' h' = pool_find p h'" if "h' \<noteq> h" for h'
  proof -
    have "pool_find p' h' = Some x \<longleftrightarrow> pool_find p h' = Some x" for x
      using that t(2) unfolding pool_find_iff [OF t(4)] pool_find_iff [OF assms(2)] t(5) by auto
    then show ?thesis by (metis option.exhaust)
  qed
  ultimately show ?thesis using t(3,4) found by auto
qed

text \<open>C28. Culling returns the number of transactions it dropped, drops stale ones only, and leaves every queue it was asked
  about without a stale transaction at its head.\<close>

theorem pool_cull_spec:
  assumes "scoring_ok (pool_scoring P) rank" and "pool_ok P rank p"
  shows "\<exists>n p'. pool_cull P senders R r p = Some (n, p') \<and> pool_ok P rank p' \<and> pool_txs p' \<subseteq> pool_txs p \<and>
    card (pool_txs p) = n + card (pool_txs p') \<and> (\<forall>t \<in> pool_txs p - pool_txs p'. \<exists>r. fst (R r (pt_transaction t)) = Stale) \<and>
    (\<forall>s. (case senders of None \<Rightarrow> s \<in> dom (map_of (pl_transactions p)) | Some ss \<Rightarrow> s \<in> set ss) \<longrightarrow> head_live R p' s)"
proof -
  let ?ss = "case senders of Some ss \<Rightarrow> ss | None \<Rightarrow> map fst (pl_transactions p)"
  have "s \<in> set ?ss \<longleftrightarrow> (case senders of None \<Rightarrow> s \<in> dom (map_of (pl_transactions p)) | Some ss \<Rightarrow> s \<in> set ss)" for s
    by (auto simp: dom_map_of_conv_image_fst split: option.splits)
  moreover obtain n p' where "cull_senders P R r p ?ss = Some (n, p')" "culled P rank R p n p'" "\<forall>s. s \<in> set ?ss \<longrightarrow> head_live R p' s"
    using cull_senders_ok [OF assms, of R r ?ss] by blast
  ultimately show ?thesis unfolding pool_cull_def culled_def trimmed_def by (intro exI [of _ n] exI [of _ p']) simp
qed

text \<open>C29. Iterating over the pending transactions ends; it yields transactions of the pool only, each answered ready, and
  those of one sender in the order of the scoring, none twice.\<close>

theorem pending_iteration:
  assumes "scoring_ok (pool_scoring P) rank" and "pool_ok P rank p"
  shows "\<exists>xs. pending_collect P R p (pool_pending r p) = Some (Some xs) \<and>
    (\<forall>a \<in> set xs. pool_find p (vt_hash P a) = Some a \<and> (\<exists>r. fst (R r a) = Ready)) \<and>
    sorted_wrt (\<lambda>a b. vt_sender P a = vt_sender P b \<longrightarrow> rank a < rank b) xs"
proof -
  have "pool_find p (vt_hash P a) = Some a" if "visited p pos pos' a" for a pos pos'
    using that by (auto simp: visited_def pool_find_iff [OF assms(2)] intro!: queued_memberI nth_mem bexI)
  moreover obtain xs where "pending_collect P R p (pool_pending r p) = Some (Some xs)"
    "\<forall>a \<in> set xs. (\<exists>pos'. visited p (\<lambda>_. 0) pos' a) \<and> (\<exists>r. fst (R r a) = Ready)"
    "sorted_wrt (\<lambda>a b. vt_sender P a = vt_sender P b \<longrightarrow> rank a < rank b) xs"
    using pending_collect_ok [OF assms iter_start [OF assms(2), of r], of R] by blast
  ultimately show ?thesis by (intro exI [of _ xs]) blast
qed

end
