(* ===== verification/Sample_Pool.thy ===== *)
theory Sample_Pool
  imports Pool_Ops
begin

text \<open>
  The pool on the transactions, scoring and readiness of src/pool/src/transaction_pool/tests (mod.rs and helper.rs), at which
  the theorems on the pool are applied.
\<close>

record pooled_tx =
  ptx_hash :: u64
  ptx_nonce :: u64
  ptx_gas_price :: u64
  ptx_sender :: u64
  ptx_mem_usage :: u64

definition builder_new :: "u64 \<Rightarrow> u64 \<Rightarrow> u64 \<Rightarrow> u64 \<Rightarrow> pooled_tx" where
  "builder_new sender nonce gas_price mem =
    \<lparr>ptx_hash = xor (xor nonce (100 * gas_price)) (100000 * sender), ptx_nonce = nonce, ptx_gas_price = gas_price,
     ptx_sender = sender, ptx_mem_usage = mem\<rparr>"

fun hex :: "nat \<Rightarrow> string" where
  "hex n = (if n < 16 then [''0123456789abcdef'' ! n] else hex (n div 16) @ [''0123456789abcdef'' ! (n mod 16)])"

definition dummy_scoring :: "(pooled_tx, u64, unit) scoring" where
  "dummy_scoring = \<lparr>
    compare_by = (\<lambda>old new. ord_cmp (ptx_nonce old) (ptx_nonce new)),
    choose_by = (\<lambda>old new. if ptx_nonce old = ptx_nonce new
      then (if ptx_gas_price new > ptx_gas_price old then ReplaceOld else RejectNew) else InsertNew),
    update_scores_by = (\<lambda>txs scores ch.
      map (\<lambda>t. case ch of Event _ \<Rightarrow> 0 | _ \<Rightarrow> ptx_gas_price (pt_transaction t)) (take (length scores) txs) @ drop (length txs) scores),
    should_ignore_sender_limit = (\<lambda>_. False),
    default_score = 0,
    show_score = (\<lambda>c. ''0x'' @ hex (unat c))\<rparr>"

definition dummy_replace :: "pooled_tx should_replace" where
  "dummy_replace old new = (if ptx_gas_price (pt_transaction (rt_transaction new)) > ptx_gas_price (pt_transaction (rt_transaction old))
    then ReplaceOld else RejectNew)"

definition nonce_ready :: "u64 \<Rightarrow> ((u64 \<times> u64) list, pooled_tx) is_ready" where
  "nonce_ready low m tx =
    (let nonce = (case map_of m (ptx_sender tx) of None \<Rightarrow> low | Some n \<Rightarrow> n)
     in case ord_cmp (ptx_nonce tx) nonce of
          Greater \<Rightarrow> (Future, AList.update (ptx_sender tx) nonce m)
        | Equal \<Rightarrow> (Ready, AList.update (ptx_sender tx) (nonce + 1) m)
        | Less \<Rightarrow> (Stale, AList.update (ptx_sender tx) nonce m))"

definition dummy_env :: "(pooled_tx, u64, u64, u64, unit, unit) pool_env" where
  "dummy_env = \<lparr>pool_checks = True, vt_hash = ptx_hash, vt_mem_usage = ptx_mem_usage, vt_sender = ptx_sender,
    pool_scoring = dummy_scoring, pool_listener = noop_listener\<rparr>"

lemma dummy_scoring_ok: "scoring_ok (pool_scoring dummy_env) ptx_nonce"
  by (auto simp: scoring_ok_def dummy_env_def dummy_scoring_def)

lemma dummy_replace_never: "dummy_replace x y \<noteq> InsertNew"
  by (simp add: dummy_replace_def)

definition sample_options :: pool_options where
  "sample_options = options_default\<lparr>max_count := 2\<rparr>"

definition tx1 :: pooled_tx where
  "tx1 = builder_new 1 0 5 10"

definition tx2 :: pooled_tx where
  "tx2 = builder_new 1 1 9 20"

definition tx3 :: pooled_tx where
  "tx3 = builder_new 2 0 12 30"

lemma tx_fields [simp]:
  "ptx_hash tx1 = 100180" "ptx_nonce tx1 = 0" "ptx_gas_price tx1 = 5" "ptx_sender tx1 = 1" "ptx_mem_usage tx1 = 10"
  "ptx_hash tx2 = 99621" "ptx_nonce tx2 = 1" "ptx_gas_price tx2 = 9" "ptx_sender tx2 = 1" "ptx_mem_usage tx2 = 20"
  "ptx_hash tx3 = 199152" "ptx_nonce tx3 = 0" "ptx_gas_price tx3 = 12" "ptx_sender tx3 = 2" "ptx_mem_usage tx3 = 30"
  by (simp_all add: tx1_def tx2_def tx3_def builder_new_def)

abbreviation numbered :: "u64 \<Rightarrow> 'a \<Rightarrow> 'a pool_tx" where
  "numbered i a \<equiv> \<lparr>pt_insertion_id = i, pt_transaction = a\<rparr>"

abbreviation scored :: "'c \<Rightarrow> 'a pool_tx \<Rightarrow> ('a, 'c) score_ref" where
  "scored c t \<equiv> \<lparr>sr_score = c, sr_transaction = t\<rparr>"

definition pool1 :: "(pooled_tx, u64, u64, u64, unit) pool" where
  "pool1 = \<lparr>pl_listener = (), pl_options = sample_options, pl_mem_usage = 10,
    pl_transactions = [(1, \<lparr>tq_transactions = [numbered 1 tx1], tq_scores = [5]\<rparr>)],
    pl_by_hash = [(100180, numbered 1 tx1)],
    pl_best = [scored 5 (numbered 1 tx1)], pl_worst = [scored 5 (numbered 1 tx1)],
    pl_insertion_id = 1\<rparr>"

definition pool2 :: "(pooled_tx, u64, u64, u64, unit) pool" where
  "pool2 = \<lparr>pl_listener = (), pl_options = sample_options, pl_mem_usage = 30,
    pl_transactions = [(1, \<lparr>tq_transactions = [numbered 1 tx1, numbered 2 tx2], tq_scores = [5, 9]\<rparr>)],
    pl_by_hash = [(100180, numbered 1 tx1), (99621, numbered 2 tx2)],
    pl_best = [scored 5 (numbered 1 tx1)], pl_worst = [scored 9 (numbered 2 tx2)],
    pl_insertion_id = 2\<rparr>"

definition pool3 :: "(pooled_tx, u64, u64, u64, unit) pool" where
  "pool3 = \<lparr>pl_listener = (), pl_options = sample_options, pl_mem_usage = 40,
    pl_transactions = [(1, \<lparr>tq_transactions = [numbered 1 tx1], tq_scores = [5]\<rparr>),
      (2, \<lparr>tq_transactions = [numbered 3 tx3], tq_scores = [12]\<rparr>)],
    pl_by_hash = [(100180, numbered 1 tx1), (199152, numbered 3 tx3)],
    pl_best = [scored 12 (numbered 3 tx3), scored 5 (numbered 1 tx1)],
    pl_worst = [scored 12 (numbered 3 tx3), scored 5 (numbered 1 tx1)],
    pl_insertion_id = 3\<rparr>"

lemma dummy_fields [simp]:
  "pool_checks dummy_env" "vt_hash dummy_env = ptx_hash" "vt_mem_usage dummy_env = ptx_mem_usage" "vt_sender dummy_env = ptx_sender"
  "pool_scoring dummy_env = dummy_scoring" "pool_listener dummy_env = noop_listener"
  "max_count sample_options = 2" "max_per_sender sample_options = 16" "max_mem_usage sample_options = 8388608"
  by (simp_all add: dummy_env_def sample_options_def options_default_def)

lemmas pool_eval = pool_new_def Let_def dummy_scoring_def dummy_replace_def noop_listener_def nth_checked_def
  import_insert_def transactions_default_def worst_and_best_def queue_add_def queue_search_def binary_search_by_def
  bsearch_loop.simps push_cheapest_transaction_def vec_insert_def vec_remove_def queue_remove_def
  update_senders_worst_and_best_def update_collection_def is_same_def finalize_insert_def finalize_remove_def
  make_room_def remove_worst_def remove_from_set_def btree_last_def btree_first_def score_ref_cmp_def
  ordering_then_def ord_cmp_def uadd_exact usub_exact

lemma import_tx1: "pool_import dummy_env dummy_replace (pool_new () sample_options) tx1 = Some (Some (Inr tx1, pool1))"
  unfolding pool_import_def
  by (subst count_loop.simps, subst mem_loop.simps) (simp add: pool_eval pool1_def)

lemma import_tx2: "pool_import dummy_env dummy_replace pool1 tx2 = Some (Some (Inr tx2, pool2))"
  unfolding pool_import_def
  by (subst count_loop.simps, subst mem_loop.simps) (simp add: pool_eval pool1_def pool2_def)

lemma import_tx3: "pool_import dummy_env dummy_replace pool2 tx3 = Some (Some (Inr tx3, pool3))"
  unfolding pool_import_def
  by (subst count_loop.simps, subst count_loop.simps, subst mem_loop.simps) (simp add: pool_eval pool2_def pool3_def)

section \<open>The theorems at these pools\<close>

lemma rooms:
  "has_room dummy_env (pool_new () sample_options) tx1" "has_room dummy_env pool1 tx2" "has_room dummy_env pool2 tx3"
  by (simp_all add: has_room_def pool_new_def pool1_def pool2_def)

lemma pools_ok: "pool_ok dummy_env ptx_nonce pool1" "pool_ok dummy_env ptx_nonce pool2" "pool_ok dummy_env ptx_nonce pool3"
proof -
  show 1: "pool_ok dummy_env ptx_nonce pool1" using pool_import_keeps [OF dummy_scoring_ok pool_new_ok(1) rooms(1) import_tx1] .
  show 2: "pool_ok dummy_env ptx_nonce pool2" using pool_import_keeps [OF dummy_scoring_ok 1 rooms(2) import_tx2] .
  show "pool_ok dummy_env ptx_nonce pool3" using pool_import_keeps [OF dummy_scoring_ok 2 rooms(3) import_tx3] .
qed

lemma pool3_reachable: "pool_reachable dummy_env (nonce_ready 1) pool3"
  by (rule pool_reachable.import_step [OF _ rooms(3) import_tx3], rule pool_reachable.import_step [OF _ rooms(2) import_tx2],
      rule pool_reachable.import_step [OF _ rooms(1) import_tx1], rule pool_reachable.start)

theorem reachable_pool_consistent_witness: "pool_ok dummy_env ptx_nonce pool3"
  using reachable_pool_consistent [OF dummy_scoring_ok pool3_reachable] .

theorem pool_import_spec_witness:
  "\<exists>p'. pool_import dummy_env dummy_replace pool2 tx3 = Some (Some (Inr tx3, p')) \<and> pool_ok dummy_env ptx_nonce p' \<and>
    pool_find p' (ptx_hash tx3) = Some tx3"
  using pool_import_spec [OF dummy_scoring_ok pools_ok(2) rooms(3), of dummy_replace] import_tx3
  by (simp add: pool_find_def pool2_def split: if_splits)

theorem pool_import_limits_witness: "within_limits pool3"
  by (rule pool_import_limits [OF dummy_scoring_ok pools_ok(2) rooms(3) dummy_replace_never import_tx3])
    (simp add: within_limits_def pool2_def)

theorem pool_remove_spec_witness:
  "\<exists>p'. pool_remove dummy_env pool2 (ptx_hash tx1) True = Some (Some tx1, p') \<and> pool_ok dummy_env ptx_nonce p' \<and>
    pool_find p' (ptx_hash tx1) = None \<and> pool_find p' (ptx_hash tx2) = Some tx2"
proof -
  have "pool_find pool2 (ptx_hash tx1) = Some tx1" "pool_find pool2 (ptx_hash tx2) = Some tx2" "ptx_hash tx2 \<noteq> ptx_hash tx1"
    by (simp_all add: pool_find_def pool2_def)
  with pool_remove_spec [OF dummy_scoring_ok pools_ok(2), of "ptx_hash tx1" True] show ?thesis by metis
qed

theorem pool_cull_spec_witness:
  "\<exists>n p'. pool_cull dummy_env None (nonce_ready 1) [] pool3 = Some (n, p') \<and> pool_ok dummy_env ptx_nonce p' \<and>
    2 = n + card (pool_txs p') \<and> head_live (nonce_ready 1) p' 1"
proof -
  have "card (pool_txs pool3) = length (pl_by_hash pool3)" using pools_ok(3) by (simp add: pool_ok_def tracks_def)
  then have "card (pool_txs pool3) = 2" "1 \<in> dom (map_of (pl_transactions pool3))" by (simp_all add: pool3_def)
  with pool_cull_spec [OF dummy_scoring_ok pools_ok(3), of None "nonce_ready 1" "[]"] show ?thesis by (simp only: option.case) metis
qed

theorem pending_iteration_witness:
  "\<exists>xs. pending_collect dummy_env (nonce_ready 0) pool3 (pool_pending [] pool3) = Some (Some xs) \<and>
    (\<forall>a \<in> set xs. pool_find pool3 (ptx_hash a) = Some a)"
  using pending_iteration [OF dummy_scoring_ok pools_ok(3), of "nonce_ready 0" "[]"] by (simp only: dummy_fields) blast

end
