(* ===== verification/Messages.thy ===== *)
theory Messages
  imports Blockchain
begin

text \<open>
  The messages of the network (src/network/src/topics.rs, p2p/methods.rs, p2p/protocol.rs, p2p/mod.rs and the message
  types of behaviour.rs, handler.rs and manager.rs): gossip topics, requests and responses between peers, and what the
  parts of a node send to each other.

  A \<^verbatim>\<open>PeerId\<close>, a \<^verbatim>\<open>MessageId\<close> and a \<^verbatim>\<open>Topic\<close> of libp2p are represented by the bytes or the string they are made
  of, an error of the transport by its text. An unbounded channel is represented by what was sent on it and by whether the
  receiver is still there, the only case in which a send fails.
\<close>

type_synonym peer_id = bytes
type_synonym message_id = string
type_synonym topic = string
type_synonym request_id = u64

section \<open>Channels\<close>

record 'a channel =
  receiver_alive :: bool
  sent :: "'a list"

definition try_send :: "'a channel \<Rightarrow> 'a \<Rightarrow> bool \<times> 'a channel" where
  "try_send c m = (if receiver_alive c then (True, c\<lparr>sent := sent c @ [m]\<rparr>) else (False, c))"

text \<open>A send whose failure is only logged.\<close>

definition send_or_log :: "'a channel \<Rightarrow> 'a \<Rightarrow> 'a channel" where
  "send_or_log c m = snd (try_send c m)"

lemma send_or_log_sel [simp]:
  "receiver_alive (send_or_log c m) = receiver_alive c"
  "receiver_alive c \<Longrightarrow> sent (send_or_log c m) = sent c @ [m]"
  by (simp_all add: send_or_log_def try_send_def)

section \<open>Topics\<close>

definition TOPIC_PREFIX :: string where "TOPIC_PREFIX = ''map''"
definition TOPIC_ENCODING_POSTFIX :: string where "TOPIC_ENCODING_POSTFIX = ''bin''"
definition MAP_BLOCK_TOPIC :: string where "MAP_BLOCK_TOPIC = ''block''"
definition MAP_TRANSACTION_TOPIC :: string where "MAP_TRANSACTION_TOPIC = ''transaction''"
definition SHARD_TOPIC_PREFIX :: string where "SHARD_TOPIC_PREFIX = ''shard''"

lemmas topic_names = TOPIC_PREFIX_def TOPIC_ENCODING_POSTFIX_def MAP_BLOCK_TOPIC_def MAP_TRANSACTION_TOPIC_def
  SHARD_TOPIC_PREFIX_def

datatype gossip_topic = MapBlock | TransactionTopic | Shard | UnknownTopic string

text \<open>\<^verbatim>\<open>str::split\<close> with a character.\<close>

fun split_char :: "char \<Rightarrow> string \<Rightarrow> string list" where
  "split_char c [] = [[]]"
| "split_char c (x # xs) =
    (if x = c then [] # split_char c xs
     else (case split_char c xs of [] \<Rightarrow> [[x]] | p # ps \<Rightarrow> (x # p) # ps))"

definition gossip_topic_from :: "string \<Rightarrow> gossip_topic" where
  "gossip_topic_from t =
    (let topic_parts = split_char (CHR ''/'') t
     in if length topic_parts = 4 \<and> topic_parts ! 1 = TOPIC_PREFIX \<and> topic_parts ! 3 = TOPIC_ENCODING_POSTFIX
        then (if topic_parts ! 2 = MAP_BLOCK_TOPIC then MapBlock
              else if topic_parts ! 2 = MAP_TRANSACTION_TOPIC then TransactionTopic
              else UnknownTopic (topic_parts ! 2))
        else UnknownTopic t)"

definition topic_builder :: "string \<Rightarrow> string" where
  "topic_builder t = ''/'' @ TOPIC_PREFIX @ ''/'' @ t @ ''/'' @ TOPIC_ENCODING_POSTFIX"

fun topic_into_string :: "gossip_topic \<Rightarrow> string" where
  "topic_into_string MapBlock = topic_builder MAP_BLOCK_TOPIC"
| "topic_into_string TransactionTopic = topic_builder MAP_TRANSACTION_TOPIC"
| "topic_into_string Shard = topic_builder SHARD_TOPIC_PREFIX"
| "topic_into_string (UnknownTopic t) = t"

definition topic_into :: "gossip_topic \<Rightarrow> topic" where
  "topic_into t = topic_into_string t"

section \<open>Gossip messages\<close>

datatype pubsub_message = PBlock bytes | PTransaction bytes | PUnknown bytes

fun from_topics :: "string list \<Rightarrow> bytes \<Rightarrow> pubsub_message" where
  "from_topics [] data = PUnknown data"
| "from_topics (t # ts) data =
    (case gossip_topic_from t of
       MapBlock \<Rightarrow> PBlock data
     | TransactionTopic \<Rightarrow> PTransaction data
     | Shard \<Rightarrow> PUnknown data
     | UnknownTopic _ \<Rightarrow> from_topics ts data)"

fun into_data :: "pubsub_message \<Rightarrow> bytes" where
  "into_data (PBlock data) = data"
| "into_data (PTransaction data) = data"
| "into_data (PUnknown data) = data"

section \<open>Requests and responses\<close>

record status_message =
  sm_genesis_hash :: hash
  sm_finalized_root :: hash
  sm_finalized_number :: u64
  sm_head_root :: hash
  sm_network_id :: u16

datatype goodbye_reason = ClientShutdown | IrrelevantNetwork | Fault | UnknownReason

definition goodbye_from :: "u64 \<Rightarrow> goodbye_reason" where
  "goodbye_from n = (if n = 1 then ClientShutdown else if n = 2 then IrrelevantNetwork else if n = 3 then Fault else UnknownReason)"

fun goodbye_into :: "goodbye_reason \<Rightarrow> u64" where
  "goodbye_into ClientShutdown = 1"
| "goodbye_into IrrelevantNetwork = 2"
| "goodbye_into Fault = 3"
| "goodbye_into UnknownReason = 0"

lemma goodbye_roundtrip: "goodbye_from (goodbye_into r) = r"
  by (cases r) (simp_all add: goodbye_from_def)

record blocks_by_range_request =
  br_head_block_root :: hash
  br_start_slot :: u64
  br_count :: u64
  br_step :: u64

record blocks_by_root_request =
  br_block_roots :: "hash list"

datatype p2p_response = RStatus status_message | RBlocksByRange bytes | RBlocksByRoot bytes

datatype response_termination = TBlocksByRange | TBlocksByRoot

record error_message = error_message_bytes :: bytes

datatype p2p_error_response =
    Success p2p_response
  | InvalidRequest error_message
  | ServerError error_message
  | UnknownResponse error_message
  | StreamTermination response_termination

fun response_as_u8 :: "p2p_error_response \<Rightarrow> u8 option" where
  "response_as_u8 (Success _) = Some 0"
| "response_as_u8 (InvalidRequest _) = Some 1"
| "response_as_u8 (ServerError _) = Some 2"
| "response_as_u8 (UnknownResponse _) = Some 255"
| "response_as_u8 (StreamTermination _) = None"

definition is_response :: "u8 \<Rightarrow> bool" where
  "is_response code \<longleftrightarrow> code = 0"

definition response_from_error :: "u8 \<Rightarrow> error_message \<Rightarrow> p2p_error_response" where
  "response_from_error code err =
    (if code = 1 then InvalidRequest err else if code = 2 then ServerError err else UnknownResponse err)"

fun response_multiple :: "p2p_error_response \<Rightarrow> bool" where
  "response_multiple (Success (RStatus _)) = False"
| "response_multiple (Success (RBlocksByRange _)) = True"
| "response_multiple (Success (RBlocksByRoot _)) = True"
| "response_multiple (InvalidRequest _) = True"
| "response_multiple (ServerError _) = True"
| "response_multiple (UnknownResponse _) = True"
| "response_multiple (StreamTermination _) = True"

fun response_is_error :: "p2p_error_response \<Rightarrow> bool" where
  "response_is_error (Success _) = False"
| "response_is_error _ = True"

datatype p2p_request =
    QStatus status_message
  | QGoodbye goodbye_reason
  | QBlocksByRange blocks_by_range_request
  | QBlocksByRoot blocks_by_root_request

definition PROTOCOL_PREFIX :: string where "PROTOCOL_PREFIX = ''/map/req''"
definition RPC_STATUS :: string where "RPC_STATUS = ''status''"
definition RPC_GOODBYE :: string where "RPC_GOODBYE = ''goodbye''"
definition RPC_BLOCKS_BY_RANGE :: string where "RPC_BLOCKS_BY_RANGE = ''map_blocks_by_range''"
definition RPC_BLOCKS_BY_ROOT :: string where "RPC_BLOCKS_BY_ROOT = ''map_blocks_by_root''"

record protocol_id =
  message_name :: string
  version :: string
  encoding :: string
  protocol_id_string :: string

definition protocol_id_new :: "string \<Rightarrow> string \<Rightarrow> string \<Rightarrow> protocol_id" where
  "protocol_id_new name v enc =
    \<lparr>message_name = name, version = v, encoding = enc,
     protocol_id_string = PROTOCOL_PREFIX @ ''/'' @ name @ ''/'' @ v @ ''/'' @ enc\<rparr>"

definition protocol_info :: "protocol_id list" where
  "protocol_info =
    [protocol_id_new RPC_STATUS ''1'' ''bin'', protocol_id_new RPC_GOODBYE ''1'' ''bin'',
     protocol_id_new RPC_BLOCKS_BY_RANGE ''1'' ''bin'', protocol_id_new RPC_BLOCKS_BY_ROOT ''1'' ''bin'']"

fun supported_protocols :: "p2p_request \<Rightarrow> protocol_id list" where
  "supported_protocols (QStatus _) = [protocol_id_new RPC_STATUS ''1'' ''bin'']"
| "supported_protocols (QGoodbye _) = [protocol_id_new RPC_GOODBYE ''1'' ''bin'']"
| "supported_protocols (QBlocksByRange _) = [protocol_id_new RPC_BLOCKS_BY_RANGE ''1'' ''bin'']"
| "supported_protocols (QBlocksByRoot _) = [protocol_id_new RPC_BLOCKS_BY_ROOT ''1'' ''bin'']"

fun expect_response :: "p2p_request \<Rightarrow> bool" where
  "expect_response (QStatus _) = True"
| "expect_response (QGoodbye _) = False"
| "expect_response (QBlocksByRange _) = True"
| "expect_response (QBlocksByRoot _) = True"

fun request_multiple :: "p2p_request \<Rightarrow> bool" where
  "request_multiple (QStatus _) = False"
| "request_multiple (QGoodbye _) = False"
| "request_multiple (QBlocksByRange _) = True"
| "request_multiple (QBlocksByRoot _) = True"

text \<open>The two unreachable branches panic.\<close>

fun stream_termination :: "p2p_request \<Rightarrow> response_termination option" where
  "stream_termination (QBlocksByRange _) = Some TBlocksByRange"
| "stream_termination (QBlocksByRoot _) = Some TBlocksByRoot"
| "stream_termination (QStatus _) = None"
| "stream_termination (QGoodbye _) = None"

lemma request_protocol_offered: "set (supported_protocols q) \<subseteq> set protocol_info"
  by (cases q) (simp_all add: protocol_info_def)

lemma stream_termination_reached: "stream_termination q \<noteq> None \<longleftrightarrow> request_multiple q"
  by (cases q) simp_all

datatype p2p_error =
    ReadError string
  | InvalidProtocol string
  | IoError string
  | StreamTimeout
  | ErrorResponse
  | Custom string

definition p2p_error_from_timeout :: "bool \<Rightarrow> p2p_error" where
  "p2p_error_from_timeout is_elapsed = (if is_elapsed then StreamTimeout else Custom ''Stream timer failed'')"

datatype p2p_event =
    Request request_id p2p_request
  | Response request_id p2p_error_response
  | EventError request_id p2p_error

fun event_id :: "p2p_event \<Rightarrow> request_id" where
  "event_id (Request i _) = i"
| "event_id (Response i _) = i"
| "event_id (EventError i _) = i"

section \<open>Messages within a node\<close>

datatype network_message =
    P2P peer_id p2p_event
  | Publish "topic list" pubsub_message
  | Propagate peer_id message_id
  | Disconnect peer_id

datatype handler_message =
    PeerDialed peer_id
  | PeerDisconnected peer_id
  | RPC peer_id p2p_event
  | Gossip message_id peer_id pubsub_message

definition publish_block ::
  "('kv, 'm, 't, 'r, 'z) chain_env_scheme \<Rightarrow> network_message channel \<Rightarrow> block \<Rightarrow> network_message channel" where
  "publish_block E c b = send_or_log c (Publish [topic_into MapBlock] (PBlock (ser (block_codec E) b)))"

section \<open>A published message arrives as it was sent\<close>

lemma split_char_no: "c \<notin> set xs \<Longrightarrow> split_char c xs = [xs]"
  by (induction xs) auto

lemma split_char_append: "c \<notin> set xs \<Longrightarrow> split_char c (xs @ c # ys) = xs # split_char c ys"
  by (induction xs) auto

lemma topic_builder_parts:
  "CHR ''/'' \<notin> set t \<Longrightarrow> split_char (CHR ''/'') (topic_builder t) = [[], TOPIC_PREFIX, t, TOPIC_ENCODING_POSTFIX]"
  by (simp add: topic_builder_def TOPIC_PREFIX_def TOPIC_ENCODING_POSTFIX_def split_char_append [of _ t, simplified])

end
