(* ===== verification/Binary_Heap.thy ===== *)
theory Binary_Heap
  imports Collections "HOL-Library.Multiset"
begin

text \<open>
  The \<^verbatim>\<open>BinaryHeap\<close> of the standard library, a heap in a vector, as the transaction pool uses it: an interface
  with the laws of a priority queue, and the vector with its two sifts that satisfies them. The order
  is given by \<open>le\<close>, since the order of the pool's entries identifies different ones.
\<close>

section \<open>The interface\<close>

locale priority_queue =
  fixes le :: "'a \<Rightarrow> 'a \<Rightarrow> bool" and inv :: "'q \<Rightarrow> bool" and elems :: "'q \<Rightarrow> 'a multiset"
    and push :: "'a \<Rightarrow> 'q \<Rightarrow> 'q" and pop :: "'q \<Rightarrow> ('a \<times> 'q) option"
  assumes push_law: "inv q \<Longrightarrow> inv (push x q) \<and> elems (push x q) = add_mset x (elems q)"
    and pop_None: "inv q \<Longrightarrow> pop q = None \<longleftrightarrow> elems q = {#}"
    and pop_Some: "\<lbrakk>inv q; pop q = Some (x, q')\<rbrakk> \<Longrightarrow>
      inv q' \<and> elems q = add_mset x (elems q') \<and> (\<forall>y. y \<in># elems q' \<longrightarrow> le y x)"
begin

lemma pop_member: "\<lbrakk>inv q; pop q = Some (x, q')\<rbrakk> \<Longrightarrow> x \<in># elems q"
  using pop_Some by fastforce

lemma pop_size: "\<lbrakk>inv q; pop q = Some (x, q')\<rbrakk> \<Longrightarrow> size (elems q') < size (elems q)"
  using pop_Some by fastforce

lemma push_pop:
  assumes "inv q"
  obtains x q' where "pop (push y q) = Some (x, q')" "inv q'" "add_mset y (elems q) = add_mset x (elems q')"
proof (cases "pop (push y q)")
  case None
  with push_law [OF assms, of y] pop_None [of "push y q"] show thesis by simp
next
  case (Some r)
  then show thesis using pop_Some [of "push y q" "fst r" "snd r"] push_law [OF assms, of y] by (intro that [of "fst r" "snd r"]) auto
qed

end

section \<open>The heap in a vector\<close>

definition swap_at :: "'a list \<Rightarrow> nat \<Rightarrow> nat \<Rightarrow> 'a list" where
  "swap_at xs i j = xs[i := xs ! j, j := xs ! i]"

definition parent_of :: "nat \<Rightarrow> nat" where
  "parent_of i = (i - 1) div 2"

lemma parent_less: "0 < i \<Longrightarrow> parent_of i < i"
  by (simp add: parent_of_def)

function sift_up :: "('a \<Rightarrow> 'a \<Rightarrow> bool) \<Rightarrow> 'a list \<Rightarrow> nat \<Rightarrow> 'a list" where
  "sift_up le xs pos =
    (if pos = 0 then xs
     else let parent = parent_of pos
          in if le (xs ! pos) (xs ! parent) then xs else sift_up le (swap_at xs pos parent) parent)"
  by auto
termination by (relation "measure (\<lambda>(_, _, pos). pos)") (auto simp: parent_less)

function sift_down_to_bottom :: "('a \<Rightarrow> 'a \<Rightarrow> bool) \<Rightarrow> 'a list \<Rightarrow> nat \<Rightarrow> 'a list \<times> nat" where
  "sift_down_to_bottom le xs pos =
    (let child = 2 * pos + 1
     in if child + 1 < length xs
        then let c = (if le (xs ! child) (xs ! (child + 1)) then child + 1 else child)
             in sift_down_to_bottom le (swap_at xs pos c) c
        else if child + 1 = length xs then (swap_at xs pos child, child) else (xs, pos))"
  by auto
termination by (relation "measure (\<lambda>(_, xs, pos). length xs - pos)") (auto simp: swap_at_def)

declare sift_up.simps [simp del] sift_down_to_bottom.simps [simp del]

definition heap_push :: "('a \<Rightarrow> 'a \<Rightarrow> bool) \<Rightarrow> 'a \<Rightarrow> 'a list \<Rightarrow> 'a list" where
  "heap_push le x xs = sift_up le (xs @ [x]) (length xs)"

definition heap_pop :: "('a \<Rightarrow> 'a \<Rightarrow> bool) \<Rightarrow> 'a list \<Rightarrow> ('a \<times> 'a list) option" where
  "heap_pop le xs =
    (if xs = [] then None
     else let rest = butlast xs
          in if rest = [] then Some (last xs, [])
             else case sift_down_to_bottom le (rest[0 := last xs]) 0 of
                    (ys, pos) \<Rightarrow> Some (rest ! 0, sift_up le ys pos))"

definition is_heap :: "('a \<Rightarrow> 'a \<Rightarrow> bool) \<Rightarrow> 'a list \<Rightarrow> bool" where
  "is_heap le xs \<longleftrightarrow> (\<forall>i. 0 < i \<and> i < length xs \<longrightarrow> le (xs ! i) (xs ! (parent_of i)))"

section \<open>The sifts\<close>

lemma swap_at_simps [simp]: "length (swap_at xs i j) = length xs"
  by (simp add: swap_at_def)

lemma swap_at_nth:
  "\<lbrakk>i < length xs; j < length xs; k < length xs\<rbrakk> \<Longrightarrow> swap_at xs i j ! k = (if k = i then xs ! j else if k = j then xs ! i else xs ! k)"
  by (auto simp: swap_at_def nth_list_update)

lemma swap_at_mset: "i < length xs \<Longrightarrow> j < length xs \<Longrightarrow> mset (swap_at xs i j) = mset xs"
  unfolding swap_at_def by (metis mset_swap)

text \<open>A heap but for the entry at \<open>pos\<close>, which may be too large; the entries below it are not.\<close>

definition rising :: "('a \<Rightarrow> 'a \<Rightarrow> bool) \<Rightarrow> 'a list \<Rightarrow> nat \<Rightarrow> bool" where
  "rising le xs pos \<longleftrightarrow> pos < length xs \<and>
    (\<forall>i. 0 < i \<and> i < length xs \<and> i \<noteq> pos \<longrightarrow> le (xs ! i) (xs ! (parent_of i))) \<and>
    (\<forall>i. 0 < i \<and> i < length xs \<and> parent_of i = pos \<and> 0 < pos \<longrightarrow> le (xs ! i) (xs ! (parent_of pos)))"

text \<open>A heap but for the entry at \<open>pos\<close>, which is yet to find its place below.\<close>

definition sinking :: "('a \<Rightarrow> 'a \<Rightarrow> bool) \<Rightarrow> 'a list \<Rightarrow> nat \<Rightarrow> bool" where
  "sinking le xs pos \<longleftrightarrow> pos < length xs \<and>
    (\<forall>i. 0 < i \<and> i < length xs \<and> i \<noteq> pos \<and> parent_of i \<noteq> pos \<longrightarrow> le (xs ! i) (xs ! (parent_of i))) \<and>
    (\<forall>i. 0 < i \<and> i < length xs \<and> parent_of i = pos \<and> 0 < pos \<longrightarrow> le (xs ! i) (xs ! (parent_of pos)))"

definition total_preorder :: "('a \<Rightarrow> 'a \<Rightarrow> bool) \<Rightarrow> bool" where
  "total_preorder le \<longleftrightarrow> (\<forall>x y z. le x y \<longrightarrow> le y z \<longrightarrow> le x z) \<and> (\<forall>x y. le x y \<or> le y x)"

lemma total_preorderD:
  assumes "total_preorder le"
  shows "le x y \<Longrightarrow> le y z \<Longrightarrow> le x z" "\<not> le x y \<Longrightarrow> le y x" "le x x"
  using assms by (auto simp: total_preorder_def)

lemma rising_swap:
  assumes le: "total_preorder le" and r: "rising le xs pos" and pos: "0 < pos" and big: "\<not> le (xs ! pos) (xs ! (parent_of pos))"
  shows "rising le (swap_at xs pos (parent_of pos)) (parent_of pos)"
proof -
  let ?par = "parent_of pos" and ?ys = "swap_at xs pos (parent_of pos)"
  have len: "pos < length xs" "?par < pos" "?par < length xs" using r parent_less [OF pos] by (auto simp: rising_def)
  have nth: "k < length xs \<Longrightarrow> ?ys ! k = (if k = pos then xs ! ?par else if k = ?par then xs ! pos else xs ! k)" for k
    using swap_at_nth [OF len(1,3)] by simp
  have up: "le (xs ! ?par) (xs ! pos)" using total_preorderD(2) [OF le big] .
  have ok: "0 < i \<Longrightarrow> i < length xs \<Longrightarrow> i \<noteq> pos \<Longrightarrow> le (xs ! i) (xs ! (parent_of i))" for i
    using r by (simp add: rising_def)
  have "le (?ys ! i) (?ys ! (parent_of i))" if i: "0 < i" "i < length xs" "i \<noteq> ?par" for i
  proof -
    have p: "parent_of i < length xs" using i parent_less [of i] by linarith
    consider "i = pos" | "i \<noteq> pos" "parent_of i = pos" | "i \<noteq> pos" "parent_of i = ?par" | "i \<noteq> pos" "parent_of i \<noteq> pos" "parent_of i \<noteq> ?par"
      by blast
    then show ?thesis
    proof cases
      case 1
      then show ?thesis using up len by (simp add: nth)
    next
      case 2
      then have "le (xs ! i) (xs ! ?par)" using r i pos by (simp add: rising_def)
      with 2 i len show ?thesis by (simp add: nth)
    next
      case 3
      then have "le (xs ! i) (xs ! ?par)" using ok [of i] i by simp
      with up have "le (xs ! i) (xs ! pos)" using total_preorderD(1) [OF le] by blast
      with 3 i len show ?thesis by (simp add: nth)
    next
      case 4
      then show ?thesis using ok [of i] i p by (simp add: nth)
    qed
  qed
  moreover have "le (?ys ! i) (?ys ! (parent_of ?par))" if i: "0 < i" "i < length xs" "parent_of i = ?par" "0 < ?par" for i
  proof -
    have g: "parent_of ?par < ?par" "parent_of ?par < length xs" using parent_less [OF i(4)] len by auto
    have q: "le (xs ! ?par) (xs ! (parent_of ?par))" using ok [of ?par] i(4) len by simp
    have "i \<noteq> ?par" using i(3) parent_less [OF i(1)] by auto
    show ?thesis
    proof (cases "i = pos")
      case True
      with q g len show ?thesis by (simp add: nth)
    next
      case False
      with ok [of i] i q have "le (xs ! i) (xs ! (parent_of ?par))" using total_preorderD(1) [OF le, of "xs ! i" "xs ! ?par"] by simp
      with False \<open>i \<noteq> ?par\<close> g len i show ?thesis by (simp add: nth)
    qed
  qed
  ultimately show ?thesis using len by (auto simp: rising_def)
qed

lemma sift_up_mset: "pos < length xs \<Longrightarrow> mset (sift_up le xs pos) = mset xs"
proof (induction le xs pos rule: sift_up.induct)
  case (1 le xs pos)
  show ?case
  proof (cases "pos = 0 \<or> le (xs ! pos) (xs ! parent_of pos)")
    case True
    then show ?thesis by (subst sift_up.simps) auto
  next
    case False
    then have "parent_of pos < length xs" using 1(2) parent_less [of pos] by simp
    with False 1 show ?thesis by (subst sift_up.simps) (simp add: Let_def swap_at_mset)
  qed
qed

lemma sift_up_heap: "total_preorder le \<Longrightarrow> rising le xs pos \<Longrightarrow> is_heap le (sift_up le xs pos)"
proof (induction le xs pos rule: sift_up.induct)
  case (1 le xs pos)
  show ?case
  proof (cases "pos = 0 \<or> le (xs ! pos) (xs ! parent_of pos)")
    case True
    have "le (xs ! i) (xs ! parent_of i)" if "0 < i" "i < length xs" for i
      using 1(3) True that by (cases "i = pos") (auto simp: rising_def)
    then have "is_heap le xs" by (simp add: is_heap_def)
    with True show ?thesis by (subst sift_up.simps) auto
  next
    case False
    with 1 rising_swap [OF 1(2,3)] show ?thesis by (subst sift_up.simps) (simp add: Let_def)
  qed
qed

lemma child_cases: "parent_of i = pos \<longleftrightarrow> (i = 2 * pos + 1 \<or> i = 2 * pos + 2)" if "0 < i"
  using that by (auto simp: parent_of_def)

lemma sinking_swap:
  assumes le: "total_preorder le" and s: "sinking le xs pos" and c: "parent_of c = pos" "0 < c" "c < length xs"
    and max: "\<And>d. 0 < d \<Longrightarrow> d < length xs \<Longrightarrow> parent_of d = pos \<Longrightarrow> le (xs ! d) (xs ! c)"
  shows "sinking le (swap_at xs pos c) c"
proof -
  let ?ys = "swap_at xs pos c"
  have len: "pos < length xs" "pos < c" using s c parent_less [of c] by (auto simp: sinking_def)
  have nth: "k < length xs \<Longrightarrow> ?ys ! k = (if k = pos then xs ! c else if k = c then xs ! pos else xs ! k)" for k
    using swap_at_nth [OF len(1) c(3)] by simp
  have ok: "0 < i \<Longrightarrow> i < length xs \<Longrightarrow> i \<noteq> pos \<Longrightarrow> parent_of i \<noteq> pos \<Longrightarrow> le (xs ! i) (xs ! parent_of i)" for i
    using s by (simp add: sinking_def)
  have "le (?ys ! i) (?ys ! parent_of i)" if i: "0 < i" "i < length xs" "i \<noteq> c" "parent_of i \<noteq> c" for i
  proof -
    have p: "parent_of i < length xs" using parent_less [OF i(1)] i(2) by simp
    consider "i = pos" | "i \<noteq> pos" "parent_of i = pos" | "i \<noteq> pos" "parent_of i \<noteq> pos" by blast
    then show ?thesis
    proof cases
      case 1
      then have "le (xs ! c) (xs ! parent_of pos)" "parent_of pos \<noteq> pos" using s c i(1) parent_less [of pos] by (auto simp: sinking_def)
      with 1 i p len show ?thesis by (simp add: nth)
    next
      case 2
      with max [of i] i len show ?thesis by (simp add: nth)
    next
      case 3
      with ok [of i] i p show ?thesis by (simp add: nth)
    qed
  qed
  moreover have "le (?ys ! i) (?ys ! pos)" if i: "0 < i" "i < length xs" "parent_of i = c" for i
  proof -
    have "i \<noteq> c" "i \<noteq> pos" using parent_less [OF i(1)] i(3) len by auto
    with ok [of i] i c len show ?thesis by (simp add: nth)
  qed
  ultimately show ?thesis using c by (simp add: sinking_def)
qed

lemma sift_down_unfold:
  "2 * pos + 2 < length xs \<Longrightarrow> sift_down_to_bottom le xs pos =
    (let c = (if le (xs ! (2 * pos + 1)) (xs ! (2 * pos + 2)) then 2 * pos + 2 else 2 * pos + 1) in sift_down_to_bottom le (swap_at xs pos c) c)"
  "2 * pos + 2 = length xs \<Longrightarrow> sift_down_to_bottom le xs pos = (swap_at xs pos (2 * pos + 1), 2 * pos + 1)"
  "2 * pos + 2 > length xs \<Longrightarrow> sift_down_to_bottom le xs pos = (xs, pos)"
  by (subst sift_down_to_bottom.simps, simp add: Let_def)+

lemma sift_down_ok:
  assumes "total_preorder le" "sinking le xs pos" "sift_down_to_bottom le xs pos = (ys, p)"
  shows "rising le ys p \<and> mset ys = mset xs"
  using assms
proof (induction le xs pos rule: sift_down_to_bottom.induct)
  case (1 le xs pos)
  have pos: "pos < length xs" using 1(3) by (simp add: sinking_def)
  consider "2 * pos + 2 < length xs" | "2 * pos + 2 = length xs" | "2 * pos + 2 > length xs" by linarith
  then show ?case
  proof cases
    case a: 1
    define d where "d = (if le (xs ! (2 * pos + 1)) (xs ! (2 * pos + 2)) then 2 * pos + 2 else 2 * pos + 1)"
    have run: "sift_down_to_bottom le (swap_at xs pos d) d = (ys, p)" using 1(4) sift_down_unfold(1) [OF a, of le] by (simp add: d_def Let_def)
    have d: "parent_of d = pos" "0 < d" "d < length xs" using a by (auto simp: parent_of_def d_def)
    have max: "le (xs ! e) (xs ! d)" if e: "0 < e" "e < length xs" "parent_of e = pos" for e
    proof -
      have "e = 2 * pos + 1 \<or> e = 2 * pos + 2" using child_cases [OF e(1), of pos] e(3) by blast
      then show ?thesis using total_preorderD(3) [OF 1(2), of "xs ! e"] total_preorderD(2) [OF 1(2), of "xs ! (2 * pos + 1)" "xs ! (2 * pos + 2)"]
        unfolding d_def by (elim disjE) (simp_all split: if_splits)
    qed
    have c: "d = (if le (xs ! (2 * pos + 1)) (xs ! (2 * pos + 1 + 1)) then 2 * pos + 1 + 1 else 2 * pos + 1)" "2 * pos + 1 + 1 < length xs"
      using a by (simp_all add: d_def)
    have "rising le ys p \<and> mset ys = mset (swap_at xs pos d)"
      using 1(1) [OF refl c(2,1) 1(2) sinking_swap [OF 1(2,3) d max] run] .
    then show ?thesis using swap_at_mset [OF pos d(3)] by simp
  next
    case 2
    let ?c = "2 * pos + 1"
    have ys: "ys = swap_at xs pos ?c" "p = ?c" using 1(4) [unfolded sift_down_unfold(2) [OF 2]] by auto
    have c: "parent_of ?c = pos" "0 < ?c" "?c < length xs" using 2 by (auto simp: parent_of_def)
    have "le (xs ! e) (xs ! ?c)" if "0 < e" "e < length xs" "parent_of e = pos" for e
      using that child_cases [OF that(1), of pos] total_preorderD(3) [OF 1(2)] 2 by auto
    from sinking_swap [OF 1(2,3) c this] have s: "sinking le ys p" unfolding ys .
    moreover have "parent_of i \<noteq> p" if "0 < i" "i < length ys" for i
      using that child_cases [OF that(1)] 2 ys by auto
    ultimately show ?thesis using swap_at_mset [OF pos c(3)] ys by (auto simp: sinking_def rising_def)
  next
    case 3
    have ys: "ys = xs" "p = pos" using 1(4) sift_down_unfold(3) [OF 3, of le] by simp_all
    have "parent_of i \<noteq> pos" if "0 < i" "i < length xs" for i
      using that child_cases [OF that(1)] 3 by auto
    with 1(3) show ?thesis by (simp add: ys sinking_def rising_def)
  qed
qed

section \<open>The vector is a priority queue\<close>

lemma heap_root:
  assumes le: "total_preorder le" and h: "is_heap le xs"
  shows "i < length xs \<Longrightarrow> le (xs ! i) (xs ! 0)"
proof (induction i rule: less_induct)
  case (less i)
  show ?case
  proof (cases "i = 0")
    case True
    then show ?thesis using total_preorderD(3) [OF le] by simp
  next
    case False
    then have p: "parent_of i < i" "le (xs ! i) (xs ! parent_of i)" using less.prems h parent_less by (auto simp: is_heap_def)
    with less.IH [OF p(1)] less.prems show ?thesis using total_preorderD(1) [OF le] by (meson less_trans)
  qed
qed

lemma heap_push_ok:
  assumes "total_preorder le" "is_heap le xs"
  shows "is_heap le (heap_push le x xs)" "mset (heap_push le x xs) = add_mset x (mset xs)"
proof -
  have p: "parent_of i < length xs" if "0 < i" "i < Suc (length xs)" for i using parent_less [OF that(1)] that(2) by linarith
  have "le ((xs @ [x]) ! i) ((xs @ [x]) ! parent_of i)" if "0 < i" "i < Suc (length xs)" "i \<noteq> length xs" for i
    using that p [OF that(1,2)] assms(2) by (simp add: is_heap_def nth_append)
  moreover have "parent_of i \<noteq> length xs" if "0 < i" "i < Suc (length xs)" for i using p [OF that] by simp
  ultimately have "rising le (xs @ [x]) (length xs)" unfolding rising_def by fastforce
  then show "is_heap le (heap_push le x xs)" unfolding heap_push_def by (rule sift_up_heap [OF assms(1)])
  show "mset (heap_push le x xs) = add_mset x (mset xs)" by (simp add: heap_push_def sift_up_mset)
qed

lemma heap_pop_ok:
  assumes le: "total_preorder le" and h: "is_heap le xs" and pop: "heap_pop le xs = Some (x, ys)"
  shows "is_heap le ys \<and> mset xs = add_mset x (mset ys) \<and> (\<forall>y. y \<in># mset ys \<longrightarrow> le y x)"
proof -
  have ne: "xs \<noteq> []" using pop by (auto simp: heap_pop_def)
  then have split: "xs = butlast xs @ [last xs]" by simp
  have "butlast xs \<noteq> [] \<Longrightarrow> butlast xs ! 0 = xs ! 0" using nth_butlast [of 0 xs] by (simp del: length_butlast)
  moreover have "butlast xs = [] \<Longrightarrow> last xs = xs ! 0" using ne by (cases xs) auto
  ultimately have top: "x = xs ! 0"
    using pop ne by (auto simp: heap_pop_def Let_def split: if_splits prod.splits)
  have res: "is_heap le ys \<and> mset xs = add_mset x (mset ys)"
  proof (cases "butlast xs = []")
    case True
    then obtain z where "xs = [z]" using ne by (cases xs) (auto split: if_splits)
    with pop show ?thesis by (simp add: heap_pop_def is_heap_def)
  next
    case False
    let ?zs = "(butlast xs)[0 := last xs]"
    obtain us p where d: "sift_down_to_bottom le ?zs 0 = (us, p)" by fastforce
    have ys: "ys = sift_up le us p" using pop ne False d by (simp add: heap_pop_def Let_def)
    have long: "length xs > Suc 0" using False by (cases xs) auto
    then have "sinking le ?zs 0"
      using h by (auto simp: sinking_def is_heap_def nth_butlast nth_list_update parent_of_def)
    from sift_down_ok [OF le this d] have r: "rising le us p" "mset us = mset ?zs" by simp_all
    have "mset ?zs = add_mset (last xs) (mset (butlast xs) - {#xs ! 0#})"
      using False nth_butlast [of 0 xs] by (simp add: mset_update del: length_butlast)
    moreover have "butlast xs ! 0 \<in> set (butlast xs)" using long by (intro nth_mem) simp
    then have "add_mset (xs ! 0) (mset (butlast xs) - {#xs ! 0#}) = mset (butlast xs)" using False nth_butlast [of 0 xs] by (simp del: length_butlast)
    moreover have "mset xs = add_mset (last xs) (mset (butlast xs))" by (subst split) simp
    ultimately have "mset xs = add_mset (xs ! 0) (mset us)" using r(2) by (simp add: add_mset_commute)
    with sift_up_heap [OF le r(1)] sift_up_mset [of p us le] r(1) top show ?thesis by (simp add: ys rising_def)
  qed
  moreover have "le y x" if "y \<in># mset ys" for y
  proof -
    have "set_mset (mset xs) = insert x (set_mset (mset ys))" using res by simp
    with that have "y \<in> set xs" by simp
    then obtain i where "i < length xs" "y = xs ! i" by (metis in_set_conv_nth)
    with heap_root [OF le h] top show ?thesis by simp
  qed
  ultimately show ?thesis by blast
qed

lemma heap_is_queue: "total_preorder le \<Longrightarrow> priority_queue le (is_heap le) mset (heap_push le) (heap_pop le)"
proof (unfold_locales, goal_cases)
  case (1 q x)
  then show ?case by (simp add: heap_push_ok)
next
  case (2 q)
  then show ?case by (auto simp: heap_pop_def Let_def split: prod.splits)
next
  case (3 q x q')
  then show ?case by (rule heap_pop_ok)
qed

end
