(* ===== verification/Tx_Pool.thy ===== *)
theory Tx_Pool
  imports Blockchain Binary_Heap
begin

text \<open>
  The pool of pending transactions of a node (src/pool/src/tx_pool.rs): transactions by hash, those
  that may go into the next block and those that wait, and a heap of their prices from which the
  cheapest is dropped. The chain behind the lock is an argument of the operations that read it.
\<close>

section \<open>Data\<close>

definition MAX_BLOCK_TX :: u64 where
  "MAX_BLOCK_TX = 500"

definition MAX_QUEUE_TX :: u64 where
  "MAX_QUEUE_TX = 2048"

record priority_ref =
  pr_tx_hash :: hash
  pr_price :: u64

definition priority_cmp :: "priority_ref \<Rightarrow> priority_ref \<Rightarrow> ordering" where
  "priority_cmp a b = ordering_reverse (ord_cmp (pr_price a) (pr_price b))"

definition priority_eq :: "priority_ref \<Rightarrow> priority_ref \<Rightarrow> bool" where
  "priority_eq a b \<longleftrightarrow> pr_price a = pr_price b"

definition priority_le :: "priority_ref \<Rightarrow> priority_ref \<Rightarrow> bool" where
  "priority_le a b \<longleftrightarrow> priority_cmp a b \<noteq> Greater"

record tx_pool =
  tp_pending :: "(hash \<times> transaction) list"
  tp_pool :: "(hash \<times> transaction) list"
  tp_ordered_queue :: "priority_ref list"
  tp_block_limit :: u64
  tp_queue_limit :: u64

definition tx_pool_new :: tx_pool where
  "tx_pool_new = \<lparr>tp_pending = [], tp_pool = [], tp_ordered_queue = [],
    tp_block_limit = MAX_BLOCK_TX, tp_queue_limit = MAX_QUEUE_TX\<rparr>"

text \<open>The two messages of \<^verbatim>\<open>validate_tx\<close> with the numbers they report.\<close>

datatype tx_pool_error =
    NotSufficientFunds u128 u128
  | InvalidNonce u64 u64

section \<open>Operations\<close>

definition pool_account ::
  "('kv, 'm, 't, 'r, 'z) chain_env_scheme \<Rightarrow> ('kv, 'm, 'r) block_chain \<Rightarrow> address \<Rightarrow> account option" where
  "pool_account E bc addr =
    do { b \<leftarrow> current_block E bc;
         get_account E (state_at bc (block_state_root b)) addr }"

definition validate_tx ::
  "('kv, 'm, 't, 'r, 'z) chain_env_scheme \<Rightarrow> ('kv, 'm, 'r) block_chain \<Rightarrow> transaction \<Rightarrow> (tx_pool_error + unit) option" where
  "validate_tx E bc tx =
    do { acc \<leftarrow> pool_account E bc (tx_sender tx);
         v \<leftarrow> get_value E tx;
         (if a_balance acc < v then Some (Inl (NotSufficientFunds (a_balance acc) v))
          else do {
            n \<leftarrow> uadd (overflow_checks E) (a_nonce acc) 1;
            Some (if n \<noteq> get_nonce tx then Inl (InvalidNonce (a_nonce acc) (get_nonce tx)) else Inr ()) }) }"

definition pool_get_nonce ::
  "('kv, 'm, 't, 'r, 'z) chain_env_scheme \<Rightarrow> ('kv, 'm, 'r) block_chain \<Rightarrow> address \<Rightarrow> u64 option" where
  "pool_get_nonce E bc addr = do { acc \<leftarrow> pool_account E bc addr; Some (a_nonce acc) }"

definition add_tx ::
  "('kv, 'm, 't, 'r, 'z) chain_env_scheme \<Rightarrow> ('kv, 'm, 'r) block_chain \<Rightarrow> tx_pool \<Rightarrow> transaction \<Rightarrow> (bool \<times> tx_pool) option" where
  "add_tx E bc p tx =
    do { r \<leftarrow> validate_tx E bc tx;
         Some (case r of
                 Inr _ \<Rightarrow> (True, p\<lparr>tp_pending := AList.update (tx_hash E tx) tx (tp_pending p)\<rparr>)
               | Inl _ \<Rightarrow> (False, p)) }"

definition pop_back :: "tx_pool \<Rightarrow> (hash option \<times> tx_pool) option" where
  "pop_back p =
    (case heap_pop priority_le (tp_ordered_queue p) of
       None \<Rightarrow> Some (None, p)
     | Some (l, q) \<Rightarrow>
        (let h = pr_tx_hash l; p1 = p\<lparr>tp_ordered_queue := q\<rparr>
         in if map_of (tp_pool p1) h \<noteq> None then Some (Some h, p1\<lparr>tp_pool := AList.delete h (tp_pool p1)\<rparr>)
            else if map_of (tp_pending p1) h \<noteq> None then Some (Some h, p1\<lparr>tp_pending := AList.delete h (tp_pending p1)\<rparr>)
            else None))"

definition remove_tx :: "tx_pool \<Rightarrow> hash \<Rightarrow> tx_pool" where
  "remove_tx p h =
    (if map_of (tp_pending p) h \<noteq> None then p\<lparr>tp_pending := AList.delete h (tp_pending p)\<rparr>
     else p\<lparr>tp_pool := AList.delete h (tp_pool p)\<rparr>)"

definition get_pending :: "tx_pool \<Rightarrow> transaction list" where
  "get_pending p = map snd (tp_pending p)"

definition all_transactions :: "tx_pool \<Rightarrow> transaction list" where
  "all_transactions p = map snd (tp_pending p) @ map snd (tp_pool p)"

text \<open>The end of \<^verbatim>\<open>insert_tx\<close>, once there is room.\<close>

definition enqueue_tx :: "('kv, 'm, 't, 'z) tx_env_scheme \<Rightarrow> tx_pool \<Rightarrow> transaction \<Rightarrow> tx_pool" where
  "enqueue_tx E p tx =
    (let h = tx_hash E tx;
         p1 = (if length (tp_pending p) > unat (tp_block_limit p)
               then p\<lparr>tp_pool := AList.update h tx (tp_pool p)\<rparr>
               else p\<lparr>tp_pending := AList.update h tx (tp_pending p)\<rparr>)
     in p1\<lparr>tp_ordered_queue :=
          heap_push priority_le \<lparr>pr_tx_hash = h, pr_price = get_gas_price tx\<rparr> (tp_ordered_queue p1)\<rparr>)"

definition insert_tx ::
  "('kv, 'm, 't, 'r, 'z) chain_env_scheme \<Rightarrow> ('kv, 'm, 'r) block_chain \<Rightarrow> tx_pool \<Rightarrow> transaction \<Rightarrow> tx_pool option" where
  "insert_tx E bc p tx =
    do { r \<leftarrow> validate_tx E bc tx;
         (case r of
            Inl _ \<Rightarrow> Some p
          | Inr _ \<Rightarrow> do {
              limit \<leftarrow> uadd (overflow_checks E) (tp_block_limit p) (tp_queue_limit p);
              p1 \<leftarrow> (if length (all_transactions p) > unat limit
                    then do { (removed, p1) \<leftarrow> pop_back p;
                              Some (case removed of None \<Rightarrow> p1 | Some h \<Rightarrow> remove_tx p1 h) }
                    else Some p);
              Some (enqueue_tx E p1 tx) }) }"

text \<open>The closure of \<^verbatim>\<open>retain\<close> over the entries, each of which reads the account of its sender.\<close>

fun retain_live ::
  "('kv, 'm, 't, 'z) balance_env_scheme \<Rightarrow> ('kv, 'm) state_db \<Rightarrow> (hash \<times> transaction) list \<Rightarrow> (hash \<times> transaction) list option" where
  "retain_live E s [] = Some []"
| "retain_live E s ((h, tx) # rest) =
    do { acc \<leftarrow> get_account E s (tx_sender tx);
         kept \<leftarrow> retain_live E s rest;
         Some (if get_nonce tx > a_nonce acc then (h, tx) # kept else kept) }"

definition reset_pool ::
  "('kv, 'm, 't, 'r, 'z) chain_env_scheme \<Rightarrow> ('kv, 'm, 'r) block_chain \<Rightarrow> tx_pool \<Rightarrow> block \<Rightarrow> tx_pool option" where
  "reset_pool E bc p b =
    do { kept \<leftarrow> retain_live E (state_at bc (block_state_root b)) (tp_pending p);
         Some (p\<lparr>tp_pending := kept\<rparr>) }"

section \<open>The queue and the transactions\<close>

lemma priority_le_iff: "priority_le a b \<longleftrightarrow> pr_price b \<le> pr_price a"
  by (auto simp: priority_le_def priority_cmp_def ord_cmp_def)

lemma priority_preorder: "total_preorder priority_le"
  by (auto simp: total_preorder_def priority_le_iff)

interpretation hq: priority_queue priority_le "is_heap priority_le" mset "heap_push priority_le" "heap_pop priority_le"
  by (rule heap_is_queue [OF priority_preorder])

abbreviation entries :: "tx_pool \<Rightarrow> (hash \<times> transaction) list" where
  "entries p \<equiv> tp_pending p @ tp_pool p"

definition price_ref :: "hash \<times> transaction \<Rightarrow> priority_ref" where
  "price_ref e = \<lparr>pr_tx_hash = fst e, pr_price = get_gas_price (snd e)\<rparr>"

text \<open>The heap holds one reference for every transaction and no other.\<close>

definition synced :: "tx_pool \<Rightarrow> bool" where
  "synced p \<longleftrightarrow> keys_distinct (entries p) \<and> is_heap priority_le (tp_ordered_queue p) \<and>
    mset (tp_ordered_queue p) = image_mset price_ref (mset (entries p))"

lemma delete_absent: "k \<notin> fst ` set m \<Longrightarrow> AList.delete k m = m"
  by (induction m) auto

lemma delete_mset:
  "keys_distinct m \<Longrightarrow> map_of m k = Some v \<Longrightarrow> mset m = add_mset (k, v) (mset (AList.delete k m))"
proof (induction m)
  case (Cons e m)
  show ?case
  proof (cases "fst e = k")
    case True
    with Cons.prems have "k \<notin> fst ` set m" "e = (k, v)" by (cases e, auto)+
    then show ?thesis using delete_absent [of k m] by simp
  next
    case False
    with Cons show ?thesis by (cases e) (auto simp: AList.delete_eq)
  qed
qed simp

lemma update_new: "k \<notin> fst ` set m \<Longrightarrow> AList.update k v m = m @ [(k, v)]"
  by (induction m) auto

lemma pop_back_ok:
  assumes p: "synced p" and ne: "entries p \<noteq> []"
  obtains h t p1 where "pop_back p = Some (Some h, p1)" "synced p1" "mset (entries p) = add_mset (h, t) (mset (entries p1))"
    "\<forall>e \<in> set (entries p). get_gas_price t \<le> get_gas_price (snd e)" "remove_tx p1 h = p1"
    "tp_block_limit p1 = tp_block_limit p" "tp_queue_limit p1 = tp_queue_limit p"
proof -
  have heap: "is_heap priority_le (tp_ordered_queue p)" and keys: "keys_distinct (entries p)"
    and refs: "mset (tp_ordered_queue p) = image_mset price_ref (mset (entries p))" using p by (simp_all add: synced_def)
  obtain l q where pop: "heap_pop priority_le (tp_ordered_queue p) = Some (l, q)"
    using hq.pop_None [OF heap] refs ne by (cases "heap_pop priority_le (tp_ordered_queue p)") auto
  have q: "is_heap priority_le q" "mset (tp_ordered_queue p) = add_mset l (mset q)" "\<forall>y \<in> set q. pr_price l \<le> pr_price y"
    using hq.pop_Some [OF heap pop] by (auto simp: priority_le_iff)
  have "l \<in># image_mset price_ref (mset (entries p))" using q(2) refs by simp
  then obtain h t where e: "(h, t) \<in> set (entries p)" "l = price_ref (h, t)" by auto
  have all: "set_mset (image_mset price_ref (mset (entries p))) = insert l (set q)" using q(2) refs by (metis set_mset_add_mset_insert set_mset_mset)
  have cheap: "\<forall>e \<in> set (entries p). get_gas_price t \<le> get_gas_price (snd e)"
  proof
    fix x assume "x \<in> set (entries p)"
    then have "price_ref x \<in> insert l (set q)" using all by auto
    with q(3) have "pr_price l \<le> pr_price (price_ref x)" by auto
    then show "get_gas_price t \<le> get_gas_price (snd x)" by (simp add: e(2) price_ref_def)
  qed
  have hl: "pr_tx_hash l = h" by (simp add: e(2) price_ref_def)
  note finish = that
  have done1: thesis if p1: "p1 = p\<lparr>tp_ordered_queue := q, tp_pending := a, tp_pool := b\<rparr>" "pop_back p = Some (Some h, p1)"
    and m: "mset (entries p) = add_mset (h, t) (mset (a @ b))" for p1 a b
  proof -
    have "mset (map fst (entries p)) = add_mset h (mset (map fst (a @ b)))"
      using arg_cong [OF m, of "image_mset fst"] by simp
    moreover have "distinct (map fst (entries p))" using keys .
    ultimately have d: "distinct (map fst (a @ b))" "h \<notin> fst ` set (a @ b)"
      using mset_eq_imp_distinct_iff [of "map fst (entries p)" "h # map fst (a @ b)"] by auto
    have "image_mset price_ref (mset (entries p)) = add_mset l (image_mset price_ref (mset (a @ b)))"
      using arg_cong [OF m, of "image_mset price_ref"] e(2) by simp
    then have "image_mset price_ref (mset (a @ b)) = mset q" using q(2) refs by simp
    with d(1) q(1) have "synced p1" by (simp add: synced_def p1(1))
    moreover have "map_of a h = None" "AList.delete h b = b" using d(2) delete_absent [of h b] by (simp_all add: map_of_eq_None_iff image_Un)
    then have "remove_tx p1 h = p1" by (simp add: remove_tx_def p1(1))
    ultimately show thesis using finish [OF p1(2) _ _ cheap] m p1(1) by simp
  qed
  show thesis
  proof (cases "map_of (tp_pool p) h")
    case (Some t')
    then have "(h, t') \<in> set (entries p)" by (auto dest: map_of_SomeD)
    with e(1) have "t' = t" using eq_key_imp_eq_value [OF keys] by blast
    with Some keys delete_mset [of "tp_pool p" h t] pop hl show thesis
      by (intro done1 [where a = "tp_pending p" and b = "AList.delete h (tp_pool p)"]) (auto simp: pop_back_def Let_def)
  next
    case None
    have "map_of (entries p) h = Some t" using map_of_is_SomeI [OF keys e(1)] .
    with None have "map_of (tp_pending p) h = Some t" by (auto simp: map_add_def split: option.splits)
    with None keys delete_mset [of "tp_pending p" h t] pop hl show thesis
      by (intro done1 [where a = "AList.delete h (tp_pending p)" and b = "tp_pool p"]) (auto simp: pop_back_def Let_def)
  qed
qed

section \<open>Insertion\<close>

lemma enqueue_entries:
  assumes new: "tx_hash E tx \<notin> fst ` set (entries p)"
  shows "mset (entries (enqueue_tx E p tx)) = add_mset (tx_hash E tx, tx) (mset (entries p))"
    and "length (entries (enqueue_tx E p tx)) = Suc (length (entries p))"
    and "tp_ordered_queue (enqueue_tx E p tx) = heap_push priority_le (price_ref (tx_hash E tx, tx)) (tp_ordered_queue p)"
    and "tp_block_limit (enqueue_tx E p tx) = tp_block_limit p" "tp_queue_limit (enqueue_tx E p tx) = tp_queue_limit p"
    and "keys_distinct (entries p) \<Longrightarrow> keys_distinct (entries (enqueue_tx E p tx))"
proof -
  have "tx_hash E tx \<notin> fst ` set (tp_pending p)" "tx_hash E tx \<notin> fst ` set (tp_pool p)" using new by auto
  note upd = update_new [OF this(1), of tx] update_new [OF this(2), of tx] this
  show "mset (entries (enqueue_tx E p tx)) = add_mset (tx_hash E tx, tx) (mset (entries p))"
    "length (entries (enqueue_tx E p tx)) = Suc (length (entries p))"
    "keys_distinct (entries p) \<Longrightarrow> keys_distinct (entries (enqueue_tx E p tx))"
    using upd by (auto simp: enqueue_tx_def Let_def)
qed (simp_all add: enqueue_tx_def Let_def price_ref_def)

lemma enqueue_ok:
  assumes p: "synced p" and new: "tx_hash E tx \<notin> fst ` set (entries p)"
  shows "synced (enqueue_tx E p tx)"
proof -
  note put = enqueue_entries [OF new]
  have heap: "is_heap priority_le (tp_ordered_queue p)" and keys: "keys_distinct (entries p)" using p by (simp_all add: synced_def)
  show ?thesis using p put(6) [OF keys] hq.push_law [OF heap, of "price_ref (tx_hash E tx, tx)"]
    unfolding synced_def put(1,3) by simp
qed

text \<open>C30. While nothing is removed behind its back, the pool keeps one heap entry per transaction and at most one transaction more
  than its two limits. A valid new transaction is always taken; below the limit nothing else changes, above it the
  transaction with the lowest price in the pool is dropped.\<close>

theorem insert_tx_spec:
  assumes "synced p" and "unat (tp_block_limit p) + unat (tp_queue_limit p) < 2 ^ 64"
    and "length (entries p) \<le> unat (tp_block_limit p) + unat (tp_queue_limit p) + 1"
    and "validate_tx E bc tx = Some (Inr ())" and "tx_hash E tx \<notin> fst ` set (entries p)"
  shows "\<exists>p'. insert_tx E bc p tx = Some p' \<and> synced p' \<and>
    length (entries p') \<le> unat (tp_block_limit p) + unat (tp_queue_limit p) + 1 \<and>
    (if length (entries p) \<le> unat (tp_block_limit p) + unat (tp_queue_limit p)
     then mset (entries p') = add_mset (tx_hash E tx, tx) (mset (entries p))
     else \<exists>h old rest. mset (entries p) = add_mset (h, old) rest \<and> mset (entries p') = add_mset (tx_hash E tx, tx) rest \<and>
       (\<forall>e \<in> set (entries p). get_gas_price old \<le> get_gas_price (snd e)))"
proof -
  let ?limit = "tp_block_limit p + tp_queue_limit p"
  have lim: "uadd (overflow_checks E) (tp_block_limit p) (tp_queue_limit p) = Some ?limit"
    "unat ?limit = unat (tp_block_limit p) + unat (tp_queue_limit p)" using assms(2) by (simp_all add: exact_arith)
  have all: "length (all_transactions p) = length (entries p)" by (simp add: all_transactions_def)
  show ?thesis
  proof (cases "length (entries p) \<le> unat (tp_block_limit p) + unat (tp_queue_limit p)")
    case True
    then have "insert_tx E bc p tx = Some (enqueue_tx E p tx)" using assms(4) lim all by (simp add: insert_tx_def)
    with True enqueue_ok [OF assms(1,5)] enqueue_entries [OF assms(5)] show ?thesis by simp
  next
    case False
    then have "entries p \<noteq> []" by auto
    from pop_back_ok [OF assms(1) this] obtain h old p1 where p1: "pop_back p = Some (Some h, p1)" "synced p1"
      "mset (entries p) = add_mset (h, old) (mset (entries p1))" "\<forall>e \<in> set (entries p). get_gas_price old \<le> get_gas_price (snd e)"
      "remove_tx p1 h = p1" .
    have "set (entries p1) \<subseteq> set (entries p)" using arg_cong [OF p1(3), of set_mset] by auto
    then have "tx_hash E tx \<notin> fst ` set (entries p1)" using assms(5) by blast
    note step = enqueue_ok [OF p1(2) this] enqueue_entries [OF this]
    have "insert_tx E bc p tx = Some (enqueue_tx E p1 tx)"
      using False assms(4) lim all p1(1,5) by (simp add: insert_tx_def)
    moreover have "length (entries p) = Suc (length (entries p1))" using arg_cong [OF p1(3), of size] by simp
    ultimately show ?thesis unfolding if_not_P [OF False] using step(1,3) assms(3) p1(3,4) step(2)
      by (intro exI [of _ "enqueue_tx E p1 tx"] conjI exI [of _ h] exI [of _ old] exI [of _ "mset (entries p1)"]) simp_all
  qed
qed

section \<open>Transactions of different senders\<close>

text \<open>The hash of a transaction does not cover its sender, so that equal payments of two senders take one place.\<close>

lemma add_tx_replaces_other_sender:
  assumes "validate_tx E bc tx1 = Some (Inr ())" "validate_tx E bc tx2 = Some (Inr ())"
    and "tx2 = tx1\<lparr>tx_sender := s, tx_sign_data := sg\<rparr>"
    and "add_tx E bc p tx1 = Some (r1, p1)" "add_tx E bc p1 tx2 = Some (r2, p2)"
  shows "r1 \<and> map_of (tp_pending p1) (tx_hash E tx1) = Some tx1 \<and> r2 \<and> map_of (tp_pending p2) (tx_hash E tx1) = Some tx2"
proof -
  have "tx_hash E tx2 = tx_hash E tx1" by (simp add: assms(3) tx_hash_def tx_hash_type_new_def)
  with assms(1,2,4,5) show ?thesis by (auto simp: add_tx_def update_conv')
qed

section \<open>Stale references\<close>

lemma pop_lowest:
  assumes heap: "is_heap priority_le q" and m: "mset q = add_mset l rest" and low: "\<forall>y \<in># rest. pr_price l < pr_price y"
  obtains q' where "heap_pop priority_le q = Some (l, q')"
proof -
  obtain x q' where pop: "heap_pop priority_le q = Some (x, q')"
    using hq.pop_None [OF heap] m by (cases "heap_pop priority_le q") auto
  have x: "add_mset l rest = add_mset x (mset q')" "\<forall>y. y \<in># mset q' \<longrightarrow> pr_price x \<le> pr_price y"
    using hq.pop_Some [OF heap pop] m by (simp_all add: priority_le_iff)
  have "x = l"
  proof (rule ccontr)
    assume "x \<noteq> l"
    then have "x \<in># rest" "l \<in># mset q'" using x(1) by (metis insert_iff set_mset_add_mset_insert union_single_eq_member)+
    with low x(2) show False by (meson not_less)
  qed
  with pop that show thesis by simp
qed

lemma remove_tx_mset:
  assumes "keys_distinct (entries p)" "(h, t) \<in> set (entries p)"
  shows "mset (entries p) = add_mset (h, t) (mset (entries (remove_tx p h)))"
proof (cases "map_of (tp_pending p) h")
  case (Some t')
  then have "(h, t') \<in> set (entries p)" by (auto dest: map_of_SomeD)
  with assms(2) have "t' = t" using eq_key_imp_eq_value [OF assms(1)] by blast
  with Some assms(1) delete_mset [of "tp_pending p" h t] show ?thesis by (simp add: remove_tx_def)
next
  case None
  have "map_of (entries p) h = Some t" using map_of_is_SomeI [OF assms] .
  with None have "map_of (tp_pool p) h = Some t" by (auto simp: map_add_def split: option.splits)
  with None assms(1) delete_mset [of "tp_pool p" h t] show ?thesis by (simp add: remove_tx_def)
qed

lemma stale_pop:
  assumes "heap_pop priority_le (tp_ordered_queue p) = Some (l, q)" "pr_tx_hash l \<notin> fst ` set (entries p)"
  shows "pop_back p = None"
proof -
  have "map_of (tp_pool p) (pr_tx_hash l) = None" "map_of (tp_pending p) (pr_tx_hash l) = None"
    using assms(2) by (simp_all add: map_of_eq_None_iff image_Un)
  with assms(1) show ?thesis by (simp add: pop_back_def Let_def)
qed

text \<open>C31. Removing a transaction leaves its reference in the heap. When the cheapest transaction of a full pool is
  removed, the pool takes one more transaction and then panics at the next one: it pops the stale reference and unwraps
  the missing transaction.\<close>

theorem stale_reference_panics:
  assumes "synced p" and "unat (tp_block_limit p) + unat (tp_queue_limit p) < 2 ^ 64"
    and "length (entries p) = unat (tp_block_limit p) + unat (tp_queue_limit p) + 1"
    and "(h, t) \<in> set (entries p)" and "\<forall>e \<in> set (entries p). e \<noteq> (h, t) \<longrightarrow> get_gas_price t < get_gas_price (snd e)"
    and "validate_tx E bc tx1 = Some (Inr ())" and "tx_hash E tx1 \<notin> fst ` set (entries p)" and "get_gas_price t < get_gas_price tx1"
    and "validate_tx E bc tx2 = Some (Inr ())"
  shows "\<exists>p'. insert_tx E bc (remove_tx p h) tx1 = Some p' \<and> insert_tx E bc p' tx2 = None"
proof -
  let ?p1 = "remove_tx p h" and ?limit = "tp_block_limit p + tp_queue_limit p"
  let ?p2 = "enqueue_tx E ?p1 tx1"
  have keys: "keys_distinct (entries p)" and heap: "is_heap priority_le (tp_ordered_queue p)"
    and refs: "mset (tp_ordered_queue p) = image_mset price_ref (mset (entries p))" using assms(1) by (simp_all add: synced_def)
  note m = remove_tx_mset [OF keys assms(4)]
  have same: "tp_ordered_queue ?p1 = tp_ordered_queue p" "tp_block_limit ?p1 = tp_block_limit p" "tp_queue_limit ?p1 = tp_queue_limit p"
    by (simp_all add: remove_tx_def)
  have lim: "uadd (overflow_checks E) (tp_block_limit p) (tp_queue_limit p) = Some ?limit"
    "unat ?limit = unat (tp_block_limit p) + unat (tp_queue_limit p)" using assms(2) by (simp_all add: exact_arith)
  have all: "length (all_transactions r) = length (entries r)" for r by (simp add: all_transactions_def)
  have len: "length (entries ?p1) = unat ?limit" using arg_cong [OF m, of size] assms(3) lim(2) by simp
  have one: "insert_tx E bc ?p1 tx1 = Some ?p2" using assms(6) lim len all [of ?p1] by (simp add: insert_tx_def same)
  have keys1: "set (entries ?p1) \<subseteq> set (entries p)" using arg_cong [OF m, of set_mset] by auto
  have "mset (map fst (entries p)) = add_mset h (mset (map fst (entries ?p1)))" using arg_cong [OF m, of "image_mset fst"] by simp
  then have gone: "h \<notin> fst ` set (entries ?p1)"
    using keys mset_eq_imp_distinct_iff [of "map fst (entries p)" "h # map fst (entries ?p1)"] by auto
  have fresh: "tx_hash E tx1 \<notin> fst ` set (entries ?p1)" using assms(7) keys1 by blast
  have other: "tx_hash E tx1 \<noteq> h" using assms(4,7) by (metis fst_conv image_eqI)
  note put = enqueue_entries [OF fresh]
  have "mset (tp_ordered_queue p) = add_mset (price_ref (h, t)) (image_mset price_ref (mset (entries ?p1)))"
    using arg_cong [OF m, of "image_mset price_ref"] refs by simp
  then have q2: "is_heap priority_le (tp_ordered_queue ?p2)"
    "mset (tp_ordered_queue ?p2) = add_mset (price_ref (h, t)) (add_mset (price_ref (tx_hash E tx1, tx1)) (image_mset price_ref (mset (entries ?p1))))"
    using hq.push_law [OF heap] by (simp_all add: put(3) same add_mset_commute)
  have low: "get_gas_price t < get_gas_price (snd e)" if "e \<in> set (entries ?p1)" for e
  proof -
    have "e \<noteq> (h, t)" using that gone by (metis fst_conv image_eqI)
    moreover have "e \<in> set (entries p)" using that keys1 by blast
    ultimately show ?thesis using assms(5) by blast
  qed
  have "pr_price (price_ref (h, t)) < pr_price y" if "y \<in> insert (price_ref (tx_hash E tx1, tx1)) (price_ref ` set (entries ?p1))" for y
    using that
  proof (elim insertE imageE)
    show "pr_price (price_ref (h, t)) < pr_price y" if "y = price_ref (tx_hash E tx1, tx1)" using that assms(8) by (simp add: price_ref_def)
    show "pr_price (price_ref (h, t)) < pr_price y" if "y = price_ref e" "e \<in> set (entries ?p1)" for e
      using that(1) low [OF that(2)] by (simp add: price_ref_def)
  qed
  then have "\<forall>y \<in># add_mset (price_ref (tx_hash E tx1, tx1)) (image_mset price_ref (mset (entries ?p1))). pr_price (price_ref (h, t)) < pr_price y"
    unfolding set_mset_add_mset_insert set_image_mset set_mset_mset by blast
  from pop_lowest [OF q2 this] obtain q where "heap_pop priority_le (tp_ordered_queue ?p2) = Some (price_ref (h, t), q)" .
  moreover have "h \<notin> fst ` set (entries ?p2)" using gone other arg_cong [OF put(1), of set_mset] by auto
  ultimately have "pop_back ?p2 = None" by (intro stale_pop [of _ "price_ref (h, t)"]) (simp_all add: price_ref_def)
  moreover have "length (entries ?p2) > unat ?limit" using len put(2) by simp
  ultimately have "insert_tx E bc ?p2 tx2 = None"
    using assms(9) lim all [of ?p2] same by (simp add: insert_tx_def put(4,5))
  with one show ?thesis by blast
qed

end
