(* ===== verification/Processor.thy ===== *)
theory Processor
  imports Messages Tx_Pool
begin

text \<open>
  The message handler of a node, \<^verbatim>\<open>network/src/handler.rs\<close> and \<^verbatim>\<open>network/src/handler_processor.rs\<close>: it decodes what
  the network delivers, answers requests from the chain, imports gossiped blocks and hands the rest to the
  synchronisation task. The handler and its processor hold clones of one sender to the network service, which are one
  channel here. Log lines are left out.
\<close>

section \<open>Messages to the synchronisation task\<close>

record peer_sync_info =
  pi_genesis_hash :: hash
  pi_finalized_root :: hash
  pi_finalized_number :: u64
  pi_head_root :: hash
  pi_network_id :: u16

definition peer_sync_info_from :: "status_message \<Rightarrow> peer_sync_info" where
  "peer_sync_info_from s =
    \<lparr>pi_genesis_hash = sm_genesis_hash s, pi_finalized_root = sm_finalized_root s,
     pi_finalized_number = sm_finalized_number s, pi_head_root = sm_head_root s, pi_network_id = sm_network_id s\<rparr>"

datatype batch_id = BatchId (batch_num: u64)

datatype batch_process_result = BatchSuccess | BatchFailed

datatype sync_message =
    AddPeer peer_id peer_sync_info
  | BlocksByRangeResponse peer_id request_id "block option"
  | BlocksByHashResponse peer_id request_id "block option"
  | OrphanBlock peer_id block
  | PeerGone peer_id
  | RPCError peer_id request_id
  | BatchProcessed batch_id "block list" batch_process_result

section \<open>State of the processor\<close>

definition FUTURE_SLOT_TOLERANCE :: u64 where "FUTURE_SLOT_TOLERANCE = 1"
definition SLOT_IMPORT_TOLERANCE :: u64 where "SLOT_IMPORT_TOLERANCE = 20"
definition QUEUE_GOSSIP_BLOCK :: u64 where "QUEUE_GOSSIP_BLOCK = 512"

text \<open>
  The crate \<^verbatim>\<open>priority_queue\<close> and the codec of transactions are parameters. An \<^verbatim>\<open>i64\<close> is a word; casts between
  \<^verbatim>\<open>i64\<close> and \<^verbatim>\<open>u64\<close> keep the bits.
\<close>

type_synonym i64 = "64 word"

record 'q node_env =
  queue_new :: "'q"
  queue_push :: "'q \<Rightarrow> block \<Rightarrow> i64 \<Rightarrow> 'q"
  queue_pop :: "'q \<Rightarrow> ((block \<times> i64) \<times> 'q) option"
  queue_is_empty :: "'q \<Rightarrow> bool"
  transaction_codec :: "transaction codec"

definition ineg :: "bool \<Rightarrow> i64 \<Rightarrow> i64 option" where
  "ineg oc x = (if oc \<and> x = 2 ^ 63 then None else Some (- x))"

record ('kv, 'm, 'r, 'q) message_processor =
  mp_chain :: "('kv, 'm, 'r) block_chain"
  mp_tx_pool :: tx_pool
  mp_sync_send :: "sync_message channel"
  mp_network :: "network_message channel"
  mp_queue :: 'q

definition message_processor_new ::
  "'q node_env \<Rightarrow> ('kv, 'm, 'r) block_chain \<Rightarrow> tx_pool \<Rightarrow> sync_message channel \<Rightarrow> network_message channel
     \<Rightarrow> ('kv, 'm, 'r, 'q) message_processor" where
  "message_processor_new N bc p sync net =
    \<lparr>mp_chain = bc, mp_tx_pool = p, mp_sync_send = sync, mp_network = net, mp_queue = queue_new N\<rparr>"

section \<open>Sending\<close>

definition send_to_sync :: "('kv, 'm, 'r, 'q) message_processor \<Rightarrow> sync_message \<Rightarrow> ('kv, 'm, 'r, 'q) message_processor" where
  "send_to_sync mp m = mp\<lparr>mp_sync_send := send_or_log (mp_sync_send mp) m\<rparr>"

definition send_rpc_event :: "network_message channel \<Rightarrow> peer_id \<Rightarrow> p2p_event \<Rightarrow> network_message channel" where
  "send_rpc_event c p e = send_or_log c (P2P p e)"

definition send_rpc_request :: "network_message channel \<Rightarrow> peer_id \<Rightarrow> p2p_request \<Rightarrow> network_message channel" where
  "send_rpc_request c p r = send_rpc_event c p (Request 0 r)"

definition send_rpc_response ::
  "network_message channel \<Rightarrow> peer_id \<Rightarrow> request_id \<Rightarrow> p2p_response \<Rightarrow> network_message channel" where
  "send_rpc_response c p i r = send_rpc_event c p (Response i (Success r))"

definition send_rpc_error_response ::
  "network_message channel \<Rightarrow> peer_id \<Rightarrow> request_id \<Rightarrow> p2p_error_response \<Rightarrow> network_message channel" where
  "send_rpc_error_response c p i r = send_rpc_event c p (Response i r)"

definition disconnect :: "network_message channel \<Rightarrow> peer_id \<Rightarrow> goodbye_reason \<Rightarrow> network_message channel" where
  "disconnect c p reason = send_or_log (send_rpc_request c p (QGoodbye reason)) (Disconnect p)"

definition broadcast_block ::
  "('kv, 'm, 't, 'r, 'z) chain_env_scheme \<Rightarrow> network_message channel \<Rightarrow> block \<Rightarrow> network_message channel" where
  "broadcast_block E c b = send_or_log c (Publish [topic_into MapBlock] (PBlock (ser (block_codec E) b)))"

definition publish_transaction ::
  "'q node_env \<Rightarrow> network_message channel \<Rightarrow> transaction \<Rightarrow> network_message channel" where
  "publish_transaction N c tx =
    send_or_log c (Publish [topic_into TransactionTopic] (PTransaction (ser (transaction_codec N) tx)))"

section \<open>Status of peers\<close>

text \<open>\<^verbatim>\<open>status_message\<close>; the function never returns \<^verbatim>\<open>None\<close>, it panics when the chain has no head.\<close>

definition status_message_of ::
  "('kv, 'm, 't, 'r, 'z) chain_env_scheme \<Rightarrow> ('kv, 'm, 'r) block_chain \<Rightarrow> status_message option option" where
  "status_message_of E bc =
    do { b \<leftarrow> current_block E bc;
         Some (Some \<lparr>sm_genesis_hash = genesis_hash E bc, sm_finalized_root = block_hash E b,
                     sm_finalized_number = block_height b, sm_head_root = block_hash E b, sm_network_id = 31133\<rparr>) }"

definition from_chain ::
  "('kv, 'm, 't, 'r, 'z) chain_env_scheme \<Rightarrow> ('kv, 'm, 'r) block_chain \<Rightarrow> peer_sync_info option option" where
  "from_chain E bc = do { r \<leftarrow> status_message_of E bc; Some (map_option peer_sync_info_from r) }"

definition on_disconnect :: "('kv, 'm, 'r, 'q) message_processor \<Rightarrow> peer_id \<Rightarrow> ('kv, 'm, 'r, 'q) message_processor" where
  "on_disconnect mp p = send_to_sync mp (PeerGone p)"

definition on_rpc_error ::
  "('kv, 'm, 'r, 'q) message_processor \<Rightarrow> peer_id \<Rightarrow> request_id \<Rightarrow> ('kv, 'm, 'r, 'q) message_processor" where
  "on_rpc_error mp p i = send_to_sync mp (RPCError p i)"

definition on_connect ::
  "('kv, 'm, 't, 'r, 'z) chain_env_scheme \<Rightarrow> ('kv, 'm, 'r, 'q) message_processor \<Rightarrow> peer_id
     \<Rightarrow> ('kv, 'm, 'r, 'q) message_processor option" where
  "on_connect E mp p =
    do { r \<leftarrow> status_message_of E (mp_chain mp);
         Some (case r of
                 Some status \<Rightarrow> mp\<lparr>mp_network := send_rpc_request (mp_network mp) p (QStatus status)\<rparr>
               | None \<Rightarrow> mp) }"

definition process_status ::
  "('kv, 'm, 't, 'r, 'z) chain_env_scheme \<Rightarrow> ('kv, 'm, 'r, 'q) message_processor \<Rightarrow> peer_id \<Rightarrow> status_message
     \<Rightarrow> ('kv, 'm, 'r, 'q) message_processor option" where
  "process_status E mp p status =
    do { let remote = peer_sync_info_from status;
         r \<leftarrow> from_chain E (mp_chain mp);
         Some (case r of
                 None \<Rightarrow> mp
               | Some loc \<Rightarrow>
                   if pi_network_id loc \<noteq> pi_network_id remote
                   then mp\<lparr>mp_network := disconnect (mp_network mp) p IrrelevantNetwork\<rparr>
                   else if pi_finalized_number remote < pi_finalized_number loc then mp
                   else send_to_sync mp (AddPeer p remote)) }"

definition on_status_request ::
  "('kv, 'm, 't, 'r, 'z) chain_env_scheme \<Rightarrow> ('kv, 'm, 'r, 'q) message_processor \<Rightarrow> peer_id \<Rightarrow> request_id \<Rightarrow> status_message
     \<Rightarrow> ('kv, 'm, 'r, 'q) message_processor option" where
  "on_status_request E mp p i status =
    do { r \<leftarrow> status_message_of E (mp_chain mp);
         let mp1 = (case r of
                      Some own \<Rightarrow> mp\<lparr>mp_network := send_rpc_response (mp_network mp) p i (RStatus own)\<rparr>
                    | None \<Rightarrow> mp);
         process_status E mp1 p status }"

definition on_status_response ::
  "('kv, 'm, 't, 'r, 'z) chain_env_scheme \<Rightarrow> ('kv, 'm, 'r, 'q) message_processor \<Rightarrow> peer_id \<Rightarrow> status_message
     \<Rightarrow> ('kv, 'm, 'r, 'q) message_processor option" where
  "on_status_response E mp p status = process_status E mp p status"

section \<open>Serving blocks\<close>

text \<open>One round of the loop of \<^verbatim>\<open>on_blocks_by_range_request\<close>: leave it, or go on with the next start and channel.\<close>

definition range_step ::
  "('kv, 'm, 't, 'r, 'z) chain_env_scheme \<Rightarrow> ('kv, 'm, 'r) block_chain \<Rightarrow> peer_id \<Rightarrow> request_id
     \<Rightarrow> blocks_by_range_request \<Rightarrow> u64 \<times> nat \<times> network_message channel
     \<Rightarrow> (network_message channel + u64 \<times> nat \<times> network_message channel) option" where
  "range_step E bc p i req = (\<lambda>(start, n, c).
    do { current \<leftarrow> current_block E bc;
         if start < block_height current \<and> n = unat (br_count req) then Some (Inl c)
         else do {
           r \<leftarrow> get_block_by_number E (bc_db bc) start;
           (case r of
              None \<Rightarrow> Some (Inl c)
            | Some b \<Rightarrow> do {
                start' \<leftarrow> uadd (overflow_checks E) start (br_step req);
                Some (Inr (start', n + 1, send_rpc_response c p i (RBlocksByRange (ser (block_codec E) b)))) }) } })"

partial_function (option) range_loop ::
  "('kv, 'm, 't, 'r, 'z) chain_env_scheme \<Rightarrow> ('kv, 'm, 'r) block_chain \<Rightarrow> peer_id \<Rightarrow> request_id
     \<Rightarrow> blocks_by_range_request \<Rightarrow> u64 \<times> nat \<times> network_message channel \<Rightarrow> network_message channel option option" where
  "range_loop E bc p i req st =
    (case range_step E bc p i req st of
       None \<Rightarrow> Some None
     | Some r \<Rightarrow> (case r of Inl c \<Rightarrow> Some (Some c) | Inr st' \<Rightarrow> range_loop E bc p i req st'))"

definition on_blocks_by_range_request ::
  "('kv, 'm, 't, 'r, 'z) chain_env_scheme \<Rightarrow> ('kv, 'm, 'r, 'q) message_processor \<Rightarrow> peer_id \<Rightarrow> request_id
     \<Rightarrow> blocks_by_range_request \<Rightarrow> ('kv, 'm, 'r, 'q) message_processor option option" where
  "on_blocks_by_range_request E mp p i req =
    (if br_step req = 0 then Some (Some (mp\<lparr>mp_network := disconnect (mp_network mp) p Fault\<rparr>))
     else run_bind (range_loop E (mp_chain mp) p i req (br_start_slot req, 0, mp_network mp)) (\<lambda>c.
       Some (Some (mp\<lparr>mp_network := send_rpc_error_response c p i (StreamTermination TBlocksByRange)\<rparr>))))"

definition on_blocks_by_range_response ::
  "('kv, 'm, 'r, 'q) message_processor \<Rightarrow> peer_id \<Rightarrow> request_id \<Rightarrow> block option \<Rightarrow> ('kv, 'm, 'r, 'q) message_processor" where
  "on_blocks_by_range_response mp p i b = send_to_sync mp (BlocksByRangeResponse p i b)"

definition on_blocks_by_root_response ::
  "('kv, 'm, 'r, 'q) message_processor \<Rightarrow> peer_id \<Rightarrow> request_id \<Rightarrow> block option \<Rightarrow> ('kv, 'm, 'r, 'q) message_processor" where
  "on_blocks_by_root_response mp p i b = send_to_sync mp (BlocksByHashResponse p i b)"

fun send_blocks_by_root ::
  "('kv, 'm, 't, 'r, 'z) chain_env_scheme \<Rightarrow> ('kv, 'm, 'r) block_chain \<Rightarrow> peer_id \<Rightarrow> request_id \<Rightarrow> hash list
     \<Rightarrow> network_message channel \<Rightarrow> network_message channel option" where
  "send_blocks_by_root E bc p i [] c = Some c"
| "send_blocks_by_root E bc p i (h # hs) c =
    do { r \<leftarrow> get_block E (bc_db bc) h;
         send_blocks_by_root E bc p i hs
           (case r of Some b \<Rightarrow> send_rpc_response c p i (RBlocksByRoot (ser (block_codec E) b)) | None \<Rightarrow> c) }"

definition on_blocks_by_root_request ::
  "('kv, 'm, 't, 'r, 'z) chain_env_scheme \<Rightarrow> ('kv, 'm, 'r, 'q) message_processor \<Rightarrow> peer_id \<Rightarrow> request_id
     \<Rightarrow> blocks_by_root_request \<Rightarrow> ('kv, 'm, 'r, 'q) message_processor option" where
  "on_blocks_by_root_request E mp p i req =
    do { c \<leftarrow> send_blocks_by_root E (mp_chain mp) p i (br_block_roots req) (mp_network mp);
         Some (mp\<lparr>mp_network := send_rpc_error_response c p i (StreamTermination TBlocksByRoot)\<rparr>) }"

section \<open>Gossip\<close>

definition import_gossiped ::
  "('kv, 'm, 't, 'r, 'z) chain_env_scheme \<Rightarrow> ('kv, 'm, 'r) block_chain \<Rightarrow> block \<Rightarrow> (bool \<times> ('kv, 'm, 'r) block_chain) option" where
  "import_gossiped E bc b =
    do { (r, bc') \<leftarrow> import_block E bc b; Some (case r of Inr _ \<Rightarrow> True | Inl _ \<Rightarrow> False, bc') }"

text \<open>
  One round of the loop of \<^verbatim>\<open>on_block_gossip\<close> over the cached blocks. The height of the head is the one read before the
  loop. The state is the flag \<^verbatim>\<open>find\<close> and the processor.
\<close>

definition gossip_step ::
  "('kv, 'm, 't, 'r, 'z) chain_env_scheme \<Rightarrow> 'q node_env \<Rightarrow> peer_id \<Rightarrow> block \<Rightarrow> u64
     \<Rightarrow> bool \<times> ('kv, 'm, 'r, 'q) message_processor
     \<Rightarrow> (bool \<times> ('kv, 'm, 'r, 'q) message_processor + bool \<times> ('kv, 'm, 'r, 'q) message_processor) option" where
  "gossip_step E N p b current_height = (\<lambda>(found, mp).
    if queue_is_empty N (mp_queue mp) then Some (Inl (found, mp))
    else do {
      ((block_low, height_low_neg), q) \<leftarrow> queue_pop N (mp_queue mp);
      height_low \<leftarrow> ineg (overflow_checks E) height_low_neg;
      following \<leftarrow> uadd (overflow_checks E) current_height 1;
      if height_low > following then do {
        let mp1 = mp\<lparr>mp_queue := queue_push N q block_low height_low_neg\<rparr>;
        far \<leftarrow> uadd (overflow_checks E) current_height SLOT_IMPORT_TOLERANCE;
        Some (Inl (found, if block_height b > far then send_to_sync mp1 (OrphanBlock p b) else mp1)) }
      else if height_low = following then do {
        (imported, bc) \<leftarrow> import_gossiped E (mp_chain mp) block_low;
        let mp1 = mp\<lparr>mp_queue := q, mp_chain := bc\<rparr>;
        Some (if imported
              then if height_low = block_height b then Inr (True, mp1)
                   else Inr (found, mp1\<lparr>mp_network := broadcast_block E (mp_network mp1) block_low\<rparr>)
              else Inl (found, mp1)) }
      else Some (Inr (found, mp\<lparr>mp_queue := q\<rparr>)) })"

partial_function (option) gossip_loop ::
  "('kv, 'm, 't, 'r, 'z) chain_env_scheme \<Rightarrow> 'q node_env \<Rightarrow> peer_id \<Rightarrow> block \<Rightarrow> u64
     \<Rightarrow> bool \<times> ('kv, 'm, 'r, 'q) message_processor \<Rightarrow> (bool \<times> ('kv, 'm, 'r, 'q) message_processor) option option" where
  "gossip_loop E N p b current_height st =
    (case gossip_step E N p b current_height st of
       None \<Rightarrow> Some None
     | Some r \<Rightarrow> (case r of Inl res \<Rightarrow> Some (Some res) | Inr st' \<Rightarrow> gossip_loop E N p b current_height st'))"

definition on_block_gossip ::
  "('kv, 'm, 't, 'r, 'z) chain_env_scheme \<Rightarrow> 'q node_env \<Rightarrow> ('kv, 'm, 'r, 'q) message_processor \<Rightarrow> peer_id \<Rightarrow> block
     \<Rightarrow> (bool \<times> ('kv, 'm, 'r, 'q) message_processor) option option" where
  "on_block_gossip E N mp p b =
    run_bind (Some (current_block E (mp_chain mp))) (\<lambda>current.
    run_bind (Some (usub (overflow_checks E) (block_height b) (block_height current))) (\<lambda>ahead.
    if ahead < QUEUE_GOSSIP_BLOCK
    then run_bind (Some (ineg (overflow_checks E) (block_height b))) (\<lambda>neg.
      gossip_loop E N p b (block_height current) (False, mp\<lparr>mp_queue := queue_push N (mp_queue mp) b neg\<rparr>))
    else Some (Some (False, mp))))"

definition on_transaction_gossip ::
  "('kv, 'm, 't, 'r, 'z) chain_env_scheme \<Rightarrow> ('kv, 'm, 'r, 'q) message_processor \<Rightarrow> peer_id \<Rightarrow> transaction
     \<Rightarrow> (bool \<times> ('kv, 'm, 'r, 'q) message_processor) option" where
  "on_transaction_gossip E mp p tx =
    do { (ok, pool) \<leftarrow> add_tx E (mp_chain mp) (mp_tx_pool mp) tx; Some (ok, mp\<lparr>mp_tx_pool := pool\<rparr>) }"

section \<open>The handler\<close>

definition propagate_message :: "('kv, 'm, 'r, 'q) message_processor \<Rightarrow> message_id \<Rightarrow> peer_id \<Rightarrow> ('kv, 'm, 'r, 'q) message_processor" where
  "propagate_message mp i p = mp\<lparr>mp_network := send_or_log (mp_network mp) (Propagate p i)\<rparr>"

definition handle_gossip ::
  "('kv, 'm, 't, 'r, 'z) chain_env_scheme \<Rightarrow> 'q node_env \<Rightarrow> ('kv, 'm, 'r, 'q) message_processor \<Rightarrow> message_id \<Rightarrow> peer_id
     \<Rightarrow> pubsub_message \<Rightarrow> ('kv, 'm, 'r, 'q) message_processor option option" where
  "handle_gossip E N mp i p msg =
    (case msg of
       PBlock data \<Rightarrow>
         (case de (block_codec E) data of
            Some b \<Rightarrow> run_bind (on_block_gossip E N mp p b) (\<lambda>(forward, mp').
              Some (Some (if forward then propagate_message mp' i p else mp')))
          | None \<Rightarrow> Some (Some mp))
     | PTransaction data \<Rightarrow>
         (case de (transaction_codec N) data of
            Some tx \<Rightarrow> Some (map_option snd (on_transaction_gossip E mp p tx))
          | None \<Rightarrow> Some (Some mp))
     | PUnknown data \<Rightarrow> Some (Some mp))"

definition handle_rpc_error ::
  "('kv, 'm, 'r, 'q) message_processor \<Rightarrow> peer_id \<Rightarrow> request_id \<Rightarrow> p2p_error \<Rightarrow> ('kv, 'm, 'r, 'q) message_processor" where
  "handle_rpc_error mp p i e = on_rpc_error mp p i"

definition handle_rpc_request ::
  "('kv, 'm, 't, 'r, 'z) chain_env_scheme \<Rightarrow> ('kv, 'm, 'r, 'q) message_processor \<Rightarrow> peer_id \<Rightarrow> request_id \<Rightarrow> p2p_request
     \<Rightarrow> ('kv, 'm, 'r, 'q) message_processor option option" where
  "handle_rpc_request E mp p i req =
    (case req of
       QStatus s \<Rightarrow> Some (on_status_request E mp p i s)
     | QGoodbye reason \<Rightarrow> Some (Some (on_disconnect mp p))
     | QBlocksByRange r \<Rightarrow> on_blocks_by_range_request E mp p i r
     | QBlocksByRoot r \<Rightarrow> Some (on_blocks_by_root_request E mp p i r))"

definition handle_rpc_response ::
  "('kv, 'm, 't, 'r, 'z) chain_env_scheme \<Rightarrow> ('kv, 'm, 'r, 'q) message_processor \<Rightarrow> peer_id \<Rightarrow> request_id
     \<Rightarrow> p2p_error_response \<Rightarrow> ('kv, 'm, 'r, 'q) message_processor option" where
  "handle_rpc_response E mp p i resp =
    (case resp of
       InvalidRequest e \<Rightarrow> Some (handle_rpc_error mp p i ErrorResponse)
     | ServerError e \<Rightarrow> Some (handle_rpc_error mp p i ErrorResponse)
     | UnknownResponse e \<Rightarrow> Some (handle_rpc_error mp p i ErrorResponse)
     | Success r \<Rightarrow>
         (case r of
            RStatus s \<Rightarrow> on_status_response E mp p s
          | RBlocksByRange data \<Rightarrow> Some (case de (block_codec E) data of
              Some b \<Rightarrow> on_blocks_by_range_response mp p i (Some b) | None \<Rightarrow> mp)
          | RBlocksByRoot data \<Rightarrow> Some (case de (block_codec E) data of
              Some b \<Rightarrow> on_blocks_by_root_response mp p i (Some b) | None \<Rightarrow> mp))
     | StreamTermination t \<Rightarrow>
         Some (case t of
                 TBlocksByRange \<Rightarrow> on_blocks_by_range_response mp p i None
               | TBlocksByRoot \<Rightarrow> on_blocks_by_root_response mp p i None))"

definition handle_rpc_message ::
  "('kv, 'm, 't, 'r, 'z) chain_env_scheme \<Rightarrow> ('kv, 'm, 'r, 'q) message_processor \<Rightarrow> peer_id \<Rightarrow> p2p_event
     \<Rightarrow> ('kv, 'm, 'r, 'q) message_processor option option" where
  "handle_rpc_message E mp p ev =
    (case ev of
       Request i req \<Rightarrow> handle_rpc_request E mp p i req
     | Response i resp \<Rightarrow> Some (handle_rpc_response E mp p i resp)
     | EventError i e \<Rightarrow> Some (Some (handle_rpc_error mp p i e)))"

definition handle_message ::
  "('kv, 'm, 't, 'r, 'z) chain_env_scheme \<Rightarrow> 'q node_env \<Rightarrow> ('kv, 'm, 'r, 'q) message_processor \<Rightarrow> handler_message
     \<Rightarrow> ('kv, 'm, 'r, 'q) message_processor option option" where
  "handle_message E N mp msg =
    (case msg of
       PeerDialed p \<Rightarrow> Some (on_connect E mp p)
     | PeerDisconnected p \<Rightarrow> Some (Some (on_disconnect mp p))
     | RPC p ev \<Rightarrow> handle_rpc_message E mp p ev
     | Gossip i p g \<Rightarrow> handle_gossip E N mp i p g)"

section \<open>Gossip of the next block\<close>

text \<open>
  What the crate \<^verbatim>\<open>priority_queue\<close> documents: a queue holds every item once with its priority, \<^verbatim>\<open>push\<close> adds an item or
  changes its priority, and \<^verbatim>\<open>pop\<close> takes out an item of the greatest priority.
\<close>

definition queue_ok :: "'q node_env \<Rightarrow> ('q \<Rightarrow> block \<rightharpoonup> i64) \<Rightarrow> bool" where
  "queue_ok N content \<longleftrightarrow> content (queue_new N) = Map.empty \<and>
    (\<forall>q b p. content (queue_push N q b p) = (content q)(b \<mapsto> p)) \<and>
    (\<forall>q. queue_is_empty N q \<longleftrightarrow> content q = Map.empty) \<and>
    (\<forall>q. content q \<noteq> Map.empty \<longrightarrow> (\<exists>b p q'. queue_pop N q = Some ((b, p), q') \<and> content q b = Some p \<and>
       (\<forall>c r. content q c = Some r \<longrightarrow> sint r \<le> sint p) \<and> content q' = (content q)(b := None)))"

lemma queue_okD:
  assumes "queue_ok N content"
  shows "content (queue_push N q b p) = (content q)(b \<mapsto> p)" "queue_is_empty N q \<longleftrightarrow> content q = Map.empty"
    and "content q \<noteq> Map.empty \<Longrightarrow> \<exists>b p q'. queue_pop N q = Some ((b, p), q') \<and> content q b = Some p \<and>
       (\<forall>c r. content q c = Some r \<longrightarrow> sint r \<le> sint p) \<and> content q' = (content q)(b := None)"
  using assms unfolding queue_ok_def by blast+

lemma sint_minus_small:
  assumes "unat (w :: i64) < 2 ^ 63"
  shows "sint (- w) = - int (unat w)"
proof -
  have w: "- w = word_of_int (- int (unat w))" by simp
  have "int (unat w) < 2 ^ 63" using assms by (metis of_nat_less_iff of_nat_numeral of_nat_power)
  then have "signed_take_bit 63 (- int (unat w)) = - int (unat w)"
    by (intro signed_take_bit_int_eq_self) linarith+
  then show ?thesis unfolding w by (subst sint_sbintrunc') simp
qed

lemma ineg_small:
  assumes "unat w < 2 ^ 63"
  shows "ineg oc w = Some (- w)" "ineg oc (- w) = Some w"
proof -
  show "ineg oc w = Some (- w)" using assms by (auto simp: ineg_def)
  have "- w \<noteq> 2 ^ 63"
  proof
    assume "- w = 2 ^ 63"
    then have "w = - (2 ^ 63)" by (metis minus_minus)
    then show False using assms by simp
  qed
  then show "ineg oc (- w) = Some w" by (simp add: ineg_def)
qed

text \<open>The cached blocks that wait for a parent beyond the next height.\<close>

definition cached_ahead :: "('q \<Rightarrow> block \<rightharpoonup> i64) \<Rightarrow> nat \<Rightarrow> 'q \<Rightarrow> bool" where
  "cached_ahead content n q \<longleftrightarrow>
    (\<forall>c p. content q c = Some p \<longrightarrow> p = - block_height c \<and> n < unat (block_height c) \<and> unat (block_height c) < 2 ^ 63)"

lemma cached_ahead_pop:
  assumes "queue_ok N content" "cached_ahead content n (mp_queue mp)" "content (mp_queue mp) \<noteq> Map.empty"
  obtains y q where "queue_pop N (mp_queue mp) = Some ((y, - block_height y), q)" "n < unat (block_height y)"
    "unat (block_height y) < 2 ^ 63" "content (queue_push N q y (- block_height y)) = content (mp_queue mp)"
proof -
  obtain y p q where pop: "queue_pop N (mp_queue mp) = Some ((y, p), q)" "content (mp_queue mp) y = Some p"
      "content q = (content (mp_queue mp))(y := None)"
    using queue_okD(3) [OF assms(1,3)] by blast
  then have p: "p = - block_height y" "n < unat (block_height y)" "unat (block_height y) < 2 ^ 63"
    using assms(2) by (auto simp: cached_ahead_def)
  have "content (queue_push N q y p) = content (mp_queue mp)"
    using pop(2,3) by (auto simp: queue_okD(1) [OF assms(1)])
  then show thesis using pop(1) p that [of y q] by simp
qed

lemma pop_lowest_height:
  assumes "queue_ok N content" "cached_ahead content (unat (block_height b)) q" "unat (block_height b) < 2 ^ 63"
  obtains q' where "queue_pop N (queue_push N q b (- block_height b)) = Some ((b, - block_height b), q')" "content q' = content q"
proof -
  let ?q = "queue_push N q b (- block_height b)"
  have c: "content ?q = (content q)(b \<mapsto> - block_height b)" by (rule queue_okD(1) [OF assms(1)])
  obtain y p q' where pop: "queue_pop N ?q = Some ((y, p), q')" "content ?q y = Some p"
      "\<forall>z r. content ?q z = Some r \<longrightarrow> sint r \<le> sint p" "content q' = (content ?q)(y := None)"
    using queue_okD(3) [OF assms(1), of ?q] c by (metis fun_upd_same option.distinct(1))
  have "y = b"
  proof (rule ccontr)
    assume "y \<noteq> b"
    with pop(2) c have y: "p = - block_height y" "unat (block_height b) < unat (block_height y)" "unat (block_height y) < 2 ^ 63"
      using assms(2) by (auto simp: cached_ahead_def)
    have "content ?q b = Some (- block_height b)" using c by simp
    with pop(3) have "sint (- block_height b) \<le> sint p" by blast
    then have "int (unat (block_height y)) \<le> int (unat (block_height b))"
      unfolding y(1) sint_minus_small [OF y(3)] sint_minus_small [OF assms(3)] by linarith
    then show False using y(2) by linarith
  qed
  moreover have "content q b = None" using assms(2) by (cases "content q b") (auto simp: cached_ahead_def)
  ultimately show thesis using that [of q'] pop c by (auto simp: fun_upd_idem)
qed

lemma gossip_next_block:
  assumes "queue_ok N content" "cached_ahead content (unat (block_height b)) (mp_queue mp)"
    and "current_block E (mp_chain mp) = Some cur"
    and h: "unat (block_height b) = unat (block_height cur) + 1" "unat (block_height b) < 2 ^ 63"
    and imp: "import_block E (mp_chain mp) b = Some (Inr u, bc)"
  shows "\<exists>q. on_block_gossip E N mp p b = Some (Some (True, mp\<lparr>mp_chain := bc, mp_queue := q\<rparr>)) \<and> content q = content (mp_queue mp)"
proof -
  let ?q = "queue_push N (mp_queue mp) b (- block_height b)"
  let ?oc = "overflow_checks E"
  obtain q' where q': "queue_pop N ?q = Some ((b, - block_height b), q')" "content q' = content (mp_queue mp)"
    using pop_lowest_height [OF assms(1,2) h(2)] .
  have e: "\<not> queue_is_empty N ?q" by (simp add: queue_okD(1,2) [OF assms(1)])
  have s: "unat (block_height cur) + 20 < 2 ^ 64" using h by simp
  have up: "uadd ?oc (block_height cur) 1 = Some (block_height cur + 1)"
      "uadd ?oc (block_height cur) SLOT_IMPORT_TOLERANCE = Some (block_height cur + 20)"
    using s by (simp_all add: uadd_def SLOT_IMPORT_TOLERANCE_def)
  have nx: "block_height cur + 1 = block_height b" using h s by (simp add: word_unat_eq_iff unat_add_exact)
  have far: "\<not> block_height cur + 20 < block_height b" using h s by (simp add: word_less_nat_alt unat_add_exact)
  have diff: "usub ?oc (block_height b) (block_height cur) = Some 1"
    using h by (auto simp: usub_def simp flip: nx)
  let ?mp = "mp\<lparr>mp_queue := q', mp_chain := bc\<rparr>"
  have step: "gossip_step E N p b (block_height cur) (False, mp\<lparr>mp_queue := ?q\<rparr>) = Some (Inr (True, ?mp))"
    using e q'(1) imp by (simp add: gossip_step_def ineg_small [OF h(2)] up nx import_gossiped_def Let_def)
  have "\<exists>q. gossip_loop E N p b (block_height cur) (True, ?mp) = Some (Some (True, mp\<lparr>mp_chain := bc, mp_queue := q\<rparr>)) \<and>
      content q = content (mp_queue mp)"
  proof (cases "content q' = Map.empty")
    case True
    then show ?thesis using q'(2)
      by (subst gossip_loop.simps) (auto simp: gossip_step_def queue_okD(2) [OF assms(1)] intro: exI [of _ q'])
  next
    case False
    have "cached_ahead content (unat (block_height b)) (mp_queue ?mp)" using assms(2) q'(2) by (simp add: cached_ahead_def)
    from cached_ahead_pop [OF assms(1) this] False obtain y q where y:
        "queue_pop N q' = Some ((y, - block_height y), q)" "unat (block_height b) < unat (block_height y)"
        "unat (block_height y) < 2 ^ 63" "content (queue_push N q y (- block_height y)) = content q'" by auto
    have "block_height b < block_height y" using y(2) by (simp add: word_less_nat_alt)
    then show ?thesis using y(1,4) q'(2) False far
      by (subst gossip_loop.simps)
        (auto simp: gossip_step_def queue_okD(2) [OF assms(1)] ineg_small [OF y(3)] up nx Let_def
          intro: exI [of _ "queue_push N q y (- block_height y)"])
  qed
  moreover have "on_block_gossip E N mp p b = gossip_loop E N p b (block_height cur) (True, ?mp)"
    by (simp add: on_block_gossip_def assms(3) diff QUEUE_GOSSIP_BLOCK_def ineg_small [OF h(2)])
      (subst gossip_loop.simps, simp add: step)
  ultimately show ?thesis by simp
qed

text \<open>A gossiped block below the head makes the subtraction of the heights panic.\<close>

lemma old_gossip_panics:
  assumes "overflow_checks E" "current_block E (mp_chain mp) = Some cur" "unat (block_height b) < unat (block_height cur)"
  shows "on_block_gossip E N mp p b = Some None"
  using assms by (simp add: on_block_gossip_def usub_def)

section \<open>Serving a range of blocks\<close>

text \<open>
  How many blocks an answer has that starts at height \<open>s\<close> with step \<open>d\<close>, on a chain of length \<open>len\<close>, with \<open>n\<close> blocks still
  to send (\<^term>\<open>None\<close> once the count was passed): the loop stops at the count only below the head.
\<close>

definition answer_length :: "nat \<Rightarrow> nat \<Rightarrow> nat \<Rightarrow> nat option \<Rightarrow> nat" where
  "answer_length len d s left =
    (case left of
       Some n \<Rightarrow> if s + n * d < len - 1 then n else if s < len then (len - 1 - s) div d + 1 else 0
     | None \<Rightarrow> if s < len then (len - 1 - s) div d + 1 else 0)"

lemma steps_left:
  assumes "0 < d" "s < len"
  shows "(len - 1 - s) div d + 1 = Suc (if s + d < len then (len - 1 - (s + d)) div d + 1 else (0::nat))"
proof (cases "s + d < len")
  case True
  then have "len - 1 - s = (len - 1 - (s + d)) + d" by linarith
  then have "(len - 1 - s) div d = (len - 1 - (s + d)) div d + 1" using assms(1) div_add_self2 [of d "len - 1 - (s + d)"] by (metis not_gr0)
  with True show ?thesis by simp
next
  case False
  then have "len - 1 - s < d" using assms(1,2) by linarith
  with False show ?thesis by simp
qed

lemma answer_length_step:
  assumes "0 < d" "s < len" "\<not> (s < len - 1 \<and> left = Some 0)"
  shows "answer_length len d s left = Suc (answer_length len d (s + d)
    (case left of Some (Suc n) \<Rightarrow> Some n | _ \<Rightarrow> None))"
proof (cases left)
  case None
  with steps_left [OF assms(1,2)] assms(2) show ?thesis by (simp only: answer_length_def option.case if_True)
next
  case (Some n)
  show ?thesis
  proof (cases n)
    case 0
    with Some assms(3) have "\<not> s + 0 * d < len - 1" by simp
    with steps_left [OF assms(1,2)] assms(2) show ?thesis by (simp only: answer_length_def Some 0 option.case nat.case if_True if_False)
  next
    case (Suc m)
    have e: "s + Suc m * d = s + d + m * d" by simp
    show ?thesis
    proof (cases "s + d + m * d < len - 1")
      case True
      then show ?thesis by (simp only: answer_length_def Some Suc option.case nat.case if_True e)
    next
      case False
      then show ?thesis using steps_left [OF assms(1,2)] assms(2) by (simp only: answer_length_def Some Suc option.case nat.case if_True if_False e)
    qed
  qed
qed

lemma answer_length_bounds:
  assumes "0 < d"
  shows "answer_length len d s (Some n) \<le> n + 1"
    and "answer_length len d s (Some n) = 0 \<or> s + (answer_length len d s (Some n) - 1) * d < len"
proof -
  have "(len - 1 - s) div d \<le> n" if "\<not> s + n * d < len - 1"
    using that div_le_mono [of "len - 1 - s" "n * d" d] assms by simp
  then show "answer_length len d s (Some n) \<le> n + 1" by (simp add: answer_length_def)
  have "s + (len - 1 - s) div d * d < len" if "s < len"
    using that div_times_less_eq_dividend [of "len - 1 - s" d] by linarith
  moreover have "s + (n - 1) * d < len" if "s + n * d < len - 1"
    using that mult_le_mono1 [of "n - 1" n d] by linarith
  ultimately show "answer_length len d s (Some n) = 0 \<or> s + (answer_length len d s (Some n) - 1) * d < len"
    by (simp add: answer_length_def)
qed

definition send_range ::
  "('kv, 'm, 't, 'r, 'z) chain_env_scheme \<Rightarrow> peer_id \<Rightarrow> request_id \<Rightarrow> block list \<Rightarrow> network_message list" where
  "send_range E p i bs = map (\<lambda>b. P2P p (Response i (Success (RBlocksByRange (ser (block_codec E) b))))) bs"

lemma range_loop_serves:
  assumes "holds E (bc_db bc) cs" "br_step req \<noteq> 0" "length cs + unat (br_step req) < 2 ^ 64" "receiver_alive c"
  shows "range_loop E bc p i req (start, n, c) = Some (Some (c\<lparr>sent := sent c @
    send_range E p i (map (\<lambda>j. cs ! (unat start + j * unat (br_step req)))
      [0..<answer_length (length cs) (unat (br_step req)) (unat start)
         (if n \<le> unat (br_count req) then Some (unat (br_count req) - n) else None)])\<rparr>))"
  using assms(4)
proof (induction "length cs - unat start" arbitrary: start n c rule: less_induct)
  case less
  let ?d = "unat (br_step req)" let ?k = "unat (br_count req)"
  let ?left = "\<lambda>n. if n \<le> ?k then Some (?k - n) else None"
  have d: "0 < ?d" using assms(2) by (simp add: unat_gt_0)
  have "cs \<noteq> []" using holdsD(1) [OF assms(1)] .
  then have head: "current_block E bc = Some (last cs)" "unat (block_height (last cs)) = length cs - 1"
    using holdsD(2,4,6) [OF assms(1)] by (auto simp: current_block_def head_block_def)
  have below: "start < block_height (last cs) \<longleftrightarrow> unat start < length cs - 1" by (simp add: word_less_nat_alt head(2))
  show ?case
  proof (cases "unat start < length cs - 1 \<and> n = ?k")
    case True
    then show ?thesis
      by (subst range_loop.simps) (simp add: range_step_def head below answer_length_def send_range_def)
  next
    case more: False
    show ?thesis
    proof (cases "unat start < length cs")
      case False
      then have "\<not> unat start + m * ?d < length cs - 1" for m by simp
      then show ?thesis using False more
        by (subst range_loop.simps)
          (simp add: range_step_def head below holds_index [OF assms(1)] answer_length_def send_range_def)
    next
      case True
      let ?s = "start + br_step req"
      let ?c = "send_rpc_response c p i (RBlocksByRange (ser (block_codec E) (cs ! unat start)))"
      have s: "unat ?s = unat start + ?d" "uadd (overflow_checks E) start (br_step req) = Some ?s"
        using True assms(3) by (simp_all add: uadd_exact unat_add_exact)
      have c: "receiver_alive ?c" "sent ?c = sent c @ send_range E p i [cs ! unat start]"
        "?c\<lparr>sent := x\<rparr> = c\<lparr>sent := x\<rparr>" for x
        using less(2) by (simp_all add: send_rpc_response_def send_rpc_event_def send_or_log_def try_send_def send_range_def)
      have step: "range_step E bc p i req (start, n, c) = Some (Inr (?s, Suc n, ?c))"
        using more True s(2) by (auto simp: range_step_def head below holds_index [OF assms(1)])
      have left: "(case ?left n of Some (Suc m) \<Rightarrow> Some m | _ \<Rightarrow> None) = ?left (Suc n)"
        by (cases "n < ?k") (simp_all add: Suc_diff_Suc [symmetric])
      have len: "answer_length (length cs) ?d (unat start) (?left n) = Suc (answer_length (length cs) ?d (unat ?s) (?left (Suc n)))"
        using answer_length_step [OF d True, of "?left n"] more left by (auto simp: s(1))
      have blocks: "map (\<lambda>j. cs ! (unat start + j * ?d)) [0..<Suc m] = cs ! unat start # map (\<lambda>j. cs ! (unat ?s + j * ?d)) [0..<m]" for m
        by (simp add: upt_conv_Cons s(1) add.assoc flip: map_Suc_upt del: upt_Suc)
      have "length cs - unat ?s < length cs - unat start" using d True s(1) by simp
      note IH = less(1) [OF this c(1), of "Suc n"]
      show ?thesis unfolding len blocks
        by (subst range_loop.simps) (simp add: step IH c(2,3) send_range_def)
    qed
  qed
qed

text \<open>C40. A request for a range of blocks is answered without running forever: every \<open>step\<close>-th block from the start on,
  as many as were asked for when the chain goes on beyond them and otherwise all up to the head, so at most one
  more than asked for, then the end of the stream. Nothing else changes.\<close>

theorem range_request_served:
  assumes "chain_inv E G H (mp_chain mp) cs" "br_step req \<noteq> 0" "length cs + unat (br_step req) < 2 ^ 64"
    and "receiver_alive (mp_network mp)"
    and "n = answer_length (length cs) (unat (br_step req)) (unat (br_start_slot req)) (Some (unat (br_count req)))"
  shows "on_blocks_by_range_request E mp p i req = Some (Some (mp\<lparr>mp_network := (mp_network mp)\<lparr>sent := sent (mp_network mp) @
      map (\<lambda>j. P2P p (Response i (Success (RBlocksByRange (ser (block_codec E)
        (cs ! (unat (br_start_slot req) + j * unat (br_step req))))))) ) [0..<n] @
      [P2P p (Response i (StreamTermination TBlocksByRange))]\<rparr>\<rparr>)) \<and>
    n \<le> unat (br_count req) + 1 \<and> (n = 0 \<or> unat (br_start_slot req) + (n - 1) * unat (br_step req) < length cs)"
proof (intro conjI)
  let ?d = "unat (br_step req)" let ?s = "unat (br_start_slot req)" let ?k = "unat (br_count req)"
  have I: "holds E (bc_db (mp_chain mp)) cs" using assms(1) by (simp add: chain_inv_def)
  show "on_blocks_by_range_request E mp p i req = Some (Some (mp\<lparr>mp_network := (mp_network mp)\<lparr>sent := sent (mp_network mp) @
      map (\<lambda>j. P2P p (Response i (Success (RBlocksByRange (ser (block_codec E) (cs ! (?s + j * ?d))))))) [0..<n] @
      [P2P p (Response i (StreamTermination TBlocksByRange))]\<rparr>\<rparr>))"
    using assms(2,4) range_loop_serves [OF I assms(2-4), of p i "br_start_slot req" 0]
    by (simp add: on_blocks_by_range_request_def assms(5) send_range_def send_rpc_error_response_def send_rpc_event_def
        send_or_log_def try_send_def comp_def)
  have d: "0 < ?d" using assms(2) by (simp add: unat_gt_0)
  show "n \<le> ?k + 1" "n = 0 \<or> ?s + (n - 1) * ?d < length cs"
    using assms(5) answer_length_bounds [OF d] by simp_all
qed

end
