(* ===== verification/Batches.thy ===== *)
theory Batches
  imports Processor Collections
begin

text \<open>
  The parts the block download is built from: the requests of the synchronisation task
  (\<^verbatim>\<open>network/src/sync/network_context.rs\<close>), the batches of blocks and the table of pending ones
  (\<^verbatim>\<open>network/src/sync/range_sync/batch.rs\<close>) and the thread that imports a batch
  (\<^verbatim>\<open>network/src/sync/block_processor.rs\<close>).
\<close>

section \<open>Sets of the standard library\<close>

text \<open>A \<^verbatim>\<open>HashSet\<close> is the list of its elements in the order of iteration.\<close>

definition set_insert :: "'a \<Rightarrow> 'a list \<Rightarrow> 'a list" where
  "set_insert x xs = (if x \<in> set xs then xs else xs @ [x])"

definition set_remove :: "'a \<Rightarrow> 'a list \<Rightarrow> 'a list" where
  "set_remove x xs = filter (\<lambda>y. y \<noteq> x) xs"

lemma set_set_insert [simp]: "set (set_insert x xs) = insert x (set xs)"
  by (auto simp: set_insert_def)

lemma set_set_remove [simp]: "set (set_remove x xs) = set xs - {x}"
  by (auto simp: set_remove_def)

lemma distinct_set_insert [simp]: "distinct xs \<Longrightarrow> distinct (set_insert x xs)"
  by (simp add: set_insert_def)

lemma distinct_set_remove [simp]: "distinct xs \<Longrightarrow> distinct (set_remove x xs)"
  by (simp add: set_remove_def)

section \<open>Requests\<close>

record sync_network =
  sn_send :: "network_message channel"
  sn_request_id :: request_id

definition sync_network_new :: "network_message channel \<Rightarrow> sync_network" where
  "sync_network_new c = \<lparr>sn_send = c, sn_request_id = 0\<rparr>"

definition sync_send_event :: "sync_network \<Rightarrow> peer_id \<Rightarrow> p2p_event \<Rightarrow> (string + unit) \<times> sync_network" where
  "sync_send_event net p e =
    (let (ok, c) = try_send (sn_send net) (P2P p e)
     in (if ok then Inr () else Inl ''Network channel send Failed'', net\<lparr>sn_send := c\<rparr>))"

definition sync_send_request ::
  "'z crates_scheme \<Rightarrow> sync_network \<Rightarrow> peer_id \<Rightarrow> p2p_request \<Rightarrow> ((string + request_id) \<times> sync_network) option" where
  "sync_send_request E net p req =
    do { let i = sn_request_id net;
         i' \<leftarrow> uadd (overflow_checks E) i 1;
         let (r, net1) = sync_send_event (net\<lparr>sn_request_id := i'\<rparr>) p (Request i req);
         Some (case r of Inl e \<Rightarrow> Inl e | Inr _ \<Rightarrow> Inr i, net1) }"

definition status_peer ::
  "('kv, 'm, 't, 'r, 'z) chain_env_scheme \<Rightarrow> ('kv, 'm, 'r) block_chain \<Rightarrow> sync_network \<Rightarrow> peer_id \<Rightarrow> sync_network option" where
  "status_peer E bc net p =
    do { r \<leftarrow> status_message_of E bc;
         (case r of
            Some status \<Rightarrow> map_option snd (sync_send_request E net p (QStatus status))
          | None \<Rightarrow> Some net) }"

definition request_by_range ::
  "'z crates_scheme \<Rightarrow> sync_network \<Rightarrow> peer_id \<Rightarrow> blocks_by_range_request \<Rightarrow> ((string + request_id) \<times> sync_network) option" where
  "request_by_range E net p req = sync_send_request E net p (QBlocksByRange req)"

definition request_by_hash ::
  "'z crates_scheme \<Rightarrow> sync_network \<Rightarrow> peer_id \<Rightarrow> blocks_by_root_request \<Rightarrow> ((string + request_id) \<times> sync_network) option" where
  "request_by_hash E net p req = sync_send_request E net p (QBlocksByRoot req)"

definition sync_disconnect ::
  "'z crates_scheme \<Rightarrow> sync_network \<Rightarrow> peer_id \<Rightarrow> goodbye_reason \<Rightarrow> sync_network option" where
  "sync_disconnect E net p reason =
    do { (_, net1) \<leftarrow> sync_send_request E net p (QGoodbye reason);
         Some (net1\<lparr>sn_send := send_or_log (sn_send net1) (Disconnect p)\<rparr>) }"

definition downvote_peer :: "'z crates_scheme \<Rightarrow> sync_network \<Rightarrow> peer_id \<Rightarrow> sync_network option" where
  "downvote_peer E net p = sync_disconnect E net p Fault"

section \<open>Batches\<close>

definition BLOCKS_PER_BATCH :: u64 where "BLOCKS_PER_BATCH = 5"

record batch =
  bt_id :: batch_id
  bt_start_numer :: u64
  bt_end_number :: u64
  bt_head_root :: hash
  bt_original_peer :: peer_id
  bt_current_peer :: peer_id
  bt_retries :: u8
  bt_reprocess_retries :: u8
  bt_original_hash :: "u64 option"
  bt_downloaded_blocks :: "block list"

definition batch_new :: "batch_id \<Rightarrow> u64 \<Rightarrow> u64 \<Rightarrow> hash \<Rightarrow> peer_id \<Rightarrow> batch" where
  "batch_new i start_numer end_number head_root p =
    \<lparr>bt_id = i, bt_start_numer = start_numer, bt_end_number = end_number, bt_head_root = head_root,
     bt_original_peer = p, bt_current_peer = p, bt_retries = 0, bt_reprocess_retries = 0,
     bt_original_hash = None, bt_downloaded_blocks = []\<rparr>"

definition to_blocks_by_range_request :: "'z crates_scheme \<Rightarrow> batch \<Rightarrow> blocks_by_range_request option" where
  "to_blocks_by_range_request E b =
    do { n \<leftarrow> usub (overflow_checks E) (bt_end_number b) (bt_start_numer b);
         Some \<lparr>br_head_block_root = bt_head_root b, br_start_slot = bt_start_numer b,
               br_count = min BLOCKS_PER_BATCH n, br_step = 1\<rparr> }"

definition batch_cmp :: "batch \<Rightarrow> batch \<Rightarrow> ordering" where
  "batch_cmp a b = ord_cmp (batch_num (bt_id a)) (batch_num (bt_id b))"

text \<open>
  What the download takes from outside: the hash of the standard library over the encoded blocks, and the shuffling of
  the peers by the generator of the thread, of which \<open>n\<close> counts the uses.
\<close>

record sync_env =
  blocks_hash :: "block list \<Rightarrow> u64"
  shuffle_peers :: "nat \<Rightarrow> peer_id list \<Rightarrow> peer_id list"

definition batch_hash :: "sync_env \<Rightarrow> batch \<Rightarrow> u64" where
  "batch_hash S b = blocks_hash S (bt_downloaded_blocks b)"

section \<open>Pending batches\<close>

record pending_batches =
  pb_batches :: "(request_id \<times> batch) list"
  pb_peer_requests :: "(peer_id \<times> request_id list) list"

definition pending_new :: pending_batches where
  "pending_new = \<lparr>pb_batches = [], pb_peer_requests = []\<rparr>"

definition pending_insert :: "pending_batches \<Rightarrow> request_id \<Rightarrow> batch \<Rightarrow> batch option \<times> pending_batches" where
  "pending_insert pb i b =
    (let p = bt_current_peer b;
         ids = (case map_of (pb_peer_requests pb) p of Some ids \<Rightarrow> ids | None \<Rightarrow> [])
     in (map_of (pb_batches pb) i,
         \<lparr>pb_batches = AList.update i b (pb_batches pb),
          pb_peer_requests = AList.update p (set_insert i ids) (pb_peer_requests pb)\<rparr>))"

definition pending_remove :: "pending_batches \<Rightarrow> request_id \<Rightarrow> batch option \<times> pending_batches" where
  "pending_remove pb i =
    (case map_of (pb_batches pb) i of
       None \<Rightarrow> (None, pb)
     | Some b \<Rightarrow>
        (let pb1 = pb\<lparr>pb_batches := AList.delete i (pb_batches pb)\<rparr>; p = bt_current_peer b
         in (Some b,
             case map_of (pb_peer_requests pb1) p of
               None \<Rightarrow> pb1
             | Some ids \<Rightarrow>
                 (let ids' = set_remove i ids
                  in pb1\<lparr>pb_peer_requests := (if ids' = [] then AList.delete p (pb_peer_requests pb1)
                                             else AList.update p ids' (pb_peer_requests pb1))\<rparr>))))"

definition pending_len :: "pending_batches \<Rightarrow> nat" where
  "pending_len pb = length (pb_batches pb)"

definition pending_add_block :: "pending_batches \<Rightarrow> request_id \<Rightarrow> block \<Rightarrow> unit option \<times> pending_batches" where
  "pending_add_block pb i b =
    (case map_of (pb_batches pb) i of
       None \<Rightarrow> (None, pb)
     | Some bt \<Rightarrow>
        (Some (), pb\<lparr>pb_batches := AList.update i
           (bt\<lparr>bt_downloaded_blocks := bt_downloaded_blocks bt @ [b]\<rparr>) (pb_batches pb)\<rparr>))"

definition peer_is_idle :: "pending_batches \<Rightarrow> peer_id \<Rightarrow> bool" where
  "peer_is_idle pb p \<longleftrightarrow> map_of (pb_peer_requests pb) p = None"

definition remove_batch_by_peer :: "pending_batches \<Rightarrow> peer_id \<Rightarrow> batch option \<times> pending_batches" where
  "remove_batch_by_peer pb p =
    (case map_of (pb_peer_requests pb) p of
       Some (i # ids) \<Rightarrow> pending_remove pb i
     | _ \<Rightarrow> (None, pb))"

section \<open>The block processor\<close>

fun process_blocks ::
  "('kv, 'm, 't, 'r, 'z) chain_env_scheme \<Rightarrow> ('kv, 'm, 'r) block_chain \<Rightarrow> block list
     \<Rightarrow> ((string + unit) \<times> ('kv, 'm, 'r) block_chain) option" where
  "process_blocks E bc [] = Some (Inr (), bc)"
| "process_blocks E bc (b # bs) =
    do { (r, bc') \<leftarrow> import_block E bc b;
         (case r of Inr _ \<Rightarrow> process_blocks E bc' bs | Inl e \<Rightarrow> Some (Inr (), bc')) }"

text \<open>The thread that \<^verbatim>\<open>spawn_block_processor\<close> starts: the message it reports with, and the chain it leaves.\<close>

definition run_block_processor ::
  "('kv, 'm, 't, 'r, 'z) chain_env_scheme \<Rightarrow> ('kv, 'm, 'r) block_chain \<Rightarrow> batch_id \<times> block list
     \<Rightarrow> (sync_message \<times> ('kv, 'm, 'r) block_chain) option" where
  "run_block_processor E bc = (\<lambda>(i, blocks).
    do { _ \<leftarrow> current_block E bc;
         (r, bc') \<leftarrow> process_blocks E bc blocks;
         Some (BatchProcessed i blocks (case r of Inr _ \<Rightarrow> BatchSuccess | Inl _ \<Rightarrow> BatchFailed), bc') })"

section \<open>The table of pending batches is consistent\<close>

text \<open>
  Every peer that has a pending request has exactly one, and the table of peers lists exactly these requests.
\<close>

definition listed :: "(request_id \<rightharpoonup> batch) \<Rightarrow> (peer_id \<rightharpoonup> request_id list) \<Rightarrow> bool" where
  "listed m r \<longleftrightarrow> (\<forall>i b. m i = Some b \<longrightarrow> r (bt_current_peer b) = Some [i]) \<and>
    (\<forall>p ids. r p = Some ids \<longrightarrow> (\<exists>i b. ids = [i] \<and> m i = Some b \<and> bt_current_peer b = p))"

definition pending_ok :: "pending_batches \<Rightarrow> bool" where
  "pending_ok pb \<longleftrightarrow> keys_distinct (pb_batches pb) \<and> listed (map_of (pb_batches pb)) (map_of (pb_peer_requests pb))"

lemma pending_new_ok [simp]: "pending_ok pending_new"
  by (simp add: pending_ok_def pending_new_def listed_def)

lemma listedD:
  assumes "listed m r"
  shows "m i = Some b \<Longrightarrow> r (bt_current_peer b) = Some [i]"
    and "r p = Some ids \<Longrightarrow> \<exists>i b. ids = [i] \<and> m i = Some b \<and> bt_current_peer b = p"
  using assms by (simp_all add: listed_def)

lemma listed_insert:
  assumes "listed m r" "m i = None" "r (bt_current_peer b) = None"
  shows "listed (m(i \<mapsto> b)) (r(bt_current_peer b \<mapsto> [i]))"
  unfolding listed_def
proof (intro conjI allI impI)
  fix j c assume "(m(i \<mapsto> b)) j = Some c"
  then show "(r(bt_current_peer b \<mapsto> [i])) (bt_current_peer c) = Some [j]"
    using listedD(1) [OF assms(1), of j c] assms(3) by (cases "j = i") auto
next
  fix p ids assume "(r(bt_current_peer b \<mapsto> [i])) p = Some ids"
  then show "\<exists>k c. ids = [k] \<and> (m(i \<mapsto> b)) k = Some c \<and> bt_current_peer c = p"
  proof (cases "p = bt_current_peer b")
    case False
    then have "r p = Some ids" using \<open>(r(bt_current_peer b \<mapsto> [i])) p = Some ids\<close> by simp
    then obtain k c where "ids = [k]" "m k = Some c" "bt_current_peer c = p" using listedD(2) [OF assms(1)] by blast
    moreover from this have "k \<noteq> i" using assms(2) by auto
    ultimately show ?thesis by simp
  qed auto
qed

lemma listed_remove:
  assumes "listed m r" "m i = Some b"
  shows "listed (m(i := None)) (r(bt_current_peer b := None))"
  unfolding listed_def
proof (intro conjI allI impI)
  fix j c assume "(m(i := None)) j = Some c"
  then have j: "j \<noteq> i" "m j = Some c" by (auto split: if_splits)
  then have "bt_current_peer c \<noteq> bt_current_peer b"
    using listedD(1) [OF assms(1)] assms(2) by (metis list.inject option.inject)
  then show "(r(bt_current_peer b := None)) (bt_current_peer c) = Some [j]"
    using listedD(1) [OF assms(1) j(2)] by simp
next
  fix p ids assume "(r(bt_current_peer b := None)) p = Some ids"
  then have p: "p \<noteq> bt_current_peer b" "r p = Some ids" by (auto split: if_splits)
  obtain k c where "ids = [k]" "m k = Some c" "bt_current_peer c = p" using listedD(2) [OF assms(1) p(2)] by blast
  moreover from this have "k \<noteq> i" using assms(2) p(1) by auto
  ultimately show "\<exists>k c. ids = [k] \<and> (m(i := None)) k = Some c \<and> bt_current_peer c = p" by simp
qed

lemma listed_update:
  assumes "listed m r" "m i = Some b" "bt_current_peer b' = bt_current_peer b"
  shows "listed (m(i \<mapsto> b')) r"
  unfolding listed_def
proof (intro conjI allI impI)
  fix j c assume "(m(i \<mapsto> b')) j = Some c"
  then show "r (bt_current_peer c) = Some [j]"
    using listedD(1) [OF assms(1), of j c] listedD(1) [OF assms(1,2)] assms(3) by (cases "j = i") auto
next
  fix p ids assume "r p = Some ids"
  then obtain k c where "ids = [k]" "m k = Some c" "bt_current_peer c = p" using listedD(2) [OF assms(1)] by blast
  then show "\<exists>k c. ids = [k] \<and> (m(i \<mapsto> b')) k = Some c \<and> bt_current_peer c = p"
    using assms(2,3) by (cases "k = i") auto
qed

lemma pending_insert_ok:
  assumes "pending_ok pb" "map_of (pb_batches pb) i = None" "peer_is_idle pb (bt_current_peer b)"
  shows "pending_ok (snd (pending_insert pb i b))"
    and "map_of (pb_batches (snd (pending_insert pb i b))) = (map_of (pb_batches pb))(i \<mapsto> b)"
    and "pending_len (snd (pending_insert pb i b)) = pending_len pb + 1"
  using assms listed_insert
  by (simp_all add: pending_insert_def Let_def pending_ok_def peer_is_idle_def pending_len_def length_update set_insert_def)

lemma pending_remove_ok:
  assumes "pending_ok pb" "map_of (pb_batches pb) i = Some b"
  shows "fst (pending_remove pb i) = Some b" "pending_ok (snd (pending_remove pb i))"
    and "map_of (pb_batches (snd (pending_remove pb i))) = (map_of (pb_batches pb))(i := None)"
    and "pending_len (snd (pending_remove pb i)) = pending_len pb - 1"
    and "peer_is_idle (snd (pending_remove pb i)) (bt_current_peer b)"
proof -
  have k: "keys_distinct (pb_batches pb)" and l: "listed (map_of (pb_batches pb)) (map_of (pb_peer_requests pb))"
    using assms(1) by (simp_all add: pending_ok_def)
  have "map_of (pb_peer_requests pb) (bt_current_peer b) = Some [i]"
    using l assms(2) unfolding listed_def by blast
  then have r: "pending_remove pb i = (Some b, \<lparr>pb_batches = AList.delete i (pb_batches pb),
      pb_peer_requests = AList.delete (bt_current_peer b) (pb_peer_requests pb)\<rparr>)"
    using assms(2) by (simp add: pending_remove_def Let_def set_remove_def)
  show "fst (pending_remove pb i) = Some b" "pending_ok (snd (pending_remove pb i))"
    "map_of (pb_batches (snd (pending_remove pb i))) = (map_of (pb_batches pb))(i := None)"
    "pending_len (snd (pending_remove pb i)) = pending_len pb - 1"
    "peer_is_idle (snd (pending_remove pb i)) (bt_current_peer b)"
    unfolding r using k listed_remove [OF l assms(2)] length_delete [OF k assms(2)]
    by (simp_all add: pending_ok_def pending_len_def peer_is_idle_def)
qed

lemma pending_remove_absent: "map_of (pb_batches pb) i = None \<Longrightarrow> pending_remove pb i = (None, pb)"
  by (simp add: pending_remove_def)

lemma pending_add_block_ok:
  assumes "pending_ok pb" "map_of (pb_batches pb) i = Some bt"
  shows "pending_add_block pb i b = (Some (), snd (pending_add_block pb i b))" "pending_ok (snd (pending_add_block pb i b))"
    and "map_of (pb_batches (snd (pending_add_block pb i b))) =
      (map_of (pb_batches pb))(i \<mapsto> bt\<lparr>bt_downloaded_blocks := bt_downloaded_blocks bt @ [b]\<rparr>)"
    and "pending_len (snd (pending_add_block pb i b)) = pending_len pb"
proof -
  have k: "keys_distinct (pb_batches pb)" and l: "listed (map_of (pb_batches pb)) (map_of (pb_peer_requests pb))"
    using assms(1) by (simp_all add: pending_ok_def)
  let ?bt = "bt\<lparr>bt_downloaded_blocks := bt_downloaded_blocks bt @ [b]\<rparr>"
  have "length (AList.update i ?bt (pb_batches pb)) = length (pb_batches pb)"
    using k assms(2) by (simp add: length_keys insert_absorb domI)
  with k listed_update [OF l assms(2), of ?bt] assms(2)
  show "pending_add_block pb i b = (Some (), snd (pending_add_block pb i b))" "pending_ok (snd (pending_add_block pb i b))"
    "map_of (pb_batches (snd (pending_add_block pb i b))) = (map_of (pb_batches pb))(i \<mapsto> ?bt)"
    "pending_len (snd (pending_add_block pb i b)) = pending_len pb"
    by (simp_all add: pending_add_block_def pending_ok_def pending_len_def)
qed

end
