(* ===== verification/Range_Sync.thy ===== *)
theory Range_Sync
  imports Batches
begin

text \<open>
  The download of a range of blocks from several peers: the chain that is downloaded
  (\<^verbatim>\<open>network/src/sync/range_sync/chain.rs\<close>) and its driver (\<^verbatim>\<open>network/src/sync/range_sync/range.rs\<close>). A batch that
  is handed to the block processor is a task in \<open>sc_spawned\<close> until its thread runs.
\<close>

section \<open>State\<close>

definition BATCH_BUFFER_SIZE :: u8 where "BATCH_BUFFER_SIZE = 5"
definition INVALID_BATCH_LOOKUP_ATTEMPTS :: u8 where "INVALID_BATCH_LOOKUP_ATTEMPTS = 3"

datatype processing_result = KeepChain | RemoveChain

datatype chain_syncing_state = ChainStopped | ChainSyncing

record syncing_chain =
  sc_start_numer :: u64
  sc_target_head_slot :: u64
  sc_target_head_root :: hash
  sc_pending_batches :: pending_batches
  sc_completed_batches :: "batch list"
  sc_processed_batches :: "batch list"
  sc_peer_pool :: "peer_id list"
  sc_to_be_downloaded_id :: batch_id
  sc_to_be_processed_id :: batch_id
  sc_state :: chain_syncing_state
  sc_current_processing_batch :: "batch option"
  sc_spawned :: "(batch_id \<times> block list) list"
  sc_draws :: nat

definition syncing_chain_new :: "u64 \<Rightarrow> u64 \<Rightarrow> hash \<Rightarrow> syncing_chain" where
  "syncing_chain_new start_numer target_slot target_root =
    \<lparr>sc_start_numer = start_numer, sc_target_head_slot = target_slot, sc_target_head_root = target_root,
     sc_pending_batches = pending_new, sc_completed_batches = [], sc_processed_batches = [], sc_peer_pool = [],
     sc_to_be_downloaded_id = BatchId 1, sc_to_be_processed_id = BatchId 1, sc_state = ChainStopped,
     sc_current_processing_batch = None, sc_spawned = [], sc_draws = 0\<rparr>"

definition current_processed_slot :: "'z crates_scheme \<Rightarrow> syncing_chain \<Rightarrow> u64 option" where
  "current_processed_slot E sc =
    do { n \<leftarrow> umul (overflow_checks E) (sat_sub (batch_num (sc_to_be_processed_id sc)) 1) BLOCKS_PER_BATCH;
         Some (sat_add (sc_start_numer sc) n) }"

section \<open>Requesting batches\<close>

definition get_next_peer :: "sync_env \<Rightarrow> syncing_chain \<Rightarrow> peer_id option \<times> syncing_chain" where
  "get_next_peer S sc =
    (find (peer_is_idle (sc_pending_batches sc)) (shuffle_peers S (sc_draws sc) (sc_peer_pool sc)),
     sc\<lparr>sc_draws := sc_draws sc + 1\<rparr>)"

definition get_next_batch :: "'z crates_scheme \<Rightarrow> syncing_chain \<Rightarrow> peer_id \<Rightarrow> (batch option \<times> syncing_chain) option" where
  "get_next_batch E sc p =
    (if unat BATCH_BUFFER_SIZE < length (sc_completed_batches sc) + pending_len (sc_pending_batches sc) then Some (None, sc)
     else do {
       n \<leftarrow> umul (overflow_checks E) (sat_sub (batch_num (sc_to_be_downloaded_id sc)) 1) BLOCKS_PER_BATCH;
       before \<leftarrow> uadd (overflow_checks E) (sc_start_numer sc) n;
       batch_start \<leftarrow> uadd (overflow_checks E) before 1;
       if sc_target_head_slot sc < batch_start then Some (None, sc)
       else do {
         batch_full \<leftarrow> uadd (overflow_checks E) batch_start BLOCKS_PER_BATCH;
         let batch_end = min batch_full (sat_add (sc_target_head_slot sc) 1);
         let i = sc_to_be_downloaded_id sc;
         let max_completed = (if sc_completed_batches sc = [] then 0 else batch_num (bt_id (last (sc_completed_batches sc))));
         i1 \<leftarrow> uadd (overflow_checks E) (batch_num i) 1;
         i2 \<leftarrow> uadd (overflow_checks E) max_completed 1;
         Some (Some (batch_new i batch_start batch_end (sc_target_head_root sc) p),
               sc\<lparr>sc_to_be_downloaded_id := BatchId (max i1 i2)\<rparr>) } })"

definition send_batch :: "'z crates_scheme \<Rightarrow> sync_network \<times> syncing_chain \<Rightarrow> batch \<Rightarrow> (sync_network \<times> syncing_chain) option" where
  "send_batch E = (\<lambda>(net, sc) b.
    do { req \<leftarrow> to_blocks_by_range_request E b;
         (r, net1) \<leftarrow> request_by_range E net (bt_current_peer b) req;
         Some (net1, case r of
                       Inr i \<Rightarrow> sc\<lparr>sc_pending_batches := snd (pending_insert (sc_pending_batches sc) i b)\<rparr>
                     | Inl e \<Rightarrow> sc) })"

definition send_range_request ::
  "'z crates_scheme \<Rightarrow> sync_env \<Rightarrow> sync_network \<times> syncing_chain \<Rightarrow> (bool \<times> sync_network \<times> syncing_chain) option" where
  "send_range_request E S = (\<lambda>(net, sc).
    (case get_next_peer S sc of
       (None, sc1) \<Rightarrow> Some (False, net, sc1)
     | (Some p, sc1) \<Rightarrow> do {
         (r, sc2) \<leftarrow> get_next_batch E sc1 p;
         (case r of
            None \<Rightarrow> Some (False, net, sc2)
          | Some b \<Rightarrow> do { (net1, sc3) \<leftarrow> send_batch E (net, sc2) b; Some (True, net1, sc3) }) }))"

partial_function (option) request_loop ::
  "'z crates_scheme \<Rightarrow> sync_env \<Rightarrow> sync_network \<times> syncing_chain \<Rightarrow> (sync_network \<times> syncing_chain) option option" where
  "request_loop E S st =
    (case send_range_request E S st of
       None \<Rightarrow> Some None
     | Some r \<Rightarrow> (case r of (again, st') \<Rightarrow> if again then request_loop E S st' else Some (Some st')))"

definition request_batches ::
  "'z crates_scheme \<Rightarrow> sync_env \<Rightarrow> sync_network \<times> syncing_chain \<Rightarrow> (sync_network \<times> syncing_chain) option option" where
  "request_batches E S st = (if sc_state (snd st) = ChainSyncing then request_loop E S st else Some (Some st))"

section \<open>Processing batches\<close>

definition process_batch :: "syncing_chain \<Rightarrow> batch \<Rightarrow> syncing_chain" where
  "process_batch sc b =
    sc\<lparr>sc_current_processing_batch := Some (b\<lparr>bt_downloaded_blocks := []\<rparr>),
       sc_spawned := sc_spawned sc @ [(bt_id b, bt_downloaded_blocks b)]\<rparr>"

definition process_completed_batches :: "syncing_chain \<Rightarrow> syncing_chain" where
  "process_completed_batches sc =
    (if sc_state sc \<noteq> ChainSyncing then sc
     else if sc_current_processing_batch sc \<noteq> None then sc
     else (case sc_completed_batches sc of
             b # bs \<Rightarrow> if bt_id b = sc_to_be_processed_id sc
                       then process_batch (sc\<lparr>sc_completed_batches := bs\<rparr>) b else sc
           | [] \<Rightarrow> sc))"

definition handle_completed_batch ::
  "'z crates_scheme \<Rightarrow> sync_env \<Rightarrow> sync_network \<times> syncing_chain \<Rightarrow> batch \<Rightarrow> (sync_network \<times> syncing_chain) option option" where
  "handle_completed_batch E S = (\<lambda>(net, sc) b.
    let blocks = bt_downloaded_blocks b in
    if blocks \<noteq> [] \<and> (block_height (hd blocks) < bt_start_numer b \<or> bt_end_number b < block_height (last blocks))
    then run_bind (Some (downvote_peer E net (bt_current_peer b))) (\<lambda>net1.
      Some (Some (net1, sc\<lparr>sc_to_be_processed_id := bt_id b\<rparr>)))
    else
      let index = (case binary_search_by (\<lambda>c. batch_cmp c b) (sc_completed_batches sc) of Inr i \<Rightarrow> i | Inl i \<Rightarrow> i);
          sc1 = sc\<lparr>sc_completed_batches := take index (sc_completed_batches sc) @ b # drop index (sc_completed_batches sc)\<rparr>
      in run_bind (request_batches E S (net, sc1)) (\<lambda>(net2, sc2). Some (Some (net2, process_completed_batches sc2))))"

definition on_block_response ::
  "'z crates_scheme \<Rightarrow> sync_env \<Rightarrow> sync_network \<times> syncing_chain \<Rightarrow> request_id \<Rightarrow> block option
     \<Rightarrow> (unit option \<times> sync_network \<times> syncing_chain) option option" where
  "on_block_response E S = (\<lambda>(net, sc) i blk.
    (case blk of
       Some b \<Rightarrow> (let (r, pb) = pending_add_block (sc_pending_batches sc) i b
                  in Some (Some (r, net, sc\<lparr>sc_pending_batches := pb\<rparr>)))
     | None \<Rightarrow>
        (case pending_remove (sc_pending_batches sc) i of
           (None, pb) \<Rightarrow> Some (Some (None, net, sc\<lparr>sc_pending_batches := pb\<rparr>))
         | (Some b, pb) \<Rightarrow>
             run_bind (handle_completed_batch E S (net, sc\<lparr>sc_pending_batches := pb\<rparr>) b) (\<lambda>st.
               Some (Some (Some (), st))))))"

text \<open>The loop over the batches that wait for validation: the peer of a corrected batch is voted down.\<close>

fun validate_processed :: "'z crates_scheme \<Rightarrow> sync_env \<Rightarrow> sync_network \<Rightarrow> batch list \<Rightarrow> sync_network option" where
  "validate_processed E S net [] = Some net"
| "validate_processed E S net (b # bs) =
    do { net1 \<leftarrow> (case bt_original_hash b of
                     Some prev_hash \<Rightarrow>
                       if prev_hash \<noteq> batch_hash S b \<and> bt_current_peer b \<noteq> bt_original_peer b
                       then downvote_peer E net (bt_original_peer b) else Some net
                   | None \<Rightarrow> Some net);
         validate_processed E S net1 bs }"

fun downvote_all :: "'z crates_scheme \<Rightarrow> sync_network \<Rightarrow> peer_id list \<Rightarrow> sync_network option" where
  "downvote_all E net [] = Some net"
| "downvote_all E net (p # ps) = do { net1 \<leftarrow> downvote_peer E net p; downvote_all E net1 ps }"

text \<open>The branch \<^verbatim>\<open>BatchProcessResult::Success\<close> of \<^verbatim>\<open>on_batch_process_result\<close>, for the batch with its blocks.\<close>

definition batch_succeeded ::
  "'z crates_scheme \<Rightarrow> sync_env \<Rightarrow> sync_network \<times> syncing_chain \<Rightarrow> batch
     \<Rightarrow> (processing_result \<times> sync_network \<times> syncing_chain) option option" where
  "batch_succeeded E S = (\<lambda>(net, sc) b.
    let blocks = bt_downloaded_blocks b in
    run_bind (Some (uadd (overflow_checks E) (batch_num (sc_to_be_processed_id sc)) 1)) (\<lambda>i.
    run_bind (Some (if blocks \<noteq> [] then validate_processed E S net (sc_processed_batches sc) else Some net)) (\<lambda>net1.
    let waiting = (if blocks \<noteq> [] then [] else sc_processed_batches sc);
        whole = (if blocks = [] then None else Some (block_height (last blocks))) = Some (sat_sub (bt_end_number b) 1);
        sc1 = sc\<lparr>sc_to_be_processed_id := BatchId i, sc_processed_batches := (if whole then waiting else waiting @ [b])\<rparr>
    in run_bind (Some (current_processed_slot E sc1)) (\<lambda>slot.
       if sc_target_head_slot sc1 \<le> slot then Some (Some (RemoveChain, net1, sc1))
       else run_bind (request_batches E S (net1, sc1)) (\<lambda>(net2, sc2).
         Some (Some (KeepChain, net2, process_completed_batches sc2)))))))"

definition batch_failed ::
  "'z crates_scheme \<Rightarrow> sync_network \<times> syncing_chain \<Rightarrow> batch \<Rightarrow> (processing_result \<times> sync_network \<times> syncing_chain) option" where
  "batch_failed E = (\<lambda>(net, sc) b.
    if INVALID_BATCH_LOOKUP_ATTEMPTS < bt_reprocess_retries b
    then do { net1 \<leftarrow> downvote_all E net (sc_peer_pool sc); Some (RemoveChain, net1, sc\<lparr>sc_peer_pool := []\<rparr>) }
    else Some (KeepChain, net, sc))"

definition on_batch_process_result ::
  "'z crates_scheme \<Rightarrow> sync_env \<Rightarrow> sync_network \<times> syncing_chain \<Rightarrow> batch_id \<Rightarrow> block list option \<Rightarrow> batch_process_result
     \<Rightarrow> (processing_result option \<times> block list option \<times> sync_network \<times> syncing_chain) option option" where
  "on_batch_process_result E S = (\<lambda>(net, sc) i downloaded result.
    (case sc_current_processing_batch sc of
       None \<Rightarrow> Some (Some (None, downloaded, net, sc))
     | Some current \<Rightarrow>
         if bt_id current \<noteq> i then Some (Some (None, downloaded, net, sc))
         else (case downloaded of
           None \<Rightarrow> Some (Some (None, None, net, sc\<lparr>sc_current_processing_batch := None\<rparr>))
         | Some blocks \<Rightarrow>
             let sc1 = sc\<lparr>sc_current_processing_batch := None\<rparr>;
                 b = current\<lparr>bt_downloaded_blocks := blocks\<rparr>
             in run_bind (case result of
                            BatchSuccess \<Rightarrow> batch_succeeded E S (net, sc1) b
                          | BatchFailed \<Rightarrow> Some (batch_failed E (net, sc1) b))
                  (\<lambda>(res, st). Some (Some (Some res, None, st))))))"

section \<open>Peers\<close>

definition chain_add_peer ::
  "'z crates_scheme \<Rightarrow> sync_env \<Rightarrow> sync_network \<times> syncing_chain \<Rightarrow> peer_id \<Rightarrow> (sync_network \<times> syncing_chain) option option" where
  "chain_add_peer E S = (\<lambda>(net, sc) p.
    let sc1 = sc\<lparr>sc_peer_pool := set_insert p (sc_peer_pool sc)\<rparr> in
    if sc_state sc1 = ChainStopped then Some (Some (net, sc1)) else request_batches E S (net, sc1))"

definition start_syncing ::
  "'z crates_scheme \<Rightarrow> sync_env \<Rightarrow> sync_network \<times> syncing_chain \<Rightarrow> u64 \<Rightarrow> (sync_network \<times> syncing_chain) option option" where
  "start_syncing E S = (\<lambda>(net, sc) local_finalized_number.
    run_bind (Some (current_processed_slot E sc)) (\<lambda>slot.
    let sc1 = (if slot < local_finalized_number
               then sc\<lparr>sc_to_be_downloaded_id := BatchId 1, sc_to_be_processed_id := BatchId 1,
                       sc_completed_batches := [], sc_processed_batches := []\<rparr>
               else sc);
        sc2 = process_completed_batches (sc1\<lparr>sc_state := ChainSyncing\<rparr>)
    in request_batches E S (net, sc2)))"

fun status_peers ::
  "('kv, 'm, 't, 'r, 'z) chain_env_scheme \<Rightarrow> ('kv, 'm, 'r) block_chain \<Rightarrow> sync_network \<Rightarrow> peer_id list \<Rightarrow> sync_network option" where
  "status_peers E bc net [] = Some net"
| "status_peers E bc net (p # ps) = do { net1 \<leftarrow> status_peer E bc net p; status_peers E bc net1 ps }"

section \<open>The driver\<close>

record range_sync =
  rs_chains :: syncing_chain
  rs_awaiting_head_peers :: "peer_id list"

definition range_sync_new ::
  "('kv, 'm, 't, 'r, 'z) chain_env_scheme \<Rightarrow> ('kv, 'm, 'r) block_chain \<Rightarrow> range_sync option" where
  "range_sync_new E bc =
    do { b \<leftarrow> current_block E bc;
         Some \<lparr>rs_chains = syncing_chain_new (block_height b) 0 (Hash (replicate 32 0)), rs_awaiting_head_peers = []\<rparr> }"

definition remove_peer :: "sync_network \<times> range_sync \<Rightarrow> peer_id \<Rightarrow> sync_network \<times> range_sync" where
  "remove_peer st p = st"

definition on_chain ::
  "sync_network \<times> range_sync \<Rightarrow> (sync_network \<times> syncing_chain) option option \<Rightarrow> (sync_network \<times> range_sync) option option" where
  "on_chain st m = run_bind m (\<lambda>(net, sc). Some (Some (net, (snd st)\<lparr>rs_chains := sc\<rparr>)))"

definition range_add_peer ::
  "('kv, 'm, 't, 'r, 'z) chain_env_scheme \<Rightarrow> sync_env \<Rightarrow> ('kv, 'm, 'r) block_chain \<Rightarrow> sync_network \<times> range_sync \<Rightarrow> peer_id
     \<Rightarrow> peer_sync_info \<Rightarrow> (sync_network \<times> range_sync) option option" where
  "range_add_peer E S bc st p remote =
    (let (net, rs) = remove_peer st p;
         sc = (rs_chains rs)\<lparr>sc_target_head_slot := pi_finalized_number remote, sc_target_head_root := pi_finalized_root remote\<rparr>
     in on_chain (net, rs)
          (run_bind (chain_add_peer E S (net, sc) p) (\<lambda>st1.
           run_bind (Some (current_block E bc)) (\<lambda>head.
           start_syncing E S st1 (block_height head)))))"

definition range_blocks_response ::
  "'z crates_scheme \<Rightarrow> sync_env \<Rightarrow> sync_network \<times> range_sync \<Rightarrow> peer_id \<Rightarrow> request_id \<Rightarrow> block option
     \<Rightarrow> (sync_network \<times> range_sync) option option" where
  "range_blocks_response E S st p i blk =
    on_chain st (run_bind (on_block_response E S (fst st, rs_chains (snd st)) i blk) (\<lambda>(r, st1). Some (Some st1)))"

definition handle_block_process_result ::
  "('kv, 'm, 't, 'r, 'z) chain_env_scheme \<Rightarrow> sync_env \<Rightarrow> ('kv, 'm, 'r) block_chain \<Rightarrow> sync_network \<times> range_sync \<Rightarrow> batch_id
     \<Rightarrow> block list \<Rightarrow> batch_process_result \<Rightarrow> (sync_network \<times> range_sync) option option" where
  "handle_block_process_result E S bc st i blocks result =
    on_chain st
     (run_bind (on_batch_process_result E S (fst st, rs_chains (snd st)) i (Some blocks) result)
       (\<lambda>(res, downloaded, net, sc).
         case res of
           Some RemoveChain \<Rightarrow>
             run_bind (Some (status_peers E bc net (sc_peer_pool sc))) (\<lambda>net1. Some (Some (net1, sc\<lparr>sc_state := ChainStopped\<rparr>)))
         | Some KeepChain \<Rightarrow> Some (Some (net, sc))
         | None \<Rightarrow> run_bind (on_batch_process_result E S (net, sc) i downloaded result)
                     (\<lambda>(res', downloaded', st'). Some (Some st'))))"

definition is_syncing :: "range_sync \<Rightarrow> bool" where
  "is_syncing rs \<longleftrightarrow> sc_state (rs_chains rs) = ChainSyncing"

definition update_finalized ::
  "('kv, 'm, 't, 'r, 'z) chain_env_scheme \<Rightarrow> sync_env \<Rightarrow> ('kv, 'm, 'r) block_chain \<Rightarrow> sync_network \<times> range_sync \<Rightarrow> block
     \<Rightarrow> (sync_network \<times> range_sync) option option" where
  "update_finalized E S bc st b =
    (if sc_state (rs_chains (snd st)) = ChainSyncing then Some (Some st)
     else run_bind (Some (current_block E bc)) (\<lambda>head.
       on_chain st (start_syncing E S
         (fst st, (rs_chains (snd st))\<lparr>sc_target_head_slot := block_height b, sc_target_head_root := block_hash E b\<rparr>)
         (block_height head))))"

definition range_peer_disconnect :: "sync_network \<times> range_sync \<Rightarrow> peer_id \<Rightarrow> sync_network \<times> range_sync" where
  "range_peer_disconnect = (\<lambda>(net, rs) p.
    remove_peer (net, rs\<lparr>rs_awaiting_head_peers := set_remove p (rs_awaiting_head_peers rs)\<rparr>) p)"

section \<open>Invariant of the download\<close>

text \<open>A batch holds one to five heights, and its number tells where it starts.\<close>

definition batch_ok :: "u64 \<Rightarrow> batch \<Rightarrow> bool" where
  "batch_ok start_numer b \<longleftrightarrow> 1 \<le> unat (batch_num (bt_id b)) \<and>
    unat (bt_start_numer b) = unat start_numer + (unat (batch_num (bt_id b)) - 1) * 5 + 1 \<and>
    unat (bt_start_numer b) < unat (bt_end_number b) \<and> unat (bt_end_number b) \<le> unat (bt_start_numer b) + 5"

lemma batch_ok_blocks [simp]: "batch_ok s (b\<lparr>bt_downloaded_blocks := bs\<rparr>) = batch_ok s b"
  by (simp add: batch_ok_def)

text \<open>
  The table of pending batches is consistent and its requests are older than the next one, batches are in range and the
  completed ones sorted, together at most one more than the buffer holds, and at most one batch is on its way
  through the block processor: as a task, or as one of the \<open>reports\<close> that wait in the channel.
\<close>

definition sync_ok :: "batch_id list \<Rightarrow> sync_network \<times> syncing_chain \<Rightarrow> bool" where
  "sync_ok reports = (\<lambda>(net, sc).
    pending_ok (sc_pending_batches sc) \<and>
    (\<forall>i b. map_of (pb_batches (sc_pending_batches sc)) i = Some b \<longrightarrow>
       batch_ok (sc_start_numer sc) b \<and> unat i < unat (sn_request_id net)) \<and>
    (\<forall>b \<in> set (sc_completed_batches sc). batch_ok (sc_start_numer sc) b) \<and>
    sorted (map (\<lambda>b. batch_num (bt_id b)) (sc_completed_batches sc)) \<and>
    length (sc_completed_batches sc) + pending_len (sc_pending_batches sc) \<le> 6 \<and>
    1 \<le> unat (batch_num (sc_to_be_downloaded_id sc)) \<and>
    map fst (sc_spawned sc) @ reports =
      (case sc_current_processing_batch sc of None \<Rightarrow> [] | Some b \<Rightarrow> [bt_id b]))"

lemma sync_okD:
  assumes "sync_ok reports (net, sc)"
  shows "pending_ok (sc_pending_batches sc)"
    and "map_of (pb_batches (sc_pending_batches sc)) i = Some b \<Longrightarrow> batch_ok (sc_start_numer sc) b"
    and "map_of (pb_batches (sc_pending_batches sc)) i = Some b \<Longrightarrow> unat i < unat (sn_request_id net)"
  using assms by (auto simp: sync_ok_def)

lemma sync_send_requestE:
  assumes "sync_send_request E net p req = Some (r, net')" "overflow_checks E"
  shows "unat (sn_request_id net') = unat (sn_request_id net) + 1" "r = Inr i \<Longrightarrow> i = sn_request_id net"
  using assms
  by (auto simp: sync_send_request_def sync_send_event_def Let_def split: bind_splits prod.splits if_splits
      dest!: uadd_checked_SomeD(1))

lemma downvote_peer_id:
  "\<lbrakk>downvote_peer E net p = Some net'; overflow_checks E\<rbrakk> \<Longrightarrow> unat (sn_request_id net') = unat (sn_request_id net) + 1"
  by (auto simp: downvote_peer_def sync_disconnect_def dest: sync_send_requestE(1) split: bind_splits)

lemma sync_ok_network:
  "\<lbrakk>sync_ok reports (net, sc); unat (sn_request_id net) \<le> unat (sn_request_id net')\<rbrakk> \<Longrightarrow> sync_ok reports (net', sc)"
  unfolding sync_ok_def by (force intro: less_le_trans)

lemma get_next_batchE:
  assumes "get_next_batch E sc p = Some (r, sc')" "overflow_checks E" "1 \<le> unat (batch_num (sc_to_be_downloaded_id sc))"
  shows "case r of
      None \<Rightarrow> sc' = sc
    | Some b \<Rightarrow> batch_ok (sc_start_numer sc) b \<and> bt_current_peer b = p \<and>
        length (sc_completed_batches sc) + pending_len (sc_pending_batches sc) \<le> 5 \<and>
        (\<exists>i. sc' = sc\<lparr>sc_to_be_downloaded_id := BatchId i\<rparr> \<and> unat (batch_num (sc_to_be_downloaded_id sc)) < unat i)"
proof (cases r)
  case None
  with assms(1) show ?thesis by (auto simp: get_next_batch_def Let_def split: bind_splits if_splits)
next
  case (Some b)
  let ?k = "unat (batch_num (sc_to_be_downloaded_id sc))"
  from assms(1,2) Some obtain n before start full i1 i2 where room:
      "length (sc_completed_batches sc) + pending_len (sc_pending_batches sc) \<le> unat BATCH_BUFFER_SIZE"
    and n: "umul True (sat_sub (batch_num (sc_to_be_downloaded_id sc)) 1) BLOCKS_PER_BATCH = Some n"
    and before: "uadd True (sc_start_numer sc) n = Some before"
    and start: "uadd True before 1 = Some start" "start \<le> sc_target_head_slot sc"
    and full: "uadd True start BLOCKS_PER_BATCH = Some full"
    and i1: "uadd True (batch_num (sc_to_be_downloaded_id sc)) 1 = Some i1"
    and b: "b = batch_new (sc_to_be_downloaded_id sc) start (min full (sat_add (sc_target_head_slot sc) 1)) (sc_target_head_root sc) p"
    and sc': "sc' = sc\<lparr>sc_to_be_downloaded_id := BatchId (max i1 i2)\<rparr>"
    by (auto simp: get_next_batch_def Let_def not_less split: bind_splits if_splits)
  have "unat n = (?k - 1) * 5" using umul_checked_SomeD(1) [OF n] by (simp add: BLOCKS_PER_BATCH_def)
  then have s: "unat start = unat (sc_start_numer sc) + (?k - 1) * 5 + 1"
    using uadd_checked_SomeD(1) [OF before] uadd_checked_SomeD(1) [OF start(1)] by simp
  have f: "unat full = unat start + 5" using uadd_checked_SomeD(1) [OF full] by (simp add: BLOCKS_PER_BATCH_def)
  have f': "unat full < 2 ^ 64" using unat_bound [of full] by simp
  have t: "unat start \<le> unat (sc_target_head_slot sc)" using start(2) by (simp add: word_le_nat_alt)
  have e: "unat (min full (sat_add (sc_target_head_slot sc) 1)) = min (unat full) (unat (sat_add (sc_target_head_slot sc) 1))"
    by (simp add: min_def word_le_nat_alt)
  have "batch_ok (sc_start_numer sc) b"
    using s f f' t assms(3) by (auto simp: b batch_ok_def batch_new_def e unat_sat_add)
  moreover have "?k < unat (max i1 i2)" using uadd_checked_SomeD(1) [OF i1] by (simp add: max_def word_le_nat_alt)
  ultimately show ?thesis using room by (auto simp: Some sc' b batch_new_def BATCH_BUFFER_SIZE_def)
qed

text \<open>Every run ends, and every result has the property; a panic has no result.\<close>

definition ends_ok :: "'a option option \<Rightarrow> ('a \<Rightarrow> bool) \<Rightarrow> bool" where
  "ends_ok m P \<longleftrightarrow> (\<exists>r. m = Some r \<and> (\<forall>x. r = Some x \<longrightarrow> P x))"

lemma ends_ok_Some [simp]: "ends_ok (Some r) P \<longleftrightarrow> (\<forall>x. r = Some x \<longrightarrow> P x)"
  by (simp add: ends_ok_def)

lemma ends_ok_run_bind: "\<lbrakk>ends_ok m P; \<And>x. P x \<Longrightarrow> ends_ok (k x) Q\<rbrakk> \<Longrightarrow> ends_ok (run_bind m k) Q"
  by (auto simp: ends_ok_def run_bind_def split: bind_splits option.splits)

lemma ends_ok_mono: "\<lbrakk>ends_ok m P; \<And>x. P x \<Longrightarrow> Q x\<rbrakk> \<Longrightarrow> ends_ok m Q"
  by (auto simp: ends_ok_def)

text \<open>What requesting batches may change.\<close>

definition requested :: "syncing_chain \<Rightarrow> syncing_chain \<Rightarrow> bool" where
  "requested sc sc' \<longleftrightarrow> (\<exists>pb i d. sc' = sc\<lparr>sc_pending_batches := pb, sc_to_be_downloaded_id := i, sc_draws := d\<rparr>)"

lemma requested_refl: "requested sc sc"
  unfolding requested_def by (rule exI [of _ "sc_pending_batches sc"], rule exI [of _ "sc_to_be_downloaded_id sc"],
      rule exI [of _ "sc_draws sc"]) simp

lemma requested_trans: "\<lbrakk>requested a b; requested b c\<rbrakk> \<Longrightarrow> requested a c"
  unfolding requested_def by fastforce

lemma send_batch_ok:
  assumes "overflow_checks E" "sync_ok reports (net, sc)" "batch_ok (sc_start_numer sc) b"
    and "length (sc_completed_batches sc) + pending_len (sc_pending_batches sc) \<le> 5"
    and "peer_is_idle (sc_pending_batches sc) (bt_current_peer b)"
    and "send_batch E (net, sc) b = Some (net', sc')"
  shows "sync_ok reports (net', sc')" "\<exists>pb. sc' = sc\<lparr>sc_pending_batches := pb\<rparr>"
proof -
  from assms(6) obtain req r where req: "sync_send_request E net (bt_current_peer b) req = Some (r, net')"
    and sc': "sc' = (case r of Inr i \<Rightarrow> sc\<lparr>sc_pending_batches := snd (pending_insert (sc_pending_batches sc) i b)\<rparr> | Inl e \<Rightarrow> sc)"
    by (auto simp: send_batch_def request_by_range_def split: bind_splits)
  note id = sync_send_requestE(1) [OF req assms(1)]
  have ok: "sync_ok reports (net', sc)" using sync_ok_network [OF assms(2)] id by simp
  show "\<exists>pb. sc' = sc\<lparr>sc_pending_batches := pb\<rparr>"
    unfolding sc' by (cases r) (auto intro: exI [of _ "sc_pending_batches sc"])
  show "sync_ok reports (net', sc')"
  proof (cases r)
    case (Inr i)
    have i: "i = sn_request_id net" using sync_send_requestE(2) [OF req assms(1) Inr] .
    then have "map_of (pb_batches (sc_pending_batches sc)) i = None"
      using sync_okD(3) [OF assms(2), of i] by (cases "map_of (pb_batches (sc_pending_batches sc)) i") auto
    note ins = pending_insert_ok [OF sync_okD(1) [OF assms(2)] this assms(5)]
    from ok ins assms(3,4) i id show ?thesis by (auto simp: sync_ok_def sc' Inr split: if_splits)
  qed (simp add: sc' ok)
qed

lemma send_range_request_ok:
  assumes "overflow_checks E" "sync_ok reports (net, sc)" "send_range_request E S (net, sc) = Some (again, net', sc')"
  shows "sync_ok reports (net', sc')" "requested sc sc'"
    and "again \<Longrightarrow> unat (batch_num (sc_to_be_downloaded_id sc)) < unat (batch_num (sc_to_be_downloaded_id sc'))"
proof -
  let ?sc = "sc\<lparr>sc_draws := sc_draws sc + 1\<rparr>"
  have one: "1 \<le> unat (batch_num (sc_to_be_downloaded_id ?sc))" and ok: "sync_ok reports (net, ?sc)"
    using assms(2) by (simp_all add: sync_ok_def)
  have req: "requested sc ?sc" unfolding requested_def
    by (rule exI [of _ "sc_pending_batches sc"], rule exI [of _ "sc_to_be_downloaded_id sc"], rule exI) simp
  have "sync_ok reports (net', sc') \<and> requested sc sc' \<and>
      (again \<longrightarrow> unat (batch_num (sc_to_be_downloaded_id sc)) < unat (batch_num (sc_to_be_downloaded_id sc')))"
  proof (cases "find (peer_is_idle (sc_pending_batches sc)) (shuffle_peers S (sc_draws sc) (sc_peer_pool sc))")
    case None
    with assms(3) have "again = False" "net' = net" "sc' = ?sc" by (simp_all add: send_range_request_def get_next_peer_def)
    with ok req show ?thesis by simp
  next
    case (Some p)
    with assms(3) obtain r sc2 where nb: "get_next_batch E ?sc p = Some (r, sc2)"
      and res: "(case r of None \<Rightarrow> Some (False, net, sc2)
          | Some b \<Rightarrow> do { (net1, sc3) \<leftarrow> send_batch E (net, sc2) b; Some (True, net1, sc3) }) = Some (again, net', sc')"
      by (auto simp: send_range_request_def get_next_peer_def split: bind_splits)
    show ?thesis
    proof (cases r)
      case None
      with get_next_batchE [OF nb assms(1) one] res ok req show ?thesis by simp
    next
      case (Some b)
      from get_next_batchE [OF nb assms(1) one] obtain i where b: "batch_ok (sc_start_numer sc) b" "bt_current_peer b = p"
          "length (sc_completed_batches sc) + pending_len (sc_pending_batches sc) \<le> 5"
        and sc2: "sc2 = ?sc\<lparr>sc_to_be_downloaded_id := BatchId i\<rparr>" "unat (batch_num (sc_to_be_downloaded_id sc)) < unat i"
        unfolding Some option.case by (elim conjE exE) simp
      have ok2: "sync_ok reports (net, sc2)" using ok sc2(2) by (simp add: sc2(1) sync_ok_def)
      have idle: "peer_is_idle (sc_pending_batches sc) p"
        using \<open>find _ _ = Some p\<close> by (auto simp: find_Some_iff)
      from res Some have sb: "send_batch E (net, sc2) b = Some (net', sc')" by (auto split: bind_splits)
      have sent: "sync_ok reports (net', sc')" "\<exists>pb. sc' = sc2\<lparr>sc_pending_batches := pb\<rparr>"
        using send_batch_ok [OF assms(1) ok2 _ _ _ sb] b idle by (simp_all add: sc2(1))
      from sent(2) obtain pb where "sc' = sc2\<lparr>sc_pending_batches := pb\<rparr>" ..
      then have sc': "sc' = sc\<lparr>sc_pending_batches := pb, sc_to_be_downloaded_id := BatchId i, sc_draws := sc_draws sc + 1\<rparr>"
        unfolding sc2(1) by (cases sc) simp
      show ?thesis using sent(1) sc2(2) unfolding requested_def sc' by auto
    qed
  qed
  then show "sync_ok reports (net', sc')" "requested sc sc'"
    "again \<Longrightarrow> unat (batch_num (sc_to_be_downloaded_id sc)) < unat (batch_num (sc_to_be_downloaded_id sc'))" by simp_all
qed

lemma request_loop_ok:
  "\<lbrakk>overflow_checks E; sync_ok reports (net, sc)\<rbrakk> \<Longrightarrow>
    ends_ok (request_loop E S (net, sc)) (\<lambda>(net', sc'). sync_ok reports (net', sc') \<and> requested sc sc')"
proof (induction "2 ^ 64 - unat (batch_num (sc_to_be_downloaded_id sc))" arbitrary: net sc rule: less_induct)
  case less
  show ?case
  proof (cases "send_range_request E S (net, sc)")
    case None
    then show ?thesis by (subst request_loop.simps) simp
  next
    case (Some res)
    obtain again net1 sc1 where res: "res = (again, net1, sc1)" by (cases res)
    note step = send_range_request_ok [OF less(2,3) Some [unfolded res]]
    show ?thesis
    proof (cases again)
      case False
      then show ?thesis using step Some by (subst request_loop.simps) (simp add: res)
    next
      case True
      have "2 ^ 64 - unat (batch_num (sc_to_be_downloaded_id sc1)) < 2 ^ 64 - unat (batch_num (sc_to_be_downloaded_id sc))"
        using step(3) [OF True] unat_bound [of "batch_num (sc_to_be_downloaded_id sc1)"] by simp
      from less(1) [OF this less(2) step(1)]
      have "ends_ok (request_loop E S (net1, sc1)) (\<lambda>(net', sc'). sync_ok reports (net', sc') \<and> requested sc1 sc')" .
      then have "ends_ok (request_loop E S (net1, sc1)) (\<lambda>(net', sc'). sync_ok reports (net', sc') \<and> requested sc sc')"
        by (rule ends_ok_mono) (auto intro: requested_trans [OF step(2)])
      then show ?thesis using True Some by (subst request_loop.simps) (simp add: res)
    qed
  qed
qed

lemma request_batches_ok:
  "\<lbrakk>overflow_checks E; sync_ok reports (net, sc)\<rbrakk> \<Longrightarrow>
    ends_ok (request_batches E S (net, sc)) (\<lambda>(net', sc'). sync_ok reports (net', sc') \<and> requested sc sc')"
  by (simp add: request_batches_def request_loop_ok requested_refl)

lemma process_completed_ok:
  assumes "sync_ok reports (net, sc)"
  shows "sync_ok reports (net, process_completed_batches sc)"
proof (cases "sc_completed_batches sc")
  case Nil
  then show ?thesis using assms by (simp add: process_completed_batches_def)
next
  case (Cons b bs)
  show ?thesis
  proof (cases "sc_state sc = ChainSyncing \<and> sc_current_processing_batch sc = None \<and> bt_id b = sc_to_be_processed_id sc")
    case True
    with assms Cons show ?thesis by (auto simp: process_completed_batches_def process_batch_def sync_ok_def)
  next
    case False
    then have "process_completed_batches sc = sc" using Cons by (auto simp: process_completed_batches_def)
    with assms show ?thesis by simp
  qed
qed

lemma sorted_insert_at:
  assumes "sorted (map f xs)" "\<forall>j < i. f (xs ! j) \<le> f x" "\<forall>j. i \<le> j \<and> j < length xs \<longrightarrow> f x \<le> f (xs ! j)" "i \<le> length xs"
  shows "sorted (map f (take i xs @ x # drop i xs))"
proof -
  have "sorted (map f (take i xs) @ map f (drop i xs))" using assms(1) by (metis append_take_drop_id map_append)
  moreover have "f y \<le> f x" if "y \<in> set (take i xs)" for y
    using that assms(2,4) by (auto simp: in_set_conv_nth)
  moreover have "f x \<le> f y" if "y \<in> set (drop i xs)" for y
    using that assms(3) by (auto simp: in_set_conv_nth)
  ultimately show ?thesis by (auto simp: sorted_append)
qed

lemma completed_insert_sorted:
  assumes "sorted (map (\<lambda>b. batch_num (bt_id b)) bs)"
  shows "sorted (map (\<lambda>b. batch_num (bt_id b))
    (let i = (case binary_search_by (\<lambda>c. batch_cmp c b) bs of Inr i \<Rightarrow> i | Inl i \<Rightarrow> i) in take i bs @ b # drop i bs))"
proof -
  let ?f = "\<lambda>b. batch_num (bt_id b)"
  have "sorted (map (\<lambda>c. batch_cmp c b) bs)"
    unfolding sorted_map by (rule sorted_wrt_mono_rel [OF _ assms [unfolded sorted_map]])
      (auto simp: batch_cmp_def ord_cmp_def)
  note spec = binary_search_by_spec [OF this]
  show ?thesis
  proof (cases "binary_search_by (\<lambda>c. batch_cmp c b) bs")
    case (Inl i)
    with spec have "\<forall>j < i. ?f (bs ! j) \<le> ?f b" "\<forall>j. i \<le> j \<and> j < length bs \<longrightarrow> ?f b \<le> ?f (bs ! j)" "i \<le> length bs"
      by (auto simp: batch_cmp_def less_imp_le)
    with Inl show ?thesis using sorted_insert_at [OF assms] by simp
  next
    case (Inr i)
    with spec have i: "i < length bs" "?f (bs ! i) = ?f b" by (simp_all add: batch_cmp_def)
    have "\<forall>j < i. ?f (bs ! j) \<le> ?f b" "\<forall>j. i \<le> j \<and> j < length bs \<longrightarrow> ?f b \<le> ?f (bs ! j)"
      using sorted_nth_mono [OF assms] i by (auto simp flip: i(2))
    with i(1) Inr show ?thesis using sorted_insert_at [OF assms, of i b] by simp
  qed
qed

lemma handle_completed_batch_ok:
  assumes "overflow_checks E" "sync_ok reports (net, sc)" "batch_ok (sc_start_numer sc) b"
    and "length (sc_completed_batches sc) + pending_len (sc_pending_batches sc) \<le> 5"
  shows "ends_ok (handle_completed_batch E S (net, sc) b) (sync_ok reports)"
proof (cases "bt_downloaded_blocks b \<noteq> [] \<and> (block_height (hd (bt_downloaded_blocks b)) < bt_start_numer b \<or>
    bt_end_number b < block_height (last (bt_downloaded_blocks b)))")
  case True
  have "sync_ok reports (net', sc\<lparr>sc_to_be_processed_id := i\<rparr>)" if "downvote_peer E net p = Some net'" for net' p i
    using sync_ok_network [OF assms(2), of net'] downvote_peer_id [OF that assms(1)] by (simp add: sync_ok_def)
  with True show ?thesis
    by (auto simp: handle_completed_batch_def Let_def ends_ok_def run_bind_def split: option.splits)
next
  case False
  let ?bs = "sc_completed_batches sc"
  define i where "i = (case binary_search_by (\<lambda>c. batch_cmp c b) ?bs of Inr i \<Rightarrow> i | Inl i \<Rightarrow> i)"
  let ?sc = "sc\<lparr>sc_completed_batches := take i ?bs @ b # drop i ?bs\<rparr>"
  have "sorted (map (\<lambda>b. batch_num (bt_id b)) (take i ?bs @ b # drop i ?bs))"
    using completed_insert_sorted [of ?bs b] assms(2) unfolding i_def Let_def by (simp add: sync_ok_def)
  then have "sync_ok reports (net, ?sc)"
    using assms(2,3,4) by (auto simp: sync_ok_def dest: in_set_takeD in_set_dropD)
  from request_batches_ok [OF assms(1) this]
  have "ends_ok (run_bind (request_batches E S (net, ?sc)) (\<lambda>(net2, sc2). Some (Some (net2, process_completed_batches sc2)))) (sync_ok reports)"
    by (rule ends_ok_run_bind) (auto intro: process_completed_ok)
  with False show ?thesis by (auto simp: handle_completed_batch_def Let_def i_def)
qed

lemma on_block_response_ok:
  assumes "overflow_checks E" "sync_ok reports (net, sc)"
  shows "ends_ok (on_block_response E S (net, sc) i blk) (\<lambda>(r, st). sync_ok reports st)"
proof -
  let ?pb = "sc_pending_batches sc"
  note pb = sync_okD [OF assms(2)]
  show ?thesis
  proof (cases "map_of (pb_batches ?pb) i")
    case None
    then show ?thesis using assms(2)
      by (auto simp: on_block_response_def pending_add_block_def pending_remove_def split: option.splits)
  next
    case (Some bt)
    show ?thesis
    proof (cases blk)
      case None
      note rm = pending_remove_ok [OF pb(1) Some]
      obtain pb' where rm': "pending_remove ?pb i = (Some bt, pb')" using rm(1) by (cases "pending_remove ?pb i") simp
      let ?sc = "sc\<lparr>sc_pending_batches := pb'\<rparr>"
      have "pending_len ?pb \<noteq> 0" using Some by (auto simp: pending_len_def)
      then have "sync_ok reports (net, ?sc)" "length (sc_completed_batches ?sc) + pending_len (sc_pending_batches ?sc) \<le> 5"
        using assms(2) rm by (auto simp: sync_ok_def rm' split: if_splits)
      from handle_completed_batch_ok [OF assms(1) this(1) _ this(2), of bt] pb(2) [OF Some]
      have "ends_ok (handle_completed_batch E S (net, ?sc) bt) (sync_ok reports)" by simp
      then have "ends_ok (run_bind (handle_completed_batch E S (net, ?sc) bt) (\<lambda>st. Some (Some (Some (), st)))) (\<lambda>(r, st). sync_ok reports st)"
        by (rule ends_ok_run_bind) simp
      then show ?thesis by (simp add: on_block_response_def None rm')
    next
      case blk: (Some b)
      note add = pending_add_block_ok [OF pb(1) Some, of b]
      have "sync_ok reports (net, sc\<lparr>sc_pending_batches := snd (pending_add_block ?pb i b)\<rparr>)"
        using assms(2) add pb(2,3) [OF Some] by (auto simp: sync_ok_def split: if_splits)
      then show ?thesis using add(1) by (auto simp: on_block_response_def blk Let_def case_prod_unfold)
    qed
  qed
qed

lemma validate_processed_id:
  "\<lbrakk>validate_processed E S net bs = Some net'; overflow_checks E\<rbrakk> \<Longrightarrow> unat (sn_request_id net) \<le> unat (sn_request_id net')"
  by (induction bs arbitrary: net)
    (fastforce split: bind_splits option.splits if_splits dest: downvote_peer_id)+

lemma downvote_all_id:
  "\<lbrakk>downvote_all E net ps = Some net'; overflow_checks E\<rbrakk> \<Longrightarrow> unat (sn_request_id net) \<le> unat (sn_request_id net')"
  by (induction ps arbitrary: net) (fastforce split: bind_splits dest: downvote_peer_id)+

lemma batch_succeeded_ok:
  assumes "overflow_checks E" "sync_ok reports (net, sc)"
  shows "ends_ok (batch_succeeded E S (net, sc) b) (\<lambda>(r, st). sync_ok reports st)"
proof -
  have ok: "sync_ok reports (net', sc\<lparr>sc_to_be_processed_id := i, sc_processed_batches := bs\<rparr>)"
    if "unat (sn_request_id net) \<le> unat (sn_request_id net')" for net' i bs
    using sync_ok_network [OF assms(2) that] by (simp add: sync_ok_def)
  have run: "ends_ok (run_bind (request_batches E S (net', sc')) (\<lambda>(net2, sc2). Some (Some (KeepChain, net2, process_completed_batches sc2))))
      (\<lambda>(r, st). sync_ok reports st)" if "sync_ok reports (net', sc')" for net' sc'
    by (rule ends_ok_run_bind [OF request_batches_ok [OF assms(1) that]]) (auto intro: process_completed_ok)
  let ?waiting = "if bt_downloaded_blocks b \<noteq> [] then [] else sc_processed_batches sc"
  let ?sc = "\<lambda>i. sc\<lparr>sc_to_be_processed_id := BatchId i, sc_processed_batches :=
    (if (if bt_downloaded_blocks b = [] then None else Some (block_height (last (bt_downloaded_blocks b)))) =
        Some (sat_sub (bt_end_number b) 1) then ?waiting else ?waiting @ [b])\<rparr>"
  show ?thesis
    unfolding batch_succeeded_def Let_def prod.case
  proof (rule ends_ok_run_bind [where P = "\<lambda>_. True"])
    fix i :: u64
    show "ends_ok (run_bind (Some (if bt_downloaded_blocks b \<noteq> [] then validate_processed E S net (sc_processed_batches sc) else Some net))
        (\<lambda>net1. run_bind (Some (current_processed_slot E (?sc i))) (\<lambda>slot.
          if sc_target_head_slot (?sc i) \<le> slot then Some (Some (RemoveChain, net1, ?sc i))
          else run_bind (request_batches E S (net1, ?sc i)) (\<lambda>(net2, sc2).
            Some (Some (KeepChain, net2, process_completed_batches sc2)))))) (\<lambda>(r, st). sync_ok reports st)"
    proof (rule ends_ok_run_bind [where P = "\<lambda>net'. unat (sn_request_id net) \<le> unat (sn_request_id net')"])
      fix net1 :: sync_network assume "unat (sn_request_id net) \<le> unat (sn_request_id net1)"
      then show "ends_ok (run_bind (Some (current_processed_slot E (?sc i))) (\<lambda>slot.
          if sc_target_head_slot (?sc i) \<le> slot then Some (Some (RemoveChain, net1, ?sc i))
          else run_bind (request_batches E S (net1, ?sc i)) (\<lambda>(net2, sc2).
            Some (Some (KeepChain, net2, process_completed_batches sc2))))) (\<lambda>(r, st). sync_ok reports st)"
        by (intro ends_ok_run_bind [where P = "\<lambda>_. True"]) (simp_all add: ok run)
    qed (use assms(1) validate_processed_id in auto)
  qed simp
qed

lemma on_batch_process_result_ok:
  assumes "overflow_checks E" "sync_ok (i # reports) (net, sc)"
  shows "ends_ok (on_batch_process_result E S (net, sc) i (Some blocks) result)
    (\<lambda>(r, d, st). r \<noteq> None \<and> sync_ok reports st)"
proof -
  from assms(2) obtain b where cur: "sc_current_processing_batch sc = Some b" "bt_id b = i" "sc_spawned sc = []" "reports = []"
    by (auto simp: sync_ok_def Cons_eq_append_conv append_eq_Cons_conv split: option.splits)
  let ?sc = "sc\<lparr>sc_current_processing_batch := None\<rparr>"
  have ok: "sync_ok reports (net, ?sc)" using assms(2) cur by (simp add: sync_ok_def)
  have "ends_ok (Some (batch_failed E (net, ?sc) c)) (\<lambda>(r, st). sync_ok reports st)" for c
    using ok downvote_all_id [OF _ assms(1)] sync_ok_network [OF ok]
    by (auto simp: batch_failed_def sync_ok_def split: bind_splits)
  then have "ends_ok (case result of BatchSuccess \<Rightarrow> batch_succeeded E S (net, ?sc) c
      | BatchFailed \<Rightarrow> Some (batch_failed E (net, ?sc) c)) (\<lambda>(r, st). sync_ok reports st)" for c
    using batch_succeeded_ok [OF assms(1) ok] by (cases result) simp_all
  then show ?thesis
    by (auto simp: on_batch_process_result_def cur Let_def intro!: ends_ok_run_bind)
qed

lemma chain_add_peer_ok:
  assumes "overflow_checks E" "sync_ok reports (net, sc)"
  shows "ends_ok (chain_add_peer E S (net, sc) p) (sync_ok reports)"
proof -
  let ?sc = "sc\<lparr>sc_peer_pool := set_insert p (sc_peer_pool sc)\<rparr>"
  have ok: "sync_ok reports (net, ?sc)" using assms(2) by (simp add: sync_ok_def)
  have "ends_ok (request_batches E S (net, ?sc)) (sync_ok reports)"
    by (rule ends_ok_mono [OF request_batches_ok [OF assms(1) ok]]) auto
  with ok show ?thesis by (simp add: chain_add_peer_def Let_def)
qed

lemma start_syncing_ok:
  assumes "overflow_checks E" "sync_ok reports (net, sc)"
  shows "ends_ok (start_syncing E S (net, sc) n) (sync_ok reports)"
proof -
  have "ends_ok (request_batches E S (net, process_completed_batches (sc'\<lparr>sc_state := ChainSyncing\<rparr>))) (sync_ok reports)"
    if "sync_ok reports (net, sc')" for sc'
    by (rule ends_ok_mono [OF request_batches_ok [OF assms(1) process_completed_ok]])
      (use that in \<open>auto simp: sync_ok_def\<close>)
  moreover have "sync_ok reports (net, sc\<lparr>sc_to_be_downloaded_id := BatchId 1, sc_to_be_processed_id := BatchId 1,
      sc_completed_batches := [], sc_processed_batches := []\<rparr>)"
    using assms(2) by (simp add: sync_ok_def)
  ultimately show ?thesis using assms(2)
    by (auto simp: start_syncing_def Let_def intro!: ends_ok_run_bind [where P = "\<lambda>_. True"])
qed

end
