(* ===== verification/Sync_Manager.thy ===== *)
theory Sync_Manager
  imports Range_Sync
begin

text \<open>
  The synchronisation task, \<^verbatim>\<open>network/src/sync/manager.rs\<close>: peers, orphan blocks and the range download, driven by the
  messages of the handler and of the block processor.
\<close>

section \<open>State\<close>

record orphan_pool =
  op_downloaded_blocks :: "block list"
  op_failed_attempts :: nat
  op_block_roots :: "(hash \<times> block) list"

definition orphan_pool_new :: orphan_pool where
  "orphan_pool_new = \<lparr>op_downloaded_blocks = [], op_failed_attempts = 0, op_block_roots = []\<rparr>"

datatype manager_state = Syncing | Regular | Stalled

record ('kv, 'm, 'r) sync_manager =
  sy_chain :: "('kv, 'm, 'r) block_chain"
  sy_state :: manager_state
  sy_network :: sync_network
  sy_range_sync :: range_sync
  sy_pool :: orphan_pool
  sy_full_peers :: "peer_id list"

definition sync_spawn ::
  "('kv, 'm, 't, 'r, 'z) chain_env_scheme \<Rightarrow> ('kv, 'm, 'r) block_chain \<Rightarrow> network_message channel
     \<Rightarrow> ('kv, 'm, 'r) sync_manager option" where
  "sync_spawn E bc c =
    do { rs \<leftarrow> range_sync_new E bc;
         Some \<lparr>sy_chain = bc, sy_state = Stalled, sy_network = sync_network_new c, sy_range_sync = rs,
               sy_pool = orphan_pool_new, sy_full_peers = []\<rparr> }"

section \<open>Peers\<close>

definition add_full_peer :: "('kv, 'm, 'r) sync_manager \<Rightarrow> peer_id \<Rightarrow> ('kv, 'm, 'r) sync_manager" where
  "add_full_peer sy p = sy\<lparr>sy_full_peers := set_insert p (sy_full_peers sy)\<rparr>"

definition update_state :: "('kv, 'm, 'r) sync_manager \<Rightarrow> ('kv, 'm, 'r) sync_manager" where
  "update_state sy =
    sy\<lparr>sy_state := (if is_syncing (sy_range_sync sy) then Syncing
                    else if sy_full_peers sy \<noteq> [] then Regular else Stalled)\<rparr>"

definition put_range :: "('kv, 'm, 'r) sync_manager \<Rightarrow> sync_network \<times> range_sync \<Rightarrow> ('kv, 'm, 'r) sync_manager" where
  "put_range sy = (\<lambda>(net, rs). sy\<lparr>sy_network := net, sy_range_sync := rs\<rparr>)"

definition sync_add_peer ::
  "('kv, 'm, 't, 'r, 'z) chain_env_scheme \<Rightarrow> sync_env \<Rightarrow> ('kv, 'm, 'r) sync_manager \<Rightarrow> peer_id \<Rightarrow> peer_sync_info
     \<Rightarrow> ('kv, 'm, 'r) sync_manager option option" where
  "sync_add_peer E S sy p remote =
    run_bind (Some (from_chain E (sy_chain sy))) (\<lambda>own.
    case own of
      None \<Rightarrow> Some (Some sy)
    | Some loc \<Rightarrow>
        run_bind (Some (usub (overflow_checks E) (pi_finalized_number remote) (pi_finalized_number loc))) (\<lambda>ahead.
        let sy1 = (if ahead < SLOT_IMPORT_TOLERANCE then add_full_peer sy p else sy)
        in run_bind (range_add_peer E S (sy_chain sy1) (sy_network sy1, sy_range_sync sy1) p remote) (\<lambda>st.
           Some (Some (update_state (put_range sy1 st))))))"

definition peer_disconnect :: "('kv, 'm, 'r) sync_manager \<Rightarrow> peer_id \<Rightarrow> ('kv, 'm, 'r) sync_manager" where
  "peer_disconnect sy p =
    (let sy1 = put_range sy (range_peer_disconnect (sy_network sy, sy_range_sync sy) p)
     in update_state (sy1\<lparr>sy_full_peers := set_remove p (sy_full_peers sy1)\<rparr>))"

section \<open>Orphan blocks\<close>

definition request_for_block ::
  "'z crates_scheme \<Rightarrow> ('kv, 'm, 'r) sync_manager \<Rightarrow> peer_id \<Rightarrow> hash \<Rightarrow> ('kv, 'm, 'r) sync_manager option" where
  "request_for_block E sy p h =
    do { (_, net) \<leftarrow> request_by_hash E (sy_network sy) p \<lparr>br_block_roots = [h]\<rparr>; Some (sy\<lparr>sy_network := net\<rparr>) }"

definition put_downloaded :: "('kv, 'm, 'r) sync_manager \<Rightarrow> block list \<Rightarrow> ('kv, 'm, 'r) sync_manager" where
  "put_downloaded sy bs = sy\<lparr>sy_pool := (sy_pool sy)\<lparr>op_downloaded_blocks := bs\<rparr>\<rparr>"

definition add_unknown_block ::
  "('kv, 'm, 't, 'r, 'z) chain_env_scheme \<Rightarrow> ('kv, 'm, 'r) sync_manager \<Rightarrow> peer_id \<Rightarrow> block \<Rightarrow> ('kv, 'm, 'r) sync_manager option" where
  "add_unknown_block E sy p b =
    (if map_of (op_block_roots (sy_pool sy)) (block_hash E b) \<noteq> None then Some sy
     else if op_downloaded_blocks (sy_pool sy) \<noteq> [] then Some sy
     else request_for_block E (put_downloaded sy (op_downloaded_blocks (sy_pool sy) @ [b])) p (h_parent_hash (b_header b)))"

text \<open>The loop \<^verbatim>\<open>while let Some(block) = downloaded_blocks.pop()\<close>, on the blocks from the last to the first.\<close>

fun import_popped ::
  "('kv, 'm, 't, 'r, 'z) chain_env_scheme \<Rightarrow> ('kv, 'm, 'r) block_chain \<Rightarrow> block list \<Rightarrow> ('kv, 'm, 'r) block_chain option" where
  "import_popped E bc [] = Some bc"
| "import_popped E bc (b # bs) = do { (r, bc') \<leftarrow> import_block E bc b; import_popped E bc' bs }"

definition blocks_by_root_response ::
  "('kv, 'm, 't, 'r, 'z) chain_env_scheme \<Rightarrow> ('kv, 'm, 'r) sync_manager \<Rightarrow> peer_id \<Rightarrow> request_id \<Rightarrow> block option
     \<Rightarrow> ('kv, 'm, 'r) sync_manager option" where
  "blocks_by_root_response E sy p i blk =
    (case blk of
       None \<Rightarrow> Some sy
     | Some b \<Rightarrow> do {
         _ \<leftarrow> get_block E (bc_db (sy_chain sy)) (header_hash E (b_header b));
         head \<leftarrow> current_block E (sy_chain sy);
         if h_parent_hash (b_header b) = header_hash E (b_header head) then do {
           (r, bc1) \<leftarrow> import_block E (sy_chain sy) b;
           bc2 \<leftarrow> import_popped E bc1 (rev (op_downloaded_blocks (sy_pool sy)));
           Some (put_downloaded (sy\<lparr>sy_chain := bc2\<rparr>) []) }
         else request_for_block E (put_downloaded sy (op_downloaded_blocks (sy_pool sy) @ [b])) p (h_parent_hash (b_header b)) })"

section \<open>Messages\<close>

definition sync_dispatch ::
  "('kv, 'm, 't, 'r, 'z) chain_env_scheme \<Rightarrow> sync_env \<Rightarrow> ('kv, 'm, 'r) sync_manager \<Rightarrow> sync_message
     \<Rightarrow> ('kv, 'm, 'r) sync_manager option option" where
  "sync_dispatch E S sy msg =
    (case msg of
       AddPeer p info \<Rightarrow> sync_add_peer E S sy p info
     | BlocksByRangeResponse p i blk \<Rightarrow>
         run_bind (range_blocks_response E S (sy_network sy, sy_range_sync sy) p i blk) (\<lambda>st. Some (Some (put_range sy st)))
     | BlocksByHashResponse p i blk \<Rightarrow> Some (blocks_by_root_response E sy p i blk)
     | PeerGone p \<Rightarrow> Some (Some (peer_disconnect sy p))
     | RPCError p i \<Rightarrow> Some (Some sy)
     | OrphanBlock p b \<Rightarrow> Some (add_unknown_block E sy p b)
     | BatchProcessed i blocks result \<Rightarrow>
         run_bind (handle_block_process_result E S (sy_chain sy) (sy_network sy, sy_range_sync sy) i blocks result)
           (\<lambda>st. Some (Some (put_range sy st))))"

definition sync_handle ::
  "('kv, 'm, 't, 'r, 'z) chain_env_scheme \<Rightarrow> sync_env \<Rightarrow> ('kv, 'm, 'r) sync_manager \<Rightarrow> sync_message
     \<Rightarrow> ('kv, 'm, 'r) sync_manager option option" where
  "sync_handle E S sy msg = run_bind (sync_dispatch E S sy msg) (\<lambda>sy'. Some (Some (update_state sy')))"

text \<open>\<^verbatim>\<open>SyncManager::poll\<close> on the messages that wait in the channel, which may be closed behind them.\<close>

fun sync_poll ::
  "('kv, 'm, 't, 'r, 'z) chain_env_scheme \<Rightarrow> sync_env \<Rightarrow> bool \<Rightarrow> ('kv, 'm, 'r) sync_manager \<Rightarrow> sync_message list
     \<Rightarrow> ((string + unit) \<times> ('kv, 'm, 'r) sync_manager) option option" where
  "sync_poll E S closed sy [] = Some (Some (if closed then Inl ''Sync manager channel closed'' else Inr (), sy))"
| "sync_poll E S closed sy (m # ms) = run_bind (sync_handle E S sy m) (\<lambda>sy'. sync_poll E S closed sy' ms)"

section \<open>Runs of the task\<close>

text \<open>
  The task, the messages that wait for it and the threads it spawned: the handler adds messages, the task takes them in
  order, a thread of the block processor ends and reports, and other tasks import blocks into the shared chain.
\<close>

fun report_ids :: "sync_message list \<Rightarrow> batch_id list" where
  "report_ids [] = []"
| "report_ids (BatchProcessed i blocks result # ms) = i # report_ids ms"
| "report_ids (m # ms) = report_ids ms"

definition sync_view :: "('kv, 'm, 'r) sync_manager \<Rightarrow> sync_network \<times> syncing_chain" where
  "sync_view sy = (sy_network sy, rs_chains (sy_range_sync sy))"

inductive sync_reach ::
  "('kv, 'm, 't, 'r, 'z) chain_env_scheme \<Rightarrow> sync_env \<Rightarrow> ('kv, 'm, 'r) sync_manager \<Rightarrow> sync_message list \<Rightarrow> bool"
  for E :: "('kv, 'm, 't, 'r, 'z) chain_env_scheme" and S :: sync_env where
  reach_start: "sync_spawn E bc c = Some sy \<Longrightarrow> sync_reach E S sy []"
| reach_receive: "\<lbrakk>sync_reach E S sy inbox; report_ids [m] = []\<rbrakk> \<Longrightarrow> sync_reach E S sy (inbox @ [m])"
| reach_handle: "\<lbrakk>sync_reach E S sy (m # inbox); sync_handle E S sy m = Some (Some sy')\<rbrakk> \<Longrightarrow> sync_reach E S sy' inbox"
| reach_processed: "\<lbrakk>sync_reach E S sy inbox; rs = sy_range_sync sy; sc = rs_chains rs; sc_spawned sc = js @ job # js';
    run_block_processor E (sy_chain sy) job = Some (m, bc)\<rbrakk> \<Longrightarrow>
    sync_reach E S (sy\<lparr>sy_chain := bc, sy_range_sync := rs\<lparr>rs_chains := sc\<lparr>sc_spawned := js @ js'\<rparr>\<rparr>\<rparr>) (inbox @ [m])"
| reach_import: "\<lbrakk>sync_reach E S sy inbox; import_block E (sy_chain sy) b = Some (r, bc)\<rbrakk> \<Longrightarrow>
    sync_reach E S (sy\<lparr>sy_chain := bc\<rparr>) inbox"

lemma report_ids_append [simp]: "report_ids (xs @ ys) = report_ids xs @ report_ids ys"
  by (induction xs rule: report_ids.induct) simp_all

lemma sync_view_sel [simp]:
  "sync_view (update_state sy) = sync_view sy" "sync_view (sy\<lparr>sy_chain := bc\<rparr>) = sync_view sy"
  "sync_view (put_range sy st) = (fst st, rs_chains (snd st))" "sync_view (add_full_peer sy p) = sync_view sy"
  "sync_view (put_downloaded sy bs) = sync_view sy" "sync_view (sy\<lparr>sy_full_peers := ps\<rparr>) = sync_view sy"
  by (simp_all add: sync_view_def update_state_def put_range_def add_full_peer_def put_downloaded_def case_prod_unfold)

lemma ends_ok_bind_Some: "ends_ok (run_bind (Some r) k) P \<longleftrightarrow> (\<forall>x. r = Some x \<longrightarrow> ends_ok (k x) P)"
  by (cases r) simp_all

lemma on_chain_ok: "ends_ok m (sync_ok reports) \<Longrightarrow> ends_ok (on_chain st m) (\<lambda>(net, rs). sync_ok reports (net, rs_chains rs))"
  unfolding on_chain_def by (rule ends_ok_run_bind [where P = "sync_ok reports"]) auto

lemma range_add_peer_ok:
  assumes "overflow_checks E" "sync_ok reports (net, rs_chains rs)"
  shows "ends_ok (range_add_peer E S bc (net, rs) p remote) (\<lambda>(net, rs). sync_ok reports (net, rs_chains rs))"
proof -
  have "sync_ok reports (net, (rs_chains rs)\<lparr>sc_target_head_slot := n, sc_target_head_root := h\<rparr>)" for n h
    using assms(2) by (simp add: sync_ok_def)
  note add = chain_add_peer_ok [OF assms(1) this]
  have "ends_ok (run_bind (Some (current_block E bc)) (\<lambda>head. start_syncing E S st1 (block_height head))) (sync_ok reports)"
    if "sync_ok reports st1" for st1
    using start_syncing_ok [OF assms(1), of reports "fst st1" "snd st1"] that
    by (intro ends_ok_run_bind [where P = "\<lambda>_. True"]) simp_all
  then show ?thesis unfolding range_add_peer_def remove_peer_def Let_def prod.case
    by (intro on_chain_ok ends_ok_run_bind [OF add]) simp
qed

lemma status_peers_id:
  "\<lbrakk>status_peers E bc net ps = Some net'; overflow_checks E\<rbrakk> \<Longrightarrow> unat (sn_request_id net) \<le> unat (sn_request_id net')"
proof (induction ps arbitrary: net)
  case (Cons p ps)
  then obtain net1 where net1: "status_peer E bc net p = Some net1" "status_peers E bc net1 ps = Some net'"
    by (auto split: bind_splits)
  have "unat (sn_request_id net) \<le> unat (sn_request_id net1)"
    using net1(1) sync_send_requestE(1) [OF _ Cons(3)] by (fastforce simp: status_peer_def split: bind_splits option.splits)
  with Cons(1) [OF net1(2) Cons(3)] show ?case by simp
qed simp

lemma handle_block_process_result_ok:
  assumes "overflow_checks E" "sync_ok (i # reports) (net, rs_chains rs)"
  shows "ends_ok (handle_block_process_result E S bc (net, rs) i blocks result) (\<lambda>(net, rs). sync_ok reports (net, rs_chains rs))"
  unfolding handle_block_process_result_def fst_conv snd_conv
proof (rule on_chain_ok, rule ends_ok_run_bind [OF on_batch_process_result_ok [OF assms]], clarify)
  fix r d net' sc' assume ok: "sync_ok reports (net', sc')"
  have "sync_ok reports (net1, sc'\<lparr>sc_state := ChainStopped\<rparr>)" if "status_peers E bc net' ps = Some net1" for net1 ps
    using sync_ok_network [OF ok status_peers_id [OF that assms(1)]] by (simp add: sync_ok_def)
  with ok show "ends_ok (case Some r of
      None \<Rightarrow> run_bind (on_batch_process_result E S (net', sc') i d result) (\<lambda>(res', downloaded', st'). Some (Some st'))
    | Some KeepChain \<Rightarrow> Some (Some (net', sc'))
    | Some RemoveChain \<Rightarrow> run_bind (Some (status_peers E bc net' (sc_peer_pool sc')))
        (\<lambda>net1. Some (Some (net1, sc'\<lparr>sc_state := ChainStopped\<rparr>)))) (sync_ok reports)"
    by (cases r) (auto intro: ends_ok_run_bind [where P = "\<lambda>net1. status_peers E bc net' (sc_peer_pool sc') = Some net1"])
qed

lemma request_for_block_ok:
  "\<lbrakk>overflow_checks E; sync_ok reports (sync_view sy); request_for_block E (put_downloaded sy bs) p h = Some sy'\<rbrakk> \<Longrightarrow>
    sync_ok reports (sync_view sy')"
  by (auto simp: request_for_block_def request_by_hash_def sync_view_def put_downloaded_def split: bind_splits
      dest!: sync_send_requestE(1) elim!: sync_ok_network)

lemma sync_dispatch_ok:
  assumes "overflow_checks E" "sync_ok (report_ids (m # inbox)) (sync_view sy)"
  shows "ends_ok (sync_dispatch E S sy m) (\<lambda>sy'. sync_ok (report_ids inbox) (sync_view sy'))"
proof (cases m)
  case (AddPeer p info)
  have ok: "sync_ok (report_ids inbox) (sy_network sy, rs_chains (sy_range_sync sy))"
    using assms(2) by (simp add: AddPeer sync_view_def)
  have "ends_ok (run_bind (range_add_peer E S (sy_chain sy) (sy_network sy, sy_range_sync sy) p info)
      (\<lambda>st. Some (Some (update_state (put_range sy' st))))) (\<lambda>sy'. sync_ok (report_ids inbox) (sync_view sy'))" for sy'
    by (rule ends_ok_run_bind [OF range_add_peer_ok [OF assms(1) ok]]) auto
  then show ?thesis using assms(2) unfolding AddPeer sync_dispatch_def sync_message.case sync_add_peer_def Let_def
    by (auto simp: ends_ok_bind_Some add_full_peer_def split: option.splits)
next
  case (BlocksByRangeResponse p i blk)
  have ok: "sync_ok (report_ids inbox) (sy_network sy, rs_chains (sy_range_sync sy))"
    using assms(2) by (simp add: BlocksByRangeResponse sync_view_def)
  have "ends_ok (range_blocks_response E S (sy_network sy, sy_range_sync sy) p i blk)
      (\<lambda>(net, rs). sync_ok (report_ids inbox) (net, rs_chains rs))"
    unfolding range_blocks_response_def fst_conv snd_conv
    by (intro on_chain_ok ends_ok_run_bind [OF on_block_response_ok [OF assms(1) ok]]) auto
  then show ?thesis unfolding BlocksByRangeResponse sync_dispatch_def sync_message.case
    by (rule ends_ok_run_bind) auto
next
  case (BlocksByHashResponse p i blk)
  then show ?thesis using assms request_for_block_ok [OF assms(1), of "report_ids inbox" sy]
    by (auto simp: sync_dispatch_def blocks_by_root_response_def split: option.splits bind_splits if_splits)
next
  case (OrphanBlock p b)
  then show ?thesis using assms request_for_block_ok [OF assms(1), of "report_ids inbox" sy]
    by (auto simp: sync_dispatch_def add_unknown_block_def)
next
  case (PeerGone p)
  then show ?thesis using assms(2)
    by (auto simp: sync_dispatch_def peer_disconnect_def Let_def range_peer_disconnect_def remove_peer_def sync_view_def
        update_state_def put_range_def)
next
  case (BatchProcessed i blocks result)
  then have "sync_ok (i # report_ids inbox) (sy_network sy, rs_chains (sy_range_sync sy))"
    using assms(2) by (simp add: sync_view_def)
  from handle_block_process_result_ok [OF assms(1) this]
  show ?thesis unfolding BatchProcessed sync_dispatch_def sync_message.case by (rule ends_ok_run_bind) auto
qed (use assms(2) in \<open>simp add: sync_dispatch_def\<close>)

lemma sync_handle_ok:
  assumes "overflow_checks E" "sync_ok (report_ids (m # inbox)) (sync_view sy)"
  shows "ends_ok (sync_handle E S sy m) (\<lambda>sy'. sync_ok (report_ids inbox) (sync_view sy'))"
  unfolding sync_handle_def by (rule ends_ok_run_bind [OF sync_dispatch_ok [OF assms]]) simp

lemma sync_reach_ok:
  assumes "sync_reach E S sy inbox" "overflow_checks E"
  shows "sync_ok (report_ids inbox) (sync_view sy)"
  using assms(1)
proof induction
  case (reach_start bc c sy)
  then show ?case
    by (auto simp: sync_spawn_def range_sync_new_def sync_view_def syncing_chain_new_def sync_ok_def pending_new_def
        pending_len_def pending_ok_def listed_def split: bind_splits)
next
  case (reach_handle sy m inbox sy')
  then show ?case using sync_handle_ok [OF assms(2), of m inbox sy S] by simp
next
  case (reach_processed sy inbox rs sc js job js' m bc)
  obtain i blocks r where m: "m = BatchProcessed i blocks r" "fst job = i"
    using reach_processed(5) by (auto simp: run_block_processor_def case_prod_unfold split: bind_splits)
  with reach_processed show ?case
    by (auto simp: sync_ok_def sync_view_def append_eq_Cons_conv split: option.splits)
qed simp_all

text \<open>C39. However messages, imports and threads interleave, the synchronisation task never runs forever on a message, and its
  download stays consistent: every peer with a pending request has exactly one, every batch lies where its number
  says and holds one to five heights, completed batches wait in their order, at most six are pending or complete, and at
  most one batch is being imported.\<close>

theorem reachable_sync_ok:
  assumes "sync_reach E S sy inbox" "overflow_checks E" "sc = rs_chains (sy_range_sync sy)"
  shows "(\<forall>m ms. inbox = m # ms \<longrightarrow> sync_handle E S sy m \<noteq> None) \<and>
    pending_ok (sc_pending_batches sc) \<and>
    (\<forall>b \<in> set (sc_completed_batches sc) \<union> ran (map_of (pb_batches (sc_pending_batches sc))). batch_ok (sc_start_numer sc) b) \<and>
    sorted (map (\<lambda>b. batch_num (bt_id b)) (sc_completed_batches sc)) \<and>
    length (sc_completed_batches sc) + pending_len (sc_pending_batches sc) \<le> 6 \<and>
    length (sc_spawned sc) + length (report_ids inbox) \<le> 1"
proof (intro conjI)
  note ok = sync_reach_ok [OF assms(1,2)]
  show "\<forall>m ms. inbox = m # ms \<longrightarrow> sync_handle E S sy m \<noteq> None"
    using sync_handle_ok [OF assms(2)] ok by (fastforce simp: ends_ok_def)
  have "length (map fst (sc_spawned sc) @ report_ids inbox) \<le> 1"
    using ok by (auto simp: sync_ok_def sync_view_def assms(3) simp del: length_append split: option.splits)
  then show "length (sc_spawned sc) + length (report_ids inbox) \<le> 1" by simp
  show "pending_ok (sc_pending_batches sc)" "sorted (map (\<lambda>b. batch_num (bt_id b)) (sc_completed_batches sc))"
    "length (sc_completed_batches sc) + pending_len (sc_pending_batches sc) \<le> 6"
    "\<forall>b \<in> set (sc_completed_batches sc) \<union> ran (map_of (pb_batches (sc_pending_batches sc))). batch_ok (sc_start_numer sc) b"
    using ok by (auto simp: sync_ok_def sync_view_def assms(3) ran_def)
qed

end
