(* ===== verification/Net_Service.thy ===== *)
theory Net_Service
  imports Batches "HOL-Library.Sublist"
begin

text \<open>
  The way of a message between the node and the swarm of \<^verbatim>\<open>libp2p\<close>: the behaviour
  (\<^verbatim>\<open>network/src/behaviour.rs\<close>, \<^verbatim>\<open>network/src/p2p/mod.rs\<close>), the service with its peers and bans
  (\<^verbatim>\<open>network/src/service.rs\<close>) and the task that connects it with the message handler
  (\<^verbatim>\<open>network/src/manager.rs\<close>). What the swarm does is outside: the events it yields are arguments, the calls into it
  are recorded.
\<close>

section \<open>Events\<close>

text \<open>An address is its printed form.\<close>

type_synonym multiaddr = string

datatype connected_point = Listener multiaddr multiaddr | Dialer multiaddr

datatype p2p_message =
    MessageP2P peer_id p2p_event
  | MessageConnect peer_id connected_point
  | MessageDisconnected peer_id

datatype behaviour_event =
    BehaviourRPC peer_id p2p_event
  | InjectConnect peer_id connected_point
  | BehaviourDisconnected peer_id
  | GossipMessage message_id peer_id "string list" pubsub_message
  | FindPeers peer_id "multiaddr list"

datatype libp2p_event =
    ServiceRPC peer_id p2p_event
  | ServiceDialed peer_id
  | ServiceDisconnected peer_id
  | ServicePubsub message_id peer_id "string list" pubsub_message

datatype swarm_call =
    CallPublish topic bytes
  | CallPropagate peer_id message_id
  | CallDial multiaddr
  | CallBan peer_id
  | CallInjectDisconnected peer_id
  | CallUnban peer_id

section \<open>The request protocol\<close>

datatype p2p_action = SendEvent peer_id p2p_event | GenerateEvent p2p_message

record p2p =
  p2p_events :: "p2p_action list"

definition p2p_new :: p2p where
  "p2p_new = \<lparr>p2p_events = []\<rparr>"

definition p2p_send_rpc :: "p2p \<Rightarrow> peer_id \<Rightarrow> p2p_event \<Rightarrow> p2p" where
  "p2p_send_rpc s p ev = s\<lparr>p2p_events := p2p_events s @ [SendEvent p ev]\<rparr>"

definition inject_connected :: "p2p \<Rightarrow> peer_id \<Rightarrow> connected_point \<Rightarrow> p2p" where
  "inject_connected s p cp = s\<lparr>p2p_events := p2p_events s @ [GenerateEvent (MessageConnect p cp)]\<rparr>"

definition inject_disconnected :: "p2p \<Rightarrow> peer_id \<Rightarrow> p2p" where
  "inject_disconnected s p = s\<lparr>p2p_events := p2p_events s @ [GenerateEvent (MessageDisconnected p)]\<rparr>"

definition inject_node_event :: "p2p \<Rightarrow> peer_id \<Rightarrow> p2p_event \<Rightarrow> p2p" where
  "inject_node_event s p ev = s\<lparr>p2p_events := p2p_events s @ [GenerateEvent (MessageP2P p ev)]\<rparr>"

definition p2p_poll :: "p2p \<Rightarrow> p2p_action option \<times> p2p" where
  "p2p_poll s = (case p2p_events s of [] \<Rightarrow> (None, s) | e # es \<Rightarrow> (Some e, s\<lparr>p2p_events := es\<rparr>))"

section \<open>The behaviour\<close>

text \<open>The cache of seen messages is of the crate \<^verbatim>\<open>lru\<close>: \<open>lru_put\<close> tells whether the key was there.\<close>

record 'l lru_env =
  lru_put :: "'l \<Rightarrow> message_id \<Rightarrow> bool \<times> 'l"

record 'l behaviour =
  bh_events :: "behaviour_event list"
  bh_seen_gossip_messages :: 'l
  bh_p2p :: p2p

definition inject_gossip ::
  "'l lru_env \<Rightarrow> 'l behaviour \<Rightarrow> peer_id \<Rightarrow> message_id \<Rightarrow> string list \<Rightarrow> bytes \<Rightarrow> 'l behaviour" where
  "inject_gossip L bh source i topics data =
    (let msg = from_topics topics data;
         (seen, cache) = lru_put L (bh_seen_gossip_messages bh) i;
         bh1 = bh\<lparr>bh_seen_gossip_messages := cache\<rparr>
     in if \<not> seen then bh1\<lparr>bh_events := bh_events bh1 @ [GossipMessage i source topics msg]\<rparr> else bh1)"

definition inject_p2p :: "'l behaviour \<Rightarrow> p2p_message \<Rightarrow> 'l behaviour" where
  "inject_p2p bh m =
    bh\<lparr>bh_events := bh_events bh @ [case m of
      MessageConnect p cp \<Rightarrow> InjectConnect p cp
    | MessageDisconnected p \<Rightarrow> BehaviourDisconnected p
    | MessageP2P p ev \<Rightarrow> BehaviourRPC p ev]\<rparr>"

definition inject_routing_updated :: "'l behaviour \<Rightarrow> peer_id \<Rightarrow> multiaddr list \<Rightarrow> 'l behaviour" where
  "inject_routing_updated bh p addrs = bh\<lparr>bh_events := bh_events bh @ [FindPeers p addrs]\<rparr>"

definition behaviour_poll :: "'l behaviour \<Rightarrow> behaviour_event option \<times> 'l behaviour" where
  "behaviour_poll bh = (case bh_events bh of [] \<Rightarrow> (None, bh) | e # es \<Rightarrow> (Some e, bh\<lparr>bh_events := es\<rparr>))"

definition publish :: "topic list \<Rightarrow> pubsub_message \<Rightarrow> swarm_call list" where
  "publish topics message = (let data = into_data message in map (\<lambda>t. CallPublish t data) topics)"

definition swarm_propagate :: "peer_id \<Rightarrow> message_id \<Rightarrow> swarm_call list" where
  "swarm_propagate p i = [CallPropagate p i]"

definition swarm_send_rpc :: "'l behaviour \<Rightarrow> peer_id \<Rightarrow> p2p_event \<Rightarrow> 'l behaviour" where
  "swarm_send_rpc bh p ev = bh\<lparr>bh_p2p := p2p_send_rpc (bh_p2p bh) p ev\<rparr>"

section \<open>The service\<close>

definition BAN_PEER_WAIT_TIMEOUT :: u64 where "BAN_PEER_WAIT_TIMEOUT = 200"

datatype dial_status = Connected | Dial | Dialing | Disconnected | UnknownStatus

record dial_node =
  dn_addrs :: "multiaddr list"
  dn_state :: dial_status

text \<open>The two delay queues are the entries with their delays in milliseconds.\<close>

record 'l service =
  sv_behaviour :: "'l behaviour"
  sv_peers_to_ban :: "(peer_id \<times> u64) list"
  sv_peer_ban_timeout :: "(peer_id \<times> u64) list"
  sv_peers :: "peer_id list"
  sv_nodes :: "(peer_id \<times> dial_node) list"
  sv_calls :: "swarm_call list"

definition call_swarm :: "'l service \<Rightarrow> swarm_call list \<Rightarrow> 'l service" where
  "call_swarm sv cs = sv\<lparr>sv_calls := sv_calls sv @ cs\<rparr>"

definition disconnect_and_ban_peer :: "'l service \<Rightarrow> peer_id \<Rightarrow> u64 \<Rightarrow> 'l service" where
  "disconnect_and_ban_peer sv p timeout =
    sv\<lparr>sv_peers_to_ban := sv_peers_to_ban sv @ [(p, BAN_PEER_WAIT_TIMEOUT)],
       sv_peer_ban_timeout := sv_peer_ban_timeout sv @ [(p, timeout)]\<rparr>"

text \<open>One round of the loop of \<^verbatim>\<open>dial_peer\<close>; \<^verbatim>\<open>node.addrs[0]\<close> panics without an address.\<close>

definition dial_one :: "'l service \<Rightarrow> peer_id \<times> dial_node \<Rightarrow> 'l service option" where
  "dial_one sv = (\<lambda>(p, node).
    if p \<in> set (sv_peers sv) then Some sv
    else if dn_state node \<noteq> UnknownStatus \<and> dn_state node \<noteq> Disconnected then Some sv
    else (case dn_addrs node of
            [] \<Rightarrow> None
          | a # as \<Rightarrow> Some (call_swarm (sv\<lparr>sv_nodes := AList.update p (node\<lparr>dn_state := Dial\<rparr>) (sv_nodes sv)\<rparr>) [CallDial a])))"

fun dial_nodes :: "'l service \<Rightarrow> (peer_id \<times> dial_node) list \<Rightarrow> 'l service option" where
  "dial_nodes sv [] = Some sv"
| "dial_nodes sv (n # ns) = do { sv1 \<leftarrow> dial_one sv n; dial_nodes sv1 ns }"

definition dial_peer :: "'l service \<Rightarrow> 'l service option" where
  "dial_peer sv = dial_nodes sv (sv_nodes sv)"

fun dial_ticks :: "'l service \<Rightarrow> nat \<Rightarrow> 'l service option" where
  "dial_ticks sv 0 = Some sv"
| "dial_ticks sv (Suc n) = (if 8 < length (sv_peers sv) then Some sv else do { sv1 \<leftarrow> dial_peer sv; dial_ticks sv1 n })"

definition dialable :: "multiaddr \<Rightarrow> bool" where
  "dialable a \<longleftrightarrow> \<not> (sublist ''127.0.0.1'' a \<or> \<not> sublist ''ip4'' a)"

text \<open>What the loop over the events of the swarm does with one of them: return it, go on, or leave the loop.\<close>

datatype loop_result = Return libp2p_event | Continue | Break

definition service_event :: "'l service \<Rightarrow> behaviour_event \<Rightarrow> (loop_result \<times> 'l service) option" where
  "service_event sv ev =
    (case ev of
       GossipMessage i source topics message \<Rightarrow> Some (Return (ServicePubsub i source topics message), sv)
     | BehaviourRPC p e \<Rightarrow> Some (Return (ServiceRPC p e), sv)
     | InjectConnect p cp \<Rightarrow>
         (let sv1 = sv\<lparr>sv_peers := set_insert p (sv_peers sv),
                       sv_nodes := (case map_of (sv_nodes sv) p of
                                      Some v \<Rightarrow> AList.update p (v\<lparr>dn_state := Connected\<rparr>) (sv_nodes sv)
                                    | None \<Rightarrow> sv_nodes sv)\<rparr>
          in Some (case cp of Listener a b \<Rightarrow> Continue | Dialer a \<Rightarrow> Return (ServiceDialed p), sv1))
     | BehaviourDisconnected p \<Rightarrow> do {
         v \<leftarrow> map_of (sv_nodes sv) p;
         Some (Return (ServiceDisconnected p),
               sv\<lparr>sv_nodes := AList.update p (v\<lparr>dn_state := Disconnected\<rparr>) (sv_nodes sv),
                  sv_peers := set_remove p (sv_peers sv)\<rparr>) }
     | FindPeers p addrs \<Rightarrow>
         Some (if map_of (sv_nodes sv) p = None
               then (Break, let good = filter dialable addrs
                            in if good \<noteq> [] then sv\<lparr>sv_nodes := AList.update p \<lparr>dn_addrs = good, dn_state = UnknownStatus\<rparr> (sv_nodes sv)\<rparr> else sv)
               else (Continue, sv)))"

text \<open>
  The loop on the events that are ready, with those it leaves behind; then, when no event is returned, \<open>ticks\<close> elapsed
  dial intervals and the peers whose delays are over.
\<close>

fun service_events ::
  "'l service \<Rightarrow> behaviour_event list \<Rightarrow> (libp2p_event option \<times> behaviour_event list \<times> 'l service) option" where
  "service_events sv [] = Some (None, [], sv)"
| "service_events sv (ev # evs) =
    do { (r, sv1) \<leftarrow> service_event sv ev;
         (case r of
            Return e \<Rightarrow> Some (Some e, evs, sv1)
          | Continue \<Rightarrow> service_events sv1 evs
          | Break \<Rightarrow> Some (None, evs, sv1)) }"

definition drop_entries :: "peer_id list \<Rightarrow> (peer_id \<times> u64) list \<Rightarrow> (peer_id \<times> u64) list" where
  "drop_entries ps q = filter (\<lambda>e. fst e \<notin> set ps) q"

definition service_poll ::
  "'l service \<Rightarrow> behaviour_event list \<Rightarrow> nat \<Rightarrow> peer_id list \<Rightarrow> peer_id list
     \<Rightarrow> (libp2p_event option \<times> behaviour_event list \<times> 'l service) option" where
  "service_poll sv evs ticks banned unbanned =
    do { (r, evs1, sv1) \<leftarrow> service_events sv evs;
         (case r of
            Some e \<Rightarrow> Some (Some e, evs1, sv1)
          | None \<Rightarrow> do {
              sv2 \<leftarrow> dial_ticks sv1 ticks;
              let sv3 = call_swarm (sv2\<lparr>sv_peers_to_ban := drop_entries banned (sv_peers_to_ban sv2)\<rparr>)
                          (concat (map (\<lambda>p. [CallBan p, CallInjectDisconnected p]) banned));
              Some (None, evs1, call_swarm (sv3\<lparr>sv_peer_ban_timeout := drop_entries unbanned (sv_peer_ban_timeout sv3)\<rparr>)
                      (map CallUnban unbanned)) }) }"

section \<open>The network task\<close>

definition BAN_PEER_TIMEOUT :: u64 where "BAN_PEER_TIMEOUT = 30"

text \<open>One message of the node to the swarm.\<close>

definition network_dispatch :: "'l service \<Rightarrow> network_message \<Rightarrow> 'l service" where
  "network_dispatch sv m =
    (case m of
       Publish topics message \<Rightarrow> call_swarm sv (publish topics message)
     | P2P p ev \<Rightarrow> sv\<lparr>sv_behaviour := swarm_send_rpc (sv_behaviour sv) p ev\<rparr>
     | Propagate p i \<Rightarrow> call_swarm sv (swarm_propagate p i)
     | Disconnect p \<Rightarrow> disconnect_and_ban_peer sv p (BAN_PEER_TIMEOUT * 1000))"

definition network_drain :: "'l service \<Rightarrow> network_message list \<Rightarrow> 'l service" where
  "network_drain sv ms = foldl network_dispatch sv ms"

text \<open>
  The loop over the events of the service: each is sent to the handler, a failing send ends the task, as does a closed
  channel from the node. The senders of a \<^verbatim>\<open>Goodbye\<close> are banned afterwards, last first.
\<close>

definition handler_message_of :: "libp2p_event \<Rightarrow> handler_message" where
  "handler_message_of e =
    (case e of
       ServiceRPC p ev \<Rightarrow> RPC p ev
     | ServicePubsub i source topics message \<Rightarrow> Gossip i source message
     | ServiceDialed p \<Rightarrow> PeerDialed p
     | ServiceDisconnected p \<Rightarrow> PeerDisconnected p)"

fun goodbye_from_peer :: "libp2p_event \<Rightarrow> peer_id list" where
  "goodbye_from_peer (ServiceRPC p (Request i (QGoodbye r))) = [p]"
| "goodbye_from_peer e = []"

fun forward_events ::
  "libp2p_event list \<Rightarrow> peer_id list \<Rightarrow> handler_message channel \<Rightarrow> (unit + peer_id list) \<times> handler_message channel" where
  "forward_events [] peers_to_ban c = (Inr peers_to_ban, c)"
| "forward_events (e # es) peers_to_ban c =
    (case try_send c (handler_message_of e) of
       (True, c') \<Rightarrow> forward_events es (peers_to_ban @ goodbye_from_peer e) c'
     | (False, c') \<Rightarrow> (Inl (), c'))"

definition network_service ::
  "'l service \<Rightarrow> network_message list \<Rightarrow> bool \<Rightarrow> libp2p_event list \<Rightarrow> handler_message channel
     \<Rightarrow> (unit + unit) \<times> 'l service \<times> handler_message channel" where
  "network_service sv ms closed es c =
    (let sv1 = network_drain sv ms
     in if closed then (Inl (), sv1, c)
        else case forward_events es [] c of
          (Inl _, c') \<Rightarrow> (Inl (), sv1, c')
        | (Inr ps, c') \<Rightarrow> (Inr (), foldl (\<lambda>s p. disconnect_and_ban_peer s p (BAN_PEER_TIMEOUT * 1000)) sv1 (rev ps), c'))"

section \<open>Events arrive as they were sent\<close>

lemma forward_events_all:
  "receiver_alive c \<Longrightarrow> forward_events es ps c =
    (Inr (ps @ concat (map goodbye_from_peer es)), c\<lparr>sent := sent c @ map handler_message_of es\<rparr>)"
proof (induction es arbitrary: ps c)
  case (Cons e es)
  then show ?case using Cons(1) [of "c\<lparr>sent := sent c @ [handler_message_of e]\<rparr>"] by (simp add: try_send_def)
qed simp

text \<open>A disconnected peer that was never found by the routing makes the service panic.\<close>

lemma unknown_disconnect_panics: "map_of (sv_nodes sv) p = None \<Longrightarrow> service_event sv (BehaviourDisconnected p) = None"
  by (simp add: service_event_def)

text \<open>A published block reaches the handler of a peer that has not seen it as a gossiped block.\<close>

lemma published_block_delivered:
  assumes "publish [topic_into MapBlock] (PBlock data) = [CallPublish t d]" "\<not> fst (lru_put L (bh_seen_gossip_messages bh) i)"
    and "bh_events bh = []"
  shows "\<exists>bh'. behaviour_poll (inject_gossip L bh source i [t] d) = (Some (GossipMessage i source [t] (PBlock data)), bh')"
proof -
  have t: "t = topic_builder MAP_BLOCK_TOPIC" "d = data"
    using assms(1) by (simp_all add: publish_def Let_def topic_into_def)
  have "gossip_topic_from t = MapBlock"
    unfolding t(1) gossip_topic_from_def by (subst topic_builder_parts) (simp_all add: MAP_BLOCK_TOPIC_def Let_def)
  then have "from_topics [t] d = PBlock data" by (simp add: t(2))
  then show ?thesis using assms(2,3) by (simp add: inject_gossip_def behaviour_poll_def case_prod_unfold Let_def)
qed

end
