(* ===== verification/Vrf.thy ===== *)
theory Vrf
  imports Keys
begin

text \<open>
  The verifiable random function (src/common/crypto/src/vrf.rs), over the ristretto group of
  \<^verbatim>\<open>curve25519_dalek\<close>. Its scalars are a field and its points a commutative group; the other operations
  of that crate, of \<^verbatim>\<open>blake2\<close>, \<^verbatim>\<open>blake2b_rs\<close> and \<^verbatim>\<open>ed25519_dalek\<close> are fields of the record
  \<open>ristretto\<close>. \<open>edwards_ristretto\<close> is the transmutation of an Edwards point, which depends on the layout
  of the types of the crate. The random key of \<^verbatim>\<open>SecretKey::random\<close> is not modelled.
\<close>

record ('s, 'p, 'e) ristretto =
  scalar_mod_order :: "bytes \<Rightarrow> 's"
  scalar_mod_order_wide :: "bytes \<Rightarrow> 's"
  scalar_canonical :: "bytes \<Rightarrow> 's option"
  scalar_bytes :: "'s \<Rightarrow> bytes"
  point_mul :: "'s \<Rightarrow> 'p \<Rightarrow> 'p"
  base_point :: 'p
  point_compress :: "'p \<Rightarrow> bytes"
  point_decompress :: "bytes \<Rightarrow> 'p option"
  var_blake2b_32 :: "bytes \<Rightarrow> bytes"
  blake2b_512 :: "bytes \<Rightarrow> bytes"
  blake2b_rs_32 :: "bytes \<Rightarrow> bytes"
  expanded_bytes :: "bytes \<Rightarrow> bytes"
  edwards_decompress :: "bytes \<Rightarrow> 'e option"
  torsion_free :: "'e \<Rightarrow> bool"
  edwards_ristretto :: "'e \<Rightarrow> 'p"

section \<open>Hashing\<close>

text \<open>What can be hashed: bytes, a point, a scalar; a digest is the list of what was fed to it.\<close>

datatype ('s, 'p) hashable = HBytes bytes | HPoint 'p | HScalar 's

fun hash_into :: "('s, 'p, 'e, 'z) ristretto_scheme \<Rightarrow> ('s, 'p) hashable \<Rightarrow> bytes \<Rightarrow> bytes" where
  "hash_into R (HBytes b) digest = digest @ b"
| "hash_into R (HPoint p) digest = digest @ point_compress R p"
| "hash_into R (HScalar s) digest = digest @ scalar_bytes R s"

definition hash_chain :: "('s, 'p, 'e, 'z) ristretto_scheme \<Rightarrow> ('s, 'p) hashable list \<Rightarrow> bytes" where
  "hash_chain R ds = fold (hash_into R) ds []"

definition hash_s :: "('s, 'p, 'e, 'z) ristretto_scheme \<Rightarrow> ('s, 'p) hashable list \<Rightarrow> 's" where
  "hash_s R ds = scalar_mod_order R (var_blake2b_32 R (hash_chain R ds))"

definition prs :: "('s, 'p, 'e, 'z) ristretto_scheme \<Rightarrow> ('s, 'p) hashable list \<Rightarrow> 's" where
  "prs R ds = scalar_mod_order_wide R (blake2b_512 R (hash_chain R ds))"

section \<open>Encoding\<close>

definition unpack2 ::
  "(bytes \<Rightarrow> 'a option) \<Rightarrow> (bytes \<Rightarrow> 'b option) \<Rightarrow> bytes \<Rightarrow> ('a \<times> 'b) option" where
  "unpack2 u1 u2 d = do { a \<leftarrow> u1 (take 32 d); b \<leftarrow> u2 (drop 32 d); Some (a, b) }"

definition pack2 :: "('a \<Rightarrow> bytes) \<Rightarrow> ('b \<Rightarrow> bytes) \<Rightarrow> 'a \<times> 'b \<Rightarrow> bytes" where
  "pack2 p1 p2 x = p1 (fst x) @ p2 (snd x)"

definition unpack3 ::
  "(bytes \<Rightarrow> 'a option) \<Rightarrow> (bytes \<Rightarrow> 'b option) \<Rightarrow> (bytes \<Rightarrow> 'c option) \<Rightarrow> bytes \<Rightarrow> ('a \<times> 'b \<times> 'c) option" where
  "unpack3 u1 u2 u3 d =
    do { a \<leftarrow> u1 (take 32 d); b \<leftarrow> u2 (take 32 (drop 32 d)); c \<leftarrow> u3 (drop 64 d); Some (a, b, c) }"

definition pack3 :: "('a \<Rightarrow> bytes) \<Rightarrow> ('b \<Rightarrow> bytes) \<Rightarrow> ('c \<Rightarrow> bytes) \<Rightarrow> 'a \<times> 'b \<times> 'c \<Rightarrow> bytes" where
  "pack3 p1 p2 p3 x = p1 (fst x) @ p2 (fst (snd x)) @ p3 (snd (snd x))"

definition basemul :: "('s, 'p, 'e, 'z) ristretto_scheme \<Rightarrow> 's \<Rightarrow> 'p" where
  "basemul R s = point_mul R s (base_point R)"

definition safe_invert :: "'s::field \<Rightarrow> 's" where
  "safe_invert s = inverse (if s = 0 then 1 else s)"

definition vmul2 :: "('s, 'p::ab_group_add, 'e, 'z) ristretto_scheme \<Rightarrow> 's \<Rightarrow> 'p \<Rightarrow> 's \<Rightarrow> 'p \<Rightarrow> 'p" where
  "vmul2 R s1 p1 s2 p2 = point_mul R s1 p1 + point_mul R s2 p2"

definition hash_to_scalar :: "('s, 'p, 'e, 'z) ristretto_scheme \<Rightarrow> bytes \<Rightarrow> bytes \<Rightarrow> 's" where
  "hash_to_scalar R pk input = scalar_mod_order R (blake2b_rs_32 R (pk @ input))"

section \<open>Keys, values and proofs\<close>

datatype vrf_value = Value (value_bytes: bytes)

datatype vrf_evidence = Proof (evidence_bytes: bytes)

record 'p vrf_public_key =
  vpk_bytes :: bytes
  vpk_point :: 'p

record ('s, 'p) vrf_secret_key =
  vsk_scalar :: 's
  vsk_public :: "'p vrf_public_key"

definition vrf_public_from_bytes :: "('s, 'p, 'e, 'z) ristretto_scheme \<Rightarrow> bytes \<Rightarrow> 'p vrf_public_key option" where
  "vrf_public_from_bytes R b = do { p \<leftarrow> point_decompress R b; Some \<lparr>vpk_bytes = b, vpk_point = p\<rparr> }"

definition offset :: "('s, 'p, 'e, 'z) ristretto_scheme \<Rightarrow> 'p vrf_public_key \<Rightarrow> bytes \<Rightarrow> 's" where
  "offset R pk input = hash_s R [HBytes (vpk_bytes pk), HBytes input]"

definition vrf_is_valid ::
  "('s::field, 'p::ab_group_add, 'e, 'z) ristretto_scheme \<Rightarrow> 'p vrf_public_key \<Rightarrow> bytes \<Rightarrow> vrf_value \<Rightarrow> vrf_evidence \<Rightarrow> bool" where
  "vrf_is_valid R pk input val pf =
    (case point_decompress R (value_bytes val) of
       None \<Rightarrow> False
     | Some p \<Rightarrow>
        (case unpack2 (scalar_canonical R) (scalar_canonical R) (evidence_bytes pf) of
           None \<Rightarrow> False
         | Some (r, c) \<Rightarrow>
             hash_s R [HBytes (vpk_bytes pk), HBytes (value_bytes val),
               HPoint (vmul2 R (r + c * offset R pk input) (base_point R) c (vpk_point pk)),
               HPoint (vmul2 R r p c (base_point R))] = c))"

definition vrf_from_scalar :: "('s, 'p, 'e, 'z) ristretto_scheme \<Rightarrow> 's \<Rightarrow> ('s, 'p) vrf_secret_key" where
  "vrf_from_scalar R sk =
    (let pk = basemul R sk in \<lparr>vsk_scalar = sk, vsk_public = \<lparr>vpk_bytes = point_compress R pk, vpk_point = pk\<rparr>\<rparr>)"

definition vrf_secret_from_bytes :: "('s, 'p, 'e, 'z) ristretto_scheme \<Rightarrow> bytes \<Rightarrow> ('s, 'p) vrf_secret_key option" where
  "vrf_secret_from_bytes R b = do { s \<leftarrow> scalar_canonical R b; Some (vrf_from_scalar R s) }"

definition vrf_compute :: "('s::field, 'p, 'e, 'z) ristretto_scheme \<Rightarrow> ('s, 'p) vrf_secret_key \<Rightarrow> bytes \<Rightarrow> vrf_value" where
  "vrf_compute R k input =
    Value (point_compress R (basemul R (safe_invert (vsk_scalar k + offset R (vsk_public k) input))))"

definition vrf_compute_with_proof ::
  "('s::field, 'p, 'e, 'z) ristretto_scheme \<Rightarrow> ('s, 'p) vrf_secret_key \<Rightarrow> bytes \<Rightarrow> vrf_value \<times> vrf_evidence" where
  "vrf_compute_with_proof R key input =
    (let x = vsk_scalar key + offset R (vsk_public key) input;
         inv = safe_invert x;
         val = point_compress R (basemul R inv);
         k = prs R [HScalar x];
         c = hash_s R [HBytes (vpk_bytes (vsk_public key)), HBytes val, HPoint (basemul R k), HPoint (basemul R (inv * k))]
     in (Value val, Proof (pack2 (scalar_bytes R) (scalar_bytes R) (k - c * x, c))))"

definition vrf_secret_is_valid ::
  "('s::field, 'p::ab_group_add, 'e, 'z) ristretto_scheme \<Rightarrow> ('s, 'p) vrf_secret_key \<Rightarrow> bytes \<Rightarrow> vrf_value \<Rightarrow> vrf_evidence \<Rightarrow> bool" where
  "vrf_secret_is_valid R k input val pf = vrf_is_valid R (vsk_public k) input val pf"

text \<open>A secret key that dalek refuses panics, and so does a public key of a length other than 32.\<close>

definition convert_secret_key ::
  "'y dalek_scheme \<Rightarrow> ('s, 'p, 'e, 'z) ristretto_scheme \<Rightarrow> bytes \<Rightarrow> ('s, 'p) vrf_secret_key option" where
  "convert_secret_key E R key =
    do { sk \<leftarrow> unwrap_ok (secret_from_bytes E key);
         b \<leftarrow> slice 0 32 (expanded_bytes R sk);
         Some (vrf_from_scalar R (scalar_mod_order R b)) }"

definition convert_public_key :: "('s, 'p, 'e, 'z) ristretto_scheme \<Rightarrow> bytes \<Rightarrow> 'p vrf_public_key option option" where
  "convert_public_key R key =
    do { y \<leftarrow> copy_from_slice 32 key;
         Some (case edwards_decompress R y of
                 None \<Rightarrow> None
               | Some ep \<Rightarrow>
                   if \<not> torsion_free R ep then None
                   else let rp = edwards_ristretto R ep
                        in Some \<lparr>vpk_bytes = point_compress R rp, vpk_point = rp\<rparr>) }"

section \<open>Completeness\<close>

text \<open>What the code relies on: scalars act on points, and the encodings have 32 bytes and can be read back.\<close>

definition ristretto_ok :: "('s::field, 'p::ab_group_add, 'e, 'z) ristretto_scheme \<Rightarrow> bool" where
  "ristretto_ok R \<longleftrightarrow>
    (\<forall>a b p. point_mul R (a + b) p = point_mul R a p + point_mul R b p) \<and>
    (\<forall>a b p. point_mul R (a * b) p = point_mul R a (point_mul R b p)) \<and>
    (\<forall>p. point_decompress R (point_compress R p) = Some p) \<and>
    (\<forall>s. length (scalar_bytes R s) = 32 \<and> scalar_canonical R (scalar_bytes R s) = Some s)"

lemma ristretto_okD:
  assumes "ristretto_ok R"
  shows "point_mul R a p + point_mul R b p = point_mul R (a + b) p" "point_mul R a (point_mul R b p) = point_mul R (a * b) p"
    and "point_decompress R (point_compress R p) = Some p" "length (scalar_bytes R s) = 32" "scalar_canonical R (scalar_bytes R s) = Some s"
  using assms by (simp_all add: ristretto_ok_def)

lemma pack2_roundtrip:
  assumes "\<And>x. u1 (p1 x) = Some x" "\<And>x. u2 (p2 x) = Some x" "\<And>x. length (p1 x) = 32"
  shows "unpack2 u1 u2 (pack2 p1 p2 x) = Some x"
  by (simp add: unpack2_def pack2_def assms)

lemma vrf_proof_accepted:
  assumes "ristretto_ok R" and "s + offset R (vsk_public (vrf_from_scalar R s)) input \<noteq> 0"
  shows "case vrf_compute_with_proof R (vrf_from_scalar R s) input of
    (val, pf) \<Rightarrow> vrf_is_valid R (vsk_public (vrf_from_scalar R s)) input val pf \<and> val = vrf_compute R (vrf_from_scalar R s) input"
proof -
  note D = ristretto_okD [OF assms(1)]
  let ?pk = "vsk_public (vrf_from_scalar R s)"
  define off where "off = offset R ?pk input"
  define x where "x = s + off"
  define k where "k = prs R [HScalar x]"
  define p where "p = basemul R (inverse x)"
  define c where "c = hash_s R [HBytes (vpk_bytes ?pk), HBytes (point_compress R p), HPoint (basemul R k), HPoint (basemul R (inverse x * k))]"
  have x: "x \<noteq> 0" using assms(2) by (simp add: x_def off_def)
  have pk: "vpk_point ?pk = basemul R s" "vsk_scalar (vrf_from_scalar R s) = s" by (simp_all add: vrf_from_scalar_def Let_def)
  have inv: "safe_invert x = inverse x" using x by (simp add: safe_invert_def)
  have run: "vrf_compute_with_proof R (vrf_from_scalar R s) input =
      (Value (point_compress R p), Proof (pack2 (scalar_bytes R) (scalar_bytes R) (k - c * x, c)))"
    using inv by (simp add: vrf_compute_with_proof_def Let_def pk off_def [symmetric] x_def [symmetric] k_def [symmetric]
        p_def [symmetric] c_def [symmetric])
  have eq1: "k - c * x + c * off + c * s = k" by (simp add: x_def algebra_simps)
  have first: "vmul2 R (k - c * x + c * off) (base_point R) c (vpk_point ?pk) = basemul R k"
    by (simp only: vmul2_def pk basemul_def D(1,2) eq1)
  have eq2: "(k - c * x) * inverse x + c = inverse x * k" using x by (simp add: field_simps)
  have second: "vmul2 R (k - c * x) p c (base_point R) = basemul R (inverse x * k)"
    by (simp only: vmul2_def p_def basemul_def D(1,2) eq2)
  have "vrf_is_valid R ?pk input (Value (point_compress R p)) (Proof (pack2 (scalar_bytes R) (scalar_bytes R) (k - c * x, c)))"
    by (simp add: vrf_is_valid_def D(3) pack2_roundtrip D(4,5) off_def [symmetric] first second c_def [symmetric])
  moreover have "vrf_compute R (vrf_from_scalar R s) input = Value (point_compress R p)"
    using inv by (simp add: vrf_compute_def pk off_def [symmetric] x_def [symmetric] p_def [symmetric])
  ultimately show ?thesis by (simp add: run)
qed

text \<open>C32. A proof made with a secret key is accepted under its public key, for the input it was made for, unless the
  key and the hash of the input cancel; the value in the answer is the one \<^verbatim>\<open>compute\<close> returns.\<close>

theorem vrf_completeness:
  assumes "ristretto_ok R" and "s + offset R (vsk_public (vrf_from_scalar R s)) input \<noteq> 0"
  shows "case vrf_compute_with_proof R (vrf_from_scalar R s) input of
    (val, pf) \<Rightarrow> vrf_is_valid R (vsk_public (vrf_from_scalar R s)) input val pf \<and> val = vrf_compute R (vrf_from_scalar R s) input"
  by (rule vrf_proof_accepted [OF assms])

end
