(* ===== verification/Apos.thy ===== *)
theory Apos
  imports Complex_Main Blockchain Vrf
begin

text \<open>
  The epochs of the proof of stake (src/generator/src/apos.rs and types.rs): the committee of an epoch, the
  lottery that decides who may produce the block of a slot, and its threshold.

  The value of \<^verbatim>\<open>1f64 - pskip.powf(1 as f64 / num as f64)\<close> is the parameter \<open>float_chance\<close>, since the
  precision of \<^verbatim>\<open>powf\<close> depends on the platform; \<^term>\<open>None\<close> is a result that is not finite. The chain behind
  the lock is an argument. \<^verbatim>\<open>genesis_epoch\<close> and \<^verbatim>\<open>get_epoch_info\<close> never return \<^verbatim>\<open>None\<close>, so their results
  are given without the \<^verbatim>\<open>Option\<close>. Reading the validators may run forever, so the results have the type
  of \<^const>\<open>run_bind\<close>.
\<close>

definition EPOCH_LENGTH :: u64 where
  "EPOCH_LENGTH = 64"

definition SLOT_DURATION :: u64 where
  "SLOT_DURATION = 6"

section \<open>Validators and stakeholders\<close>

type_synonym rng_seed = bytes

record validator_stake =
  vs_pubkey :: bytes
  vs_stake_amount :: u128
  vs_sid :: u64
  vs_validator :: bool

definition set_sid :: "validator_stake \<Rightarrow> u64 \<Rightarrow> validator_stake" where
  "set_sid v i = v\<lparr>vs_sid := i\<rparr>"

definition get_sid :: "validator_stake \<Rightarrow> u64" where
  "get_sid v = vs_sid v"

definition is_validator :: "validator_stake \<Rightarrow> bool" where
  "is_validator v = vs_validator v"

definition get_my_id :: "'z crates_scheme \<Rightarrow> validator_stake \<Rightarrow> hash" where
  "get_my_id E v = make_hash E (vs_pubkey v)"

definition get_pubkey :: "validator_stake \<Rightarrow> pubkey option" where
  "get_pubkey v = pubkey_from_bytes (vs_pubkey v)"

definition stake_into_pubkey :: "validator_stake \<Rightarrow> pubkey option" where
  "stake_into_pubkey v = pubkey_from_bytes (vs_pubkey v)"

record epoch_info =
  ep_seed :: u64
  ep_rng_seed :: rng_seed
  ep_validators :: "validator_stake list"

section \<open>The lottery\<close>

record ('s, 'p, 'e) slot_env = "('s, 'p, 'e) ristretto" +
  float_chance :: "u64 \<Rightarrow> u64 \<Rightarrow> rat option"

definition calc_random_threshold :: "('s, 'p, 'e, 'z) slot_env_scheme \<Rightarrow> u64 \<Rightarrow> u64 \<Rightarrow> u128 option" where
  "calc_random_threshold R skip num =
    do { p \<leftarrow> float_chance R skip num;
         (case quotient_of p of
            (numer, denom) \<Rightarrow>
              if numer < 0 then None
              else let q = 2 ^ 128 * nat numer div nat denom
                   in Some (if q < 2 ^ 128 then word_of_nat q else - 1)) }"

definition cmp_random_threshold :: "vrf_value \<Rightarrow> u128 \<Rightarrow> bool option" where
  "cmp_random_threshold random_value threshold =
    do { s \<leftarrow> slice_to 16 (value_bytes random_value);
         b \<leftarrow> copy_from_slice 16 s;
         Some (from_be_bytes b < threshold) }"

section \<open>Epochs\<close>

record epoch_pos =
  epoch_infos :: "(u64 \<times> epoch_info) list"
  eid :: u64
  dev_mode :: bool

definition epoch_pos_new :: "bool \<Rightarrow> epoch_pos" where
  "epoch_pos_new dev = \<lparr>epoch_infos = [], eid = 0, dev_mode = dev\<rparr>"

definition stake_of :: "validator \<Rightarrow> validator_stake option" where
  "stake_of v =
    do { pk \<leftarrow> copy_from_slice 32 (val_pubkey v);
         Some \<lparr>vs_pubkey = pk, vs_stake_amount = val_effective_balance v, vs_sid = 0, vs_validator = True\<rparr> }"

definition genesis_epoch ::
  "('kv, 'm, 't, 'r, 'z) chain_env_scheme \<Rightarrow> ('kv, 'm, 'r) block_chain \<Rightarrow> epoch_pos \<Rightarrow> epoch_info option option" where
  "genesis_epoch E bc pos =
    run_bind (Some (current_block E bc)) (\<lambda>cur_block.
    run_bind (validator_set E (state_at bc (block_state_root cur_block))) (\<lambda>validators.
    Some (do { holders \<leftarrow> (if dev_mode pos
                 then (case validators of [] \<Rightarrow> Some [] | v # _ \<Rightarrow> do { h \<leftarrow> stake_of v; Some [h] })
                 else those (map stake_of validators));
               Some \<lparr>ep_seed = 0, ep_rng_seed = replicate 32 0, ep_validators = holders\<rparr> })))"

definition next_epoch :: "'z crates_scheme \<Rightarrow> epoch_pos \<Rightarrow> epoch_pos option" where
  "next_epoch E pos = do { n \<leftarrow> uadd (overflow_checks E) (eid pos) 1; Some (pos\<lparr>eid := n\<rparr>) }"

definition dev_node :: "epoch_pos \<Rightarrow> bool" where
  "dev_node pos = dev_mode pos"

text \<open>The product with the length of the epoch is computed and not used.\<close>

definition compute_epoch_seed ::
  "('kv, 'm, 't, 'r, 'z) chain_env_scheme \<Rightarrow> ('kv, 'm, 'r) block_chain \<Rightarrow> u64 \<Rightarrow> rng_seed option option" where
  "compute_epoch_seed E bc epoch =
    do { _ \<leftarrow> umul (overflow_checks E) epoch EPOCH_LENGTH;
         block \<leftarrow> get_block_by_number E (bc_db bc) 0;
         Some (case block of
                 None \<Rightarrow> None
               | Some b \<Rightarrow> Some (blake2b_256 E (if epoch = 0 then replicate 32 0 else as_bytes (block_hash E b)))) }"

definition get_epoch_info ::
  "('kv, 'm, 't, 'r, 'z) chain_env_scheme \<Rightarrow> ('kv, 'm, 'r) block_chain \<Rightarrow> epoch_pos \<Rightarrow> u64 \<Rightarrow> epoch_info option option" where
  "get_epoch_info E bc pos e =
    (case map_of (epoch_infos pos) e of
       Some v \<Rightarrow> Some (Some v)
     | None \<Rightarrow>
         run_bind (genesis_epoch E bc pos) (\<lambda>epoch.
         Some (if e > 0 then do { r \<leftarrow> compute_epoch_seed E bc e; seed \<leftarrow> r; Some (epoch\<lparr>ep_rng_seed := seed\<rparr>) }
               else Some epoch)))"

definition get_proposer_index :: "'z crates_scheme \<Rightarrow> epoch_info \<Rightarrow> u64 \<Rightarrow> rng_seed \<Rightarrow> u64 option" where
  "get_proposer_index E stake slot_index seed =
    (let count = word_of_nat (length (ep_validators stake)) :: u64;
         slot_seed = blake2b_256 E (seed @ to_be_bytes 8 slot_index)
     in do { s \<leftarrow> slice_from 24 slot_seed;
             bs \<leftarrow> copy_from_slice 8 s;
             (if count = 0 then None else Some (from_be_bytes bs mod count)) })"

definition get_slot_proposer ::
  "('kv, 'm, 't, 'r, 'z) chain_env_scheme \<Rightarrow> ('kv, 'm, 'r) block_chain \<Rightarrow> epoch_pos \<Rightarrow> u64 \<Rightarrow> u64
     \<Rightarrow> validator_stake option option option" where
  "get_slot_proposer E bc pos index e =
    run_bind (get_epoch_info E bc pos e) (\<lambda>epoch.
    Some (do { proposer \<leftarrow> get_proposer_index E epoch (index mod EPOCH_LENGTH) (ep_rng_seed epoch);
               (if proposer \<ge> word_of_nat (length (ep_validators epoch)) then Some None
                else do { v \<leftarrow> nth_checked (ep_validators epoch) (unat proposer); Some (Some v) }) }))"

definition get_epoch_staking ::
  "('kv, 'm, 't, 'r, 'z) chain_env_scheme \<Rightarrow> ('kv, 'm, 'r) block_chain \<Rightarrow> epoch_pos \<Rightarrow> u64
     \<Rightarrow> validator_stake list option option option" where
  "get_epoch_staking E bc pos e =
    run_bind (get_epoch_info E bc pos e) (\<lambda>items.
    let vv = filter is_validator (ep_validators items) in Some (Some (if length vv > 0 then Some vv else None)))"

definition calc_epoch_threshold :: "('s, 'p, 'e, 'z) slot_env_scheme \<Rightarrow> u64 \<Rightarrow> epoch_info \<Rightarrow> u128 option" where
  "calc_epoch_threshold R e epoch = calc_random_threshold R 200 (word_of_nat (length (ep_validators epoch)))"

text \<open>The search for the own key among the validators; the own public key is computed for each that is looked at.\<close>

fun key_listed :: "'z dalek_scheme \<Rightarrow> privkey \<Rightarrow> validator_stake list \<Rightarrow> bool option" where
  "key_listed E k [] = Some False"
| "key_listed E k (x # xs) =
    do { pk \<leftarrow> pubkey_from_bytes (vs_pubkey x);
         my \<leftarrow> unwrap_ok (privkey_to_pubkey E k);
         (if pubkey_equal pk my then Some True else key_listed E k xs) }"

definition make_slot_proposer ::
  "('kv, 'm, 't, 'r, 'z) chain_env_scheme \<Rightarrow> ('s::field, 'p, 'e, 'y) slot_env_scheme \<Rightarrow> ('kv, 'm, 'r) block_chain
     \<Rightarrow> epoch_pos \<Rightarrow> u64 \<Rightarrow> privkey \<Rightarrow> (vrf_value \<times> vrf_evidence) option option option" where
  "make_slot_proposer E R bc pos sid private_key =
    (let e = sid div EPOCH_LENGTH
     in run_bind (get_epoch_info E bc pos e) (\<lambda>epoch_data.
        Some (do {
          listed \<leftarrow> key_listed E private_key (ep_validators epoch_data);
          (if \<not> listed then Some None
           else let seed = ep_rng_seed epoch_data @ to_be_bytes 8 sid
                in do {
                  secret_key \<leftarrow> convert_secret_key E R (privkey_to_bytes private_key);
                  let (vrf_val, vrf_prf) = vrf_compute_with_proof R secret_key (blake2b_256 E seed);
                  threshold \<leftarrow> calc_epoch_threshold R e epoch_data;
                  won \<leftarrow> cmp_random_threshold vrf_val threshold;
                  Some (if won then Some (vrf_val, vrf_prf) else None) }) })))"

definition get_seed_by_epochid ::
  "('kv, 'm, 't, 'r, 'z) chain_env_scheme \<Rightarrow> ('kv, 'm, 'r) block_chain \<Rightarrow> epoch_pos \<Rightarrow> u64 \<Rightarrow> u64 option option" where
  "get_seed_by_epochid E bc pos e = run_bind (get_epoch_info E bc pos e) (\<lambda>items. Some (Some (ep_seed items)))"

section \<open>Who may produce\<close>

text \<open>The values of 16 bytes below a threshold are as many as the threshold says.\<close>

lemma card_be_below:
  "card {bs. length bs = 16 \<and> from_be_bytes bs < (t :: u128)} = unat t"
proof -
  have rt: "to_be_bytes 16 (from_be_bytes bs :: u128) = bs" if "length bs = 16" for bs
    using that by (intro to_from_be_bytes) simp_all
  have rt2: "from_be_bytes (to_be_bytes 16 w) = w" for w :: u128
    by (intro from_to_bytes) simp_all
  have "bij_betw (to_be_bytes 16) {w. w < t} {bs. length bs = 16 \<and> from_be_bytes bs < t}"
    by (rule bij_betw_byWitness [where f' = from_be_bytes]) (auto simp: rt rt2)
  then have "card {bs. length bs = 16 \<and> from_be_bytes bs < t} = card {w. w < t}"
    by (simp add: bij_betw_same_card)
  moreover have "bij_betw unat {w. w < t} {..< unat t}"
    by (rule bij_betw_byWitness [where f' = word_of_nat])
      (auto simp: word_less_nat_alt unat_of_nat_small less_trans [OF _ unat_bound [of t, simplified]])
  ultimately show ?thesis by (simp add: bij_betw_same_card)
qed

lemma threshold_floor:
  assumes "float_chance R skip num = Some p" "0 \<le> p" "p \<le> 1"
  obtains t where "calc_random_threshold R skip num = Some t"
    "of_nat (unat t) \<le> 2 ^ 128 * p" "2 ^ 128 * p \<le> of_nat (unat t) + 1"
proof -
  obtain n d where q: "quotient_of p = (n, d)" by fastforce
  have d: "0 < d" and p: "p = of_int n / of_int d" using quotient_of_denom_pos [OF q] quotient_of_div [OF q] .
  have n: "0 \<le> n" "n \<le> d" using assms(2,3) d by (simp_all add: p zero_le_divide_iff divide_le_eq)
  define k where "k = 2 ^ 128 * nat n div nat d"
  have k: "int k = 2 ^ 128 * n div d" using n(1) d by (simp add: k_def zdiv_int)
  have "int k = \<lfloor>2 ^ 128 * p\<rfloor>"
    using floor_divide_of_int_eq [of "2 ^ 128 * n" d, where 'a = rat] by (simp add: p k)
  then have "rat_of_nat k = of_int \<lfloor>2 ^ 128 * p\<rfloor>" by (metis of_int_of_nat_eq)
  then have fl: "rat_of_nat k \<le> 2 ^ 128 * p" "2 ^ 128 * p < rat_of_nat k + 1" by linarith+
  have calc: "calc_random_threshold R skip num = Some (if k < 2 ^ 128 then word_of_nat k else - 1)"
    using assms(1) q n(1) by (simp add: calc_random_threshold_def Let_def k_def)
  show thesis
  proof (cases "k < 2 ^ 128")
    case True
    then have "unat (word_of_nat k :: u128) = k" by (simp add: unat_of_nat_small)
    with True calc fl show thesis by (intro that [of "word_of_nat k"]) simp_all
  next
    case False
    have "2 ^ 128 * p \<le> 2 ^ 128 * 1" using assms(3) by (intro mult_left_mono) simp_all
    moreover have "rat_of_nat (2 ^ 128) \<le> rat_of_nat k" using False by (simp only: of_nat_le_iff not_less)
    ultimately have "2 ^ 128 * p = 2 ^ 128" using fl(1) by simp
    moreover have "unat (- 1 :: u128) = 2 ^ 128 - 1" by (simp add: unsigned_minus_1_eq_mask mask_eq_exp_minus_1)
    ultimately show thesis using calc False by (intro that [of "- 1"]) simp_all
  qed
qed


section \<open>The committee\<close>

lemma stake_of_key: "stake_of v = Some w \<Longrightarrow> length (vs_pubkey w) = 32"
  by (auto simp: stake_of_def dest: copy_from_slice_SomeD split: bind_splits)

lemma stakes_of:
  assumes "\<forall>v \<in> set vs. length (val_pubkey v) = 32"
  obtains ws where "those (map stake_of vs) = Some ws" "list_all2 (\<lambda>v w. stake_of v = Some w) vs ws"
proof -
  have "\<exists>ws. those (map stake_of vs) = Some ws \<and> list_all2 (\<lambda>v w. stake_of v = Some w) vs ws"
    using assms by (induction vs) (auto simp: stake_of_def)
  with that show thesis by blast
qed

lemma chain_inv_genesis:
  "chain_inv E G H bc cs \<Longrightarrow> get_block_by_number E (bc_db bc) 0 = Some (Some (hd cs))"
  using holds_index [of E "bc_db bc" cs 0] holdsD(1) [of E "bc_db bc" cs] by (simp add: chain_inv_def hd_conv_nth)

lemma epoch_info_committee:
  assumes "chain_inv E G H bc cs" "staking_ok E" "digest_ok E"
    and "validators_of E (get_storage E (state_at bc (block_state_root (last cs)))) vs" "\<forall>v \<in> set vs. length (val_pubkey v) = 32"
    and "epoch_infos pos = []" "\<not> dev_mode pos" "unat e * 64 < 2 ^ 64"
  obtains epoch where "get_epoch_info E bc pos e = Some (Some epoch)" "length (ep_rng_seed epoch) = 32"
    "list_all2 (\<lambda>v w. stake_of v = Some w) vs (ep_validators epoch)"
proof -
  obtain ws where ws: "those (map stake_of vs) = Some ws" "list_all2 (\<lambda>v w. stake_of v = Some w) vs ws"
    using stakes_of [OF assms(5)] .
  let ?g = "\<lparr>ep_seed = 0, ep_rng_seed = replicate 32 0, ep_validators = ws\<rparr>"
  have g: "genesis_epoch E bc pos = Some (Some ?g)"
    using ws(1) assms(7) chain_inv_current(1) [OF assms(1)] validator_set_refines [OF assms(2,4)]
    by (simp add: genesis_epoch_def)
  have "umul (overflow_checks E) e EPOCH_LENGTH = Some (e * EPOCH_LENGTH)"
    using assms(8) by (intro umul_exact) (simp add: EPOCH_LENGTH_def)
  then have seed: "\<exists>s. compute_epoch_seed E bc e = Some (Some s) \<and> length s = 32"
    using chain_inv_genesis [OF assms(1)] assms(3) by (simp add: compute_epoch_seed_def)
  show thesis
  proof (cases "e > 0")
    case True
    from seed obtain s where "compute_epoch_seed E bc e = Some (Some s)" "length s = 32" by blast
    with True g ws(2) assms(6) show thesis by (intro that [of "?g\<lparr>ep_rng_seed := s\<rparr>"]) (simp_all add: get_epoch_info_def)
  next
    case False
    with g ws(2) assms(6) show thesis by (intro that [of ?g]) (simp_all add: get_epoch_info_def)
  qed
qed


section \<open>The proof of the winner\<close>

lemma key_listedD:
  assumes "key_listed E k ws = Some True"
  obtains w pk where "w \<in> set ws" "pubkey_from_bytes (vs_pubkey w) = Some pk" "unwrap_ok (privkey_to_pubkey E k) = Some pk"
proof -
  have "\<exists>w pk. w \<in> set ws \<and> pubkey_from_bytes (vs_pubkey w) = Some pk \<and> unwrap_ok (privkey_to_pubkey E k) = Some pk"
    using assms
  proof (induction ws)
    case (Cons x ws)
    from Cons.prems obtain pk my where x: "pubkey_from_bytes (vs_pubkey x) = Some pk" "unwrap_ok (privkey_to_pubkey E k) = Some my"
      "pubkey_equal pk my \<or> key_listed E k ws = Some True" by (auto split: bind_splits if_splits)
    show ?case
    proof (cases "pubkey_equal pk my")
      case True
      then have "pk = my" by (cases "pub_inner pk"; cases "pub_inner my") (simp add: pubkey_equal_def)
      with x show ?thesis by (intro exI [of _ x] exI [of _ pk]) simp
    next
      case False
      with x(3) Cons.IH show ?thesis by auto
    qed
  qed simp
  with that show thesis by blast
qed

text \<open>C35. A node that wins a slot is in the committee of its epoch, and can prove it: the value is the one its key gives for
  the hash of the seed and the slot, it is below the threshold, and the proof is accepted under the public key of the
  secret key, unless key and input cancel.\<close>

theorem winner_proves_slot:
  assumes "ristretto_ok R" "make_slot_proposer E R bc pos sid key = Some (Some (Some (val, pf)))"
    and "get_epoch_info E bc pos (sid div EPOCH_LENGTH) = Some (Some epoch)"
    and "convert_secret_key E R (privkey_to_bytes key) = Some k"
    and "vsk_scalar k + offset R (vsk_public k) (blake2b_256 E (ep_rng_seed epoch @ to_be_bytes 8 sid)) \<noteq> 0"
  shows "(\<exists>w \<in> set (ep_validators epoch). pubkey_from_bytes (vs_pubkey w) = unwrap_ok (privkey_to_pubkey E key)) \<and>
    (\<exists>t. calc_epoch_threshold R (sid div EPOCH_LENGTH) epoch = Some t \<and> cmp_random_threshold val t = Some True) \<and>
    val = vrf_compute R k (blake2b_256 E (ep_rng_seed epoch @ to_be_bytes 8 sid)) \<and>
    vrf_is_valid R (vsk_public k) (blake2b_256 E (ep_rng_seed epoch @ to_be_bytes 8 sid)) val pf"
proof -
  let ?input = "blake2b_256 E (ep_rng_seed epoch @ to_be_bytes 8 sid)"
  from assms(2-4) have run: "key_listed E key (ep_validators epoch) = Some True"
    "vrf_compute_with_proof R k ?input = (val, pf)"
    "\<exists>t. calc_epoch_threshold R (sid div EPOCH_LENGTH) epoch = Some t \<and> cmp_random_threshold val t = Some True"
    by (auto simp: make_slot_proposer_def Let_def split: bind_splits if_splits prod.splits)
  from assms(4) obtain s where k: "k = vrf_from_scalar R s"
    by (auto simp: convert_secret_key_def split: bind_splits)
  then have "vsk_scalar k = s" by (simp add: vrf_from_scalar_def Let_def)
  with assms(5) have "s + offset R (vsk_public (vrf_from_scalar R s)) ?input \<noteq> 0" by (simp add: k)
  from vrf_proof_accepted [OF assms(1) this]
  have "vrf_is_valid R (vsk_public k) ?input val pf \<and> val = vrf_compute R k ?input"
    unfolding run(2) [unfolded k] prod.case k .
  with run(3) key_listedD [OF run(1)] show ?thesis by metis
qed

end
