(* ===== verification/Epoch.thy ===== *)
theory Epoch
  imports Apos Tx_Pool Messages
begin

text \<open>
  The production of blocks (src/generator/src/epoch.rs): the builder that makes a block of the pending transactions,
  the clock of the slots, and the handler of a slot, which runs the lottery, produces the block, inserts it into the own
  chain, cleans the pool and publishes it.

  The chain and the pool behind the locks are fields of the state of the handler. The seconds since the epoch of the
  system clock are an argument, \<^term>\<open>None\<close> when the clock is before it. A \<^verbatim>\<open>Duration\<close> and an \<^verbatim>\<open>Instant\<close> are
  numbers of nanoseconds; whether the timer of tokio is due is an argument.
\<close>

section \<open>The builder\<close>

definition builder_apply_block ::
  "('kv, 'm, 't, 'r, 'z) chain_env_scheme \<Rightarrow> ('kv, 'm, 'r) block_chain \<Rightarrow> hash \<Rightarrow> block
     \<Rightarrow> (hash \<times> ('kv, 'm, 'r) block_chain) option" where
  "builder_apply_block E bc pre_root b =
    do { (r, s) \<leftarrow> exc_txs_in_block E b (state_at bc pre_root) address_default;
         h \<leftarrow> unwrap_ok r;
         Some (h, share_backend bc s) }"

definition prepare_transactions :: "tx_pool \<Rightarrow> transaction list" where
  "prepare_transactions p = get_pending p"

definition produce_block ::
  "('kv, 'm, 't, 'r, 'z) chain_env_scheme \<Rightarrow> ('kv, 'm, 'r) block_chain \<Rightarrow> tx_pool \<Rightarrow> u64 \<Rightarrow> hash \<Rightarrow> vrf_value \<Rightarrow> vrf_evidence
     \<Rightarrow> u64 option \<Rightarrow> (block \<times> ('kv, 'm, 'r) block_chain) option" where
  "produce_block E bc p slot parent vrf_out vrf_prf now =
    do { r \<leftarrow> get_block E (bc_db bc) parent;
         pre \<leftarrow> r;
         let b = block_new E header_default (prepare_transactions p) [] [];
         (post_root, bc') \<leftarrow> builder_apply_block E bc (block_state_root pre) b;
         h \<leftarrow> uadd (overflow_checks E) (block_height pre) 1;
         prf \<leftarrow> vrf_proof_new (evidence_bytes vrf_prf);
         time \<leftarrow> now;
         Some (b\<lparr>b_header := (b_header b)\<lparr>h_parent_hash := parent, h_height := h, h_slot := slot,
                 h_vrf_output := value_bytes vrf_out, h_vrf_proof := prf, h_state_root := post_root, h_time := time\<rparr>\<rparr>, bc') }"

definition get_current_height ::
  "('kv, 'm, 't, 'r, 'z) chain_env_scheme \<Rightarrow> ('kv, 'm, 'r) block_chain \<Rightarrow> u64 option" where
  "get_current_height E bc = do { b \<leftarrow> current_block E bc; Some (block_height b) }"

definition get_head_block ::
  "('kv, 'm, 't, 'r, 'z) chain_env_scheme \<Rightarrow> ('kv, 'm, 'r) block_chain \<Rightarrow> block option" where
  "get_head_block E bc = current_block E bc"

definition get_block_by_height ::
  "('kv, 'm, 't, 'r, 'z) chain_env_scheme \<Rightarrow> ('kv, 'm, 'r) block_chain \<Rightarrow> u64 \<Rightarrow> block option option" where
  "get_block_by_height E bc height = get_block_by_number E (bc_db bc) height"

definition get_sid_from_current_block ::
  "('kv, 'm, 't, 'r, 'z) chain_env_scheme \<Rightarrow> ('kv, 'm, 'r) block_chain \<Rightarrow> u64 option" where
  "get_sid_from_current_block E bc =
    do { b \<leftarrow> current_block E bc; uadd (overflow_checks E) (block_height b) 1 }"

definition get_best_chain :: "u64 \<Rightarrow> block option" where
  "get_best_chain height = Some block_default"

section \<open>Epochs and slots\<close>

definition epoch_from_height :: "u64 \<Rightarrow> u64" where
  "epoch_from_height h = h div EPOCH_LENGTH"

definition epoch_from_id :: "u64 \<Rightarrow> u64" where
  "epoch_from_id sid = sid div EPOCH_LENGTH"

definition get_height_from_eid :: "'z crates_scheme \<Rightarrow> u64 \<Rightarrow> (u64 \<times> u64) option" where
  "get_height_from_eid E e =
    (if sint e \<le> 0 then Some (0, 0)
     else do { e1 \<leftarrow> usub (overflow_checks E) e 1;
               low \<leftarrow> umul (overflow_checks E) e1 EPOCH_LENGTH;
               h \<leftarrow> umul (overflow_checks E) e EPOCH_LENGTH;
               hi \<leftarrow> usub (overflow_checks E) h 1;
               Some (low, hi) })"

record slot =
  slot_timeout :: u32
  slot_id :: i32
  slot_vindex :: u32

definition slot_new :: "i32 \<Rightarrow> u32 \<Rightarrow> slot" where
  "slot_new sid index = \<lparr>slot_timeout = 5000, slot_id = sid, slot_vindex = index\<rparr>"

type_synonym duration = nat

definition as_millis :: "duration \<Rightarrow> u128" where
  "as_millis d = word_of_nat (d div 1000000)"

definition from_secs :: "u64 \<Rightarrow> duration" where
  "from_secs n = unat n * 1000000000"

record slot_tick =
  st_slot_duration :: u64
  st_delay :: duration
  st_genesis_duration :: duration

definition slot_tick_new :: "u64 \<Rightarrow> duration \<Rightarrow> duration \<Rightarrow> duration \<Rightarrow> slot_tick" where
  "slot_tick_new d genesis instant_now now =
    \<lparr>st_slot_duration = d, st_delay = (if now < genesis then instant_now + (genesis - now) else instant_now),
     st_genesis_duration = genesis\<rparr>"

definition slot_at :: "'z crates_scheme \<Rightarrow> slot_tick \<Rightarrow> duration \<Rightarrow> u64 option" where
  "slot_at E t now =
    do { ms \<leftarrow> usub (overflow_checks E) (as_millis now) (as_millis (st_genesis_duration t));
         let d = as_millis (from_secs (st_slot_duration t));
         (if d = 0 then None else Some (ucast (ms div d))) }"

definition slot_tick_poll ::
  "'z crates_scheme \<Rightarrow> slot_tick \<Rightarrow> 'err + bool \<Rightarrow> duration \<Rightarrow> (('err + u64 option) \<times> slot_tick) option" where
  "slot_tick_poll E t delay_poll now =
    (case delay_poll of
       Inl e \<Rightarrow> Some (Inl e, t)
     | Inr False \<Rightarrow> Some (Inr None, t)
     | Inr True \<Rightarrow>
         (let t' = t\<lparr>st_delay := st_delay t + from_secs (st_slot_duration t)\<rparr>
          in do { s \<leftarrow> slot_at E t now; Some (Inr (Some s), t') }))"

section \<open>The handler of a slot\<close>

record ('kv, 'm, 'r) epoch_proposal =
  ep_myid :: privkey
  ep_pubkey :: pubkey
  ep_chain :: "('kv, 'm, 'r) block_chain"
  ep_stake :: epoch_pos
  ep_tx_pool :: tx_pool
  ep_network_send :: "network_message channel"

definition epoch_proposal_new ::
  "'z dalek_scheme \<Rightarrow> privkey \<Rightarrow> ('kv, 'm, 'r) block_chain \<Rightarrow> epoch_pos \<Rightarrow> tx_pool \<Rightarrow> network_message channel
     \<Rightarrow> ('kv, 'm, 'r) epoch_proposal option" where
  "epoch_proposal_new E mid bc stake p c =
    do { pk \<leftarrow> unwrap_ok (privkey_to_pubkey E mid);
         Some \<lparr>ep_myid = mid, ep_pubkey = pk, ep_chain = bc, ep_stake = stake, ep_tx_pool = p, ep_network_send = c\<rparr> }"

definition on_slot ::
  "('kv, 'm, 't, 'r, 'z) chain_env_scheme \<Rightarrow> ('s::field, 'p, 'e, 'y) slot_env_scheme \<Rightarrow> ('kv, 'm, 'r) epoch_proposal
     \<Rightarrow> u64 \<Rightarrow> u64 option \<Rightarrow> ('kv, 'm, 'r) epoch_proposal option option" where
  "on_slot E R n sid now =
    run_bind (make_slot_proposer E R (ep_chain n) (ep_stake n) sid (ep_myid n)) (\<lambda>won.
    Some (case won of
            None \<Rightarrow> Some n
          | Some (vrf_val, vrf_prf) \<Rightarrow> do {
              current \<leftarrow> get_head_block E (ep_chain n);
              (b, bc1) \<leftarrow> produce_block E (ep_chain n) (ep_tx_pool n) sid (block_hash E current) vrf_val vrf_prf now;
              (r, bc2) \<leftarrow> insert_block E bc1 b;
              (case r of
                 Inl e \<Rightarrow> Some (n\<lparr>ep_chain := bc2\<rparr>)
               | Inr _ \<Rightarrow> do {
                   p \<leftarrow> reset_pool E bc2 (ep_tx_pool n) b;
                   Some (n\<lparr>ep_chain := bc2, ep_tx_pool := p,
                           ep_network_send := publish_block E (ep_network_send n) b\<rparr>) }) }))"

definition is_proposer ::
  "('kv, 'm, 't, 'r, 'z) chain_env_scheme \<Rightarrow> ('kv, 'm, 'r) epoch_proposal \<Rightarrow> u64 \<Rightarrow> bool option option" where
  "is_proposer E n sid =
    (if dev_node (ep_stake n) then Some (Some True)
     else run_bind (get_slot_proposer E (ep_chain n) (ep_stake n) sid (sid div EPOCH_LENGTH)) (\<lambda>r.
       Some (case r of
               None \<Rightarrow> Some False
             | Some item \<Rightarrow> do {
                 _ \<leftarrow> pubkey_from_bytes (vs_pubkey item);
                 my \<leftarrow> unwrap_ok (privkey_to_pubkey E (ep_myid n));
                 pk \<leftarrow> stake_into_pubkey item;
                 Some (pubkey_equal my pk) })))"

section \<open>Executing a block twice\<close>

text \<open>Two states with the same changes that read the same run the same transactions in the same way.\<close>

definition agree ::
  "('kv, 'm, 't, 'z) storage_env_scheme \<Rightarrow> ('kv, 'm) state_db \<Rightarrow> ('kv, 'm) state_db \<Rightarrow> bool" where
  "agree E s t \<longleftrightarrow> local_changes s = local_changes t \<and> get_storage E s = get_storage E t"

lemma agree_load: "agree E s t \<Longrightarrow> load_account E t a = load_account E s a"
  by (simp add: agree_def load_account_def)

lemma agree_set: "agree E s t \<Longrightarrow> agree E (set_account E s a x) (set_account E t a x)"
  by (simp add: agree_def set_account_def st.get_set) (simp add: set_storage_def)

lemma rel_bind:
  "rel_option P x y \<Longrightarrow> (\<And>a b. P a b \<Longrightarrow> rel_option Q (f a) (g b)) \<Longrightarrow> rel_option Q (Option.bind x f) (Option.bind y g)"
  by (cases x; cases y) auto

lemma rel_bind_same: "(\<And>a. rel_option Q (f a) (g a)) \<Longrightarrow> rel_option Q (Option.bind x f) (Option.bind x g)"
  by (cases x) auto

lemma agree_balance_ops:
  assumes "agree E s t"
  shows "rel_option (agree E) (add_balance E s a v) (add_balance E t a v)"
    and "rel_option (agree E) (sub_balance E s a v) (sub_balance E t a v)"
    and "rel_option (agree E) (inc_nonce E s a) (inc_nonce E t a)"
  using assms
  by (auto simp: add_balance_def sub_balance_def inc_nonce_def agree_load intro!: rel_bind_same agree_set)

lemma agree_transfer:
  assumes "agree E s t"
  shows "rel_option (agree E) (transfer E s a b v) (transfer E t a b v)"
proof -
  have "rel_option (agree E) (sub_balance E s a v \<bind> (\<lambda>s1. add_balance E s1 b v)) (sub_balance E t a v \<bind> (\<lambda>s1. add_balance E s1 b v))"
    using assms by (intro rel_bind [where P = "agree E"] agree_balance_ops)
  with assms show ?thesis by (auto simp: transfer_def balance_def agree_load intro!: rel_bind_same)
qed

lemma agree_exc_transfer_tx:
  assumes "agree E s t"
  shows "rel_option (rel_prod (=) (agree E)) (exc_transfer_tx E tx s) (exc_transfer_tx E tx t)"
proof -
  let ?run = "\<lambda>u to v. do { s1 \<leftarrow> sub_balance E u (tx_sender tx) transfer_fee; s2 \<leftarrow> inc_nonce E s1 (tx_sender tx);
    v' \<leftarrow> get_value E tx; s3 \<leftarrow> transfer E s2 (tx_sender tx) to v'; Some (Inr hash_default :: error + hash, s3) }"
  have "rel_option (rel_prod (=) (agree E)) (?run s to v) (?run t to v)" for to v
    using assms by (intro rel_bind [where P = "agree E"] rel_bind_same agree_balance_ops agree_transfer) simp_all
  with assms show ?thesis
    by (auto simp: exc_transfer_tx_def get_from_address_def get_account_def agree_load Let_def split: sum.split
        intro!: rel_bind_same)
qed

lemma agree_exc_txs:
  "agree E s t \<Longrightarrow> rel_option (rel_prod (=) (agree E)) (exc_txs E txs s m) (exc_txs E txs t m)"
proof (induction txs arbitrary: s t)
  case (Cons tx txs)
  show ?case
    unfolding exc_txs.simps
  proof (rule rel_bind [OF agree_exc_transfer_tx [OF Cons.prems]])
    fix a b :: "(error + hash) \<times> ('a, 'b) state_db"
    assume "rel_prod (=) (agree E) a b"
    then obtain r s1 t1 where ab: "a = (r, s1)" "b = (r, t1)" "agree E s1 t1" by (cases a; cases b) auto
    have "rel_option (rel_prod (=) (agree E)) (add_balance E s1 m transfer_fee \<bind> (\<lambda>s2. exc_txs E txs s2 m))
        (add_balance E t1 m transfer_fee \<bind> (\<lambda>s2. exc_txs E txs s2 m))"
      using ab(3) Cons.IH by (intro rel_bind [where P = "agree E"] agree_balance_ops)
    with ab show "rel_option (rel_prod (=) (agree E))
        (case a of (r, s1) \<Rightarrow> (case r of Inl e \<Rightarrow> Some (Inl e, s1) | Inr _ \<Rightarrow> add_balance E s1 m transfer_fee \<bind> (\<lambda>s2. exc_txs E txs s2 m)))
        (case b of (r, s1) \<Rightarrow> (case r of Inl e \<Rightarrow> Some (Inl e, s1) | Inr _ \<Rightarrow> add_balance E s1 m transfer_fee \<bind> (\<lambda>s2. exc_txs E txs s2 m)))"
      by (cases r) simp_all
  qed
qed simp

lemma exc_txs_in_block_again:
  assumes "storage_ok E G" "state_ok E G s f" "state_ok E G t f" "local_changes s = local_changes t" "b_txs b' = b_txs b"
    and "exc_txs_in_block E b s m = Some (Inr h, s')"
  obtains t' where "exc_txs_in_block E b' t m = Some (Inr h, t')"
proof -
  have "agree E s t" using assms(4) by (simp add: agree_def fun_eq_iff state_ok_get_storage [OF assms(2)] state_ok_get_storage [OF assms(3)])
  note same = agree_exc_txs [OF this, of "b_txs b" m]
  from assms(6) obtain u s1 where s1: "exc_txs E (b_txs b) s m = Some (Inr u, s1)" "state_commit E s1 = Some s'" "h = state_root s'"
    by (auto simp: exc_txs_in_block_def get_txs_def balance_commit_def split: bind_splits sum.splits)
  with same obtain t1 where t1: "exc_txs E (b_txs b) t m = Some (Inr u, t1)" "agree E s1 t1"
    by (auto simp: option_rel_Some1)
  note ok = exc_txs_state_ok [OF assms(2) s1(1)] exc_txs_state_ok [OF assms(3) t1(1)]
  obtain a where a: "g_live G (archive_get E (sdb s1)) a" "g_trie G a = foldl apply_change f (local_changes s1)"
      "state_root s' = snd (tmut_drop (trie E) (archive_get E (sdb s1)) a)"
    using state_commit_ok [OF assms(1) ok(1)] s1(2) by (metis option.inject)
  obtain t' c where c: "state_commit E t1 = Some t'" "g_live G (archive_get E (sdb t1)) c" "g_trie G c = foldl apply_change f (local_changes t1)"
      "state_root t' = snd (tmut_drop (trie E) (archive_get E (sdb t1)) c)"
    using state_commit_ok [OF assms(1) ok(2)] by metis
  have "g_trie G a = g_trie G c" using a(2) c(3) t1(2) by (simp add: agree_def)
  from trie_okD(5) [OF storage_okD(3) [OF assms(1)] a(1) c(2) this] have "state_root t' = h" using a(3) c(4) s1(3) by simp
  then show thesis using that t1(1) c(1) assms(5) by (simp add: exc_txs_in_block_def get_txs_def balance_commit_def)
qed

section \<open>Production\<close>

lemma apply_transactions_extends:
  assumes "storage_ok E G" "states_kept E G (bc_state_backend bc) cs" "cur \<in> set cs"
    and "apply_transactions E bc (block_state_root cur) b = Some (h, bc')"
  shows "extends (archive_get E (bc_state_backend bc)) (archive_get E (bc_state_backend bc'))"
proof -
  from assms(4) obtain s' where s': "exc_txs_in_block E b (state_at bc (block_state_root cur)) address_default = Some (Inr h, s')"
    "bc' = share_backend bc s'"
    by (auto simp: apply_transactions_def unwrap_ok_def split: bind_splits sum.splits)
  obtain f where f: "state_ok E G (state_at bc (block_state_root cur)) f" "archive_ok E G (bc_state_backend bc)"
    using assms(2,3) by (auto simp: states_kept_def state_ok_def state_at_def)
  obtain f' where "state_ok E G s' f'" "extends (archive_get E (bc_state_backend bc)) (archive_get E (sdb s'))"
    using exc_txs_in_block_commits [OF assms(1) f(1) s'(1)] by (auto simp: state_at_def)
  then show ?thesis using share_backend_ok(2) [OF assms(1) f(2), of s'] s'(2) by (auto simp: state_ok_def)
qed

text \<open>A state of a chain reads the same after more nodes were stored.\<close>

lemma state_at_extends:
  assumes "storage_ok E G" "archive_ok E G (bc_state_backend bc')"
    and "extends (archive_get E (bc_state_backend bc)) (archive_get E (bc_state_backend bc'))"
    and "state_ok E G (state_at bc h) f"
  shows "state_ok E G (state_at bc' h) f" "get_storage E (state_at bc' h) = get_storage E (state_at bc h)"
proof -
  show ok: "state_ok E G (state_at bc' h) f"
    using assms trie_okD(6) [OF storage_okD(3) [OF assms(1)]] by (auto simp: state_ok_def state_at_def)
  show "get_storage E (state_at bc' h) = get_storage E (state_at bc h)"
    using state_ok_get_storage [OF ok] state_ok_get_storage [OF assms(4)] by (simp add: fun_eq_iff state_at_def)
qed

lemma apply_transactions_again:
  assumes "storage_ok E G" "states_kept E G (bc_state_backend bc) cs" "cur \<in> set cs"
    and "apply_transactions E bc (block_state_root cur) b = Some (h, bc')" "b_txs b' = b_txs b"
  obtains bc'' where "apply_transactions E bc' (block_state_root cur) b' = Some (h, bc'')"
proof -
  obtain f where f: "state_ok E G (state_at bc (block_state_root cur)) f"
    using assms(2,3) by (auto simp: states_kept_def state_ok_def state_at_def)
  from assms(4) obtain s' where s': "exc_txs_in_block E b (state_at bc (block_state_root cur)) address_default = Some (Inr h, s')"
    by (auto simp: apply_transactions_def unwrap_ok_def split: bind_splits sum.splits)
  have "archive_ok E G (bc_state_backend bc')"
    using apply_transactions_ok(1) [OF assms(1-4)] by (simp add: states_kept_def)
  note ok = state_at_extends(1) [OF assms(1) this apply_transactions_extends [OF assms(1-4)] f]
  have "local_changes (state_at bc (block_state_root cur)) = local_changes (state_at bc' (block_state_root cur))"
    by (simp add: state_at_def)
  from exc_txs_in_block_again [OF assms(1) f ok this assms(5) s']
  obtain t' where "exc_txs_in_block E b' (state_at bc' (block_state_root cur)) address_default = Some (Inr h, t')" .
  then show thesis using that by (simp add: apply_transactions_def)
qed

lemma builder_applies: "builder_apply_block = apply_transactions"
  by (simp add: fun_eq_iff builder_apply_block_def apply_transactions_def)

lemma produce_blockE:
  assumes "chain_inv E G H bc cs" "overflow_checks E"
    and "produce_block E bc p slot (block_hash E (last cs)) v pf now = Some (b, bc1)"
  obtains b0 where "apply_transactions E bc (block_state_root (last cs)) b0 = Some (block_state_root b, bc1)"
    "b_txs b = b_txs b0" "b_txs b = get_pending p" "h_parent_hash (b_header b) = block_hash E (last cs)"
    "unat (block_height b) = length cs" "validate_block E b = Inr ()" "now = Some (h_time (b_header b))"
proof -
  have I: "holds E (bc_db bc) cs" using assms(1) by (simp add: chain_inv_def)
  have last: "get_block E (bc_db bc) (block_hash E (last cs)) = Some (Some (last cs))"
    using holdsD(1,2) [OF I] by simp
  let ?b0 = "block_new E header_default (prepare_transactions p) [] []"
  obtain h vp time where run: "apply_transactions E bc (block_state_root (last cs)) ?b0 = Some (block_state_root b, bc1)"
    "uadd True (block_height (last cs)) 1 = Some h" "now = Some time"
    "b = ?b0\<lparr>b_header := (b_header ?b0)\<lparr>h_parent_hash := block_hash E (last cs), h_height := h, h_slot := slot,
       h_vrf_output := value_bytes v, h_vrf_proof := vp, h_state_root := block_state_root b, h_time := time\<rparr>\<rparr>"
    using assms(2,3) last
    by (auto simp: produce_block_def builder_applies block_state_root_def Let_def split: bind_splits)
  have "unat h = length cs" using uadd_checked_SomeD [OF run(2)] holdsD(6) [OF I] by (simp add: unat_add_exact)
  moreover have "b_txs b = prepare_transactions p" "b_signs b = []" "block_height b = h" "h_time (b_header b) = time"
    "h_parent_hash (b_header b) = block_hash E (last cs)" "h_tx_root (b_header b) = get_hash_from_txs E (prepare_transactions p)"
    "h_sign_root (b_header b) = get_hash_from_signs E []"
    by (subst run(4), simp add: block_new_def block_height_def)+
  ultimately show thesis
    using run(1,3) by (intro that [of ?b0]) (simp_all add: validate_block_def block_new_def prepare_transactions_def)
qed

lemma retain_live_ok:
  assumes "\<forall>e \<in> set m. get_account E s (tx_sender (snd e)) \<noteq> None"
  shows "retain_live E s m = Some (filter (\<lambda>(h, tx). a_nonce (the (get_account E s (tx_sender tx))) < get_nonce tx) m)"
  using assms
proof (induction m)
  case (Cons e m)
  obtain acc where "get_account E s (tx_sender (snd e)) = Some acc" using Cons.prems by auto
  with Cons show ?case by (cases e) simp
qed simp

lemma reset_pool_ok:
  assumes "\<forall>e \<in> set (tp_pending p). get_account E (state_at bc (block_state_root b)) (tx_sender (snd e)) \<noteq> None"
  shows "reset_pool E bc p b = Some (p\<lparr>tp_pending := filter (\<lambda>(h, tx).
    a_nonce (the (get_account E (state_at bc (block_state_root b)) (tx_sender tx))) < get_nonce tx) (tp_pending p)\<rparr>)"
  by (simp add: reset_pool_def retain_live_ok [OF assms])

text \<open>The own chain takes the block that was just produced on top of it.\<close>

lemma insert_produced:
  assumes "chain_ok E c" "storage_ok E G" "overflow_checks E" "inj_on (header_hash E) H" "chain_inv E G H bc cs" "length cs < 2 ^ 64"
    and prod: "produce_block E bc p slot (block_hash E (last cs)) v pf now = Some (b, bc1)" and "b_header b \<in> H"
    and later: "h_time (b_header (last cs)) < h_time (b_header b)"
  obtains bc2 where "insert_block E bc1 b = Some (Inr (), bc2)" "chain_inv E G H bc2 (cs @ [b])"
    "get_storage E (state_at bc2 (block_state_root b)) = get_storage E (state_at bc1 (block_state_root b))"
proof -
  have kept: "states_kept E G (bc_state_backend bc) cs" and cur: "last cs \<in> set cs"
    using assms(5) chain_inv_current(2) [OF assms(5)] by (simp_all add: chain_inv_def)
  obtain b0 where b0: "apply_transactions E bc (block_state_root (last cs)) b0 = Some (block_state_root b, bc1)"
    "b_txs b = b_txs b0" "h_parent_hash (b_header b) = block_hash E (last cs)"
    "unat (block_height b) = length cs" "validate_block E b = Inr ()"
    using produce_blockE [OF assms(5,3) prod] by metis
  note step = apply_transactions_ok [OF assms(2) kept cur b0(1)]
  have inv1: "chain_inv E G H bc1 cs" using assms(5) step(1,3) by (simp add: chain_inv_def)
  obtain bc1' where ap: "apply_transactions E bc1 (block_state_root (last cs)) b = Some (block_state_root b, bc1')"
    using apply_transactions_again [OF assms(2) kept cur b0(1,2)] .
  have "\<not> h_time (b_header b) \<le> h_time (b_header (last cs))" using later by simp
  from import_block_accepts [OF assms(1-4) inv1 assms(8,6) ap b0(4,3) this b0(5)]
  obtain bc2 where bc2: "import_block E bc1 b = Some (Inr (), bc2)" "chain_inv E G H bc2 (cs @ [b])" by blast
  obtain f where f: "trie_at E (archive_get E (bc_state_backend bc1)) (block_state_root b) f" using step(2) by blast
  have ok1: "state_ok E G (state_at bc1 (block_state_root b)) f"
    using f step(1) by (simp add: state_ok_def state_at_def states_kept_def)
  have ok2: "archive_ok E G (bc_state_backend bc2)" using bc2(2) by (simp add: chain_inv_def states_kept_def)
  obtain cur' bcx d2 where "current_block E bc1 = Some cur'"
    "apply_transactions E bc1 (block_state_root cur') b = Some (block_state_root b, bcx)" "bc2 = bcx\<lparr>bc_db := d2\<rparr>"
    using import_block_InrE [OF bc2(1)] by metis
  then have "bc_state_backend bc2 = bc_state_backend bc1'" using chain_inv_current(1) [OF inv1] ap by simp
  then have "extends (archive_get E (bc_state_backend bc1)) (archive_get E (bc_state_backend bc2))"
    using apply_transactions_extends [OF assms(2) step(1) cur ap] by simp
  note reads = state_at_extends(2) [OF assms(2) ok2 this ok1]
  have "insert_block E bc1 b = Some (Inr (), bc2)" using bc2(1) by (simp add: insert_block_def)
  then show thesis using bc2(2) reads by (rule that)
qed

lemma on_slot_later:
  assumes "chain_ok E c" "storage_ok E G" "overflow_checks E" "inj_on (header_hash E) H"
    and "chain_inv E G H (ep_chain n) cs" "length cs < 2 ^ 64" "receiver_alive (ep_network_send n)"
    and "make_slot_proposer E R (ep_chain n) (ep_stake n) sid (ep_myid n) = Some (Some (Some (v, pf)))"
    and "produce_block E (ep_chain n) (ep_tx_pool n) sid (block_hash E (last cs)) v pf now = Some (b, bc1)" "b_header b \<in> H"
    and "\<forall>e \<in> set (tp_pending (ep_tx_pool n)). get_account E (state_at bc1 (block_state_root b)) (tx_sender (snd e)) \<noteq> None"
    and later: "h_time (b_header (last cs)) < h_time (b_header b)"
  shows "\<exists>n'. on_slot E R n sid now = Some (Some n') \<and> chain_inv E G H (ep_chain n') (cs @ [b]) \<and>
    b_txs b = get_pending (ep_tx_pool n) \<and>
    tp_pending (ep_tx_pool n') = filter (\<lambda>(h, tx).
      a_nonce (the (get_account E (state_at (ep_chain n') (block_state_root b)) (tx_sender tx))) < get_nonce tx)
      (tp_pending (ep_tx_pool n)) \<and>
    sent (ep_network_send n') = sent (ep_network_send n) @ [Publish [topic_into MapBlock] (PBlock (ser (block_codec E) b))]"
proof -
  have cur: "current_block E (ep_chain n) = Some (last cs)" using chain_inv_current(1) [OF assms(5)] .
  have txs: "b_txs b = get_pending (ep_tx_pool n)" using produce_blockE [OF assms(5,3,9)] by metis
  obtain bc2 where bc2: "insert_block E bc1 b = Some (Inr (), bc2)" "chain_inv E G H bc2 (cs @ [b])"
    "get_storage E (state_at bc2 (block_state_root b)) = get_storage E (state_at bc1 (block_state_root b))"
    using insert_produced [OF assms(1-6,9,10) later] .
  then have acc: "\<forall>e \<in> set (tp_pending (ep_tx_pool n)). get_account E (state_at bc2 (block_state_root b)) (tx_sender (snd e)) \<noteq> None"
    using assms(11) by (simp add: get_account_def load_account_def)
  show ?thesis using bc2(2) txs assms(7)
    by (simp add: on_slot_def get_head_block_def cur assms(8,9) bc2(1) reset_pool_ok [OF acc] publish_block_def)
qed

text \<open>A peer whose store has the same content under the root of the head computes the same root for the block.\<close>

lemma apply_transactions_peer:
  assumes "storage_ok E G" "states_kept E G (bc_state_backend bc) cs" "states_kept E G (bc_state_backend bc') cs" "cur \<in> set cs"
    and "\<forall>k. trie_get (trie E) (archive_get E (bc_state_backend bc')) (block_state_root cur) k =
      trie_get (trie E) (archive_get E (bc_state_backend bc)) (block_state_root cur) k"
    and "apply_transactions E bc (block_state_root cur) b = Some (h, bc1)" "b_txs b' = b_txs b"
  obtains bc2 where "apply_transactions E bc' (block_state_root cur) b' = Some (h, bc2)"
proof -
  obtain f g where f: "state_ok E G (state_at bc (block_state_root cur)) f" and g: "state_ok E G (state_at bc' (block_state_root cur)) g"
    and fg: "trie_at E (archive_get E (bc_state_backend bc)) (block_state_root cur) f"
      "trie_at E (archive_get E (bc_state_backend bc')) (block_state_root cur) g"
    using assms(2-4) by (force simp: states_kept_def state_ok_def state_at_def)
  have "g = f" using fg assms(5) by (simp add: trie_at_def fun_eq_iff)
  from assms(6) obtain s' where s': "exc_txs_in_block E b (state_at bc (block_state_root cur)) address_default = Some (Inr h, s')"
    by (auto simp: apply_transactions_def unwrap_ok_def split: bind_splits sum.splits)
  have "local_changes (state_at bc (block_state_root cur)) = local_changes (state_at bc' (block_state_root cur))"
    by (simp add: state_at_def)
  from exc_txs_in_block_again [OF assms(1) f g [unfolded \<open>g = f\<close>] this assms(7) s']
  obtain t' where "exc_txs_in_block E b' (state_at bc' (block_state_root cur)) address_default = Some (Inr h, t')" .
  then show thesis using that by (simp add: apply_transactions_def)
qed

text \<open>C33. A node that wins a slot on a consistent chain and can produce a block with a later time than the head ends with
  that block as its new head, with only those pending transactions left whose nonce is still ahead of their
  sender, and with the block published. With a time that is not later the chain keeps its head, the pool stays and nothing
  is published.\<close>

theorem on_slot_produces:
  assumes "chain_ok E c" "storage_ok E G" "overflow_checks E" "inj_on (header_hash E) H"
    and "chain_inv E G H (ep_chain n) cs" "length cs < 2 ^ 64" "receiver_alive (ep_network_send n)"
    and "make_slot_proposer E R (ep_chain n) (ep_stake n) sid (ep_myid n) = Some (Some (Some (v, pf)))"
    and "produce_block E (ep_chain n) (ep_tx_pool n) sid (block_hash E (last cs)) v pf now = Some (b, bc1)" "b_header b \<in> H"
    and "\<forall>e \<in> set (tp_pending (ep_tx_pool n)). get_account E (state_at bc1 (block_state_root b)) (tx_sender (snd e)) \<noteq> None"
  shows "\<exists>n'. on_slot E R n sid now = Some (Some n') \<and>
    (if h_time (b_header (last cs)) < h_time (b_header b)
     then chain_inv E G H (ep_chain n') (cs @ [b]) \<and> b_txs b = get_pending (ep_tx_pool n) \<and>
       tp_pending (ep_tx_pool n') = filter (\<lambda>(h, tx).
         a_nonce (the (get_account E (state_at (ep_chain n') (block_state_root b)) (tx_sender tx))) < get_nonce tx)
         (tp_pending (ep_tx_pool n)) \<and>
       sent (ep_network_send n') = sent (ep_network_send n) @ [Publish [topic_into MapBlock] (PBlock (ser (block_codec E) b))]
     else chain_inv E G H (ep_chain n') cs \<and> ep_tx_pool n' = ep_tx_pool n \<and> ep_network_send n' = ep_network_send n)"
proof (cases "h_time (b_header (last cs)) < h_time (b_header b)")
  case True
  from on_slot_later [OF assms True] show ?thesis by (simp add: True)
next
  case False
  have cur: "current_block E (ep_chain n) = Some (last cs)" using chain_inv_current(1) [OF assms(5)] .
  obtain b0 where b0: "apply_transactions E (ep_chain n) (block_state_root (last cs)) b0 = Some (block_state_root b, bc1)"
    "h_parent_hash (b_header b) = block_hash E (last cs)" "unat (block_height b) = length cs"
    using produce_blockE [OF assms(5,3,9)] by metis
  have kept: "states_kept E G (bc_state_backend (ep_chain n)) cs" "last cs \<in> set cs"
    using assms(5) chain_inv_current(2) [OF assms(5)] by (simp_all add: chain_inv_def)
  have inv1: "chain_inv E G H bc1 cs"
    using assms(5) apply_transactions_ok(1,3) [OF assms(2) kept b0(1)] by (simp add: chain_inv_def)
  then have "holds E (bc_db bc1) cs" by (simp add: chain_inv_def)
  from import_block_eq [OF this assms(3,6), of b]
  have "insert_block E bc1 b = Some (Inl (block_chain_into InvalidBlockTime), bc1)"
    using leI [OF False] b0(2,3) by (simp add: insert_block_def)
  then show ?thesis using False inv1 by (simp add: on_slot_def get_head_block_def cur assms(8,9))
qed

text \<open>C37. A transaction that the pool accepts can stop the producer: the pool asks for the value only, the executor for value
  and fee, and the builder unwraps the error of the executor. The correctly signed transaction of a sender who
  spends all makes every node that wins a slot panic as long as it is pending.\<close>

theorem accepted_tx_stops_proposer:
  assumes "overflow_checks E" "chain_inv E G H bc cs" "ledger_of E (state_at bc (block_state_root (last cs))) L"
    and "address_wf (tx_sender tx)" "de (transfer_codec E) (tx_data tx) = Some msg" "verify_sign E tx = Some (Inr ())"
    and "unat (a_nonce (L (tx_sender tx))) + 1 < 2 ^ 64" "tx_nonce tx = a_nonce (L (tx_sender tx)) + 1"
    and "unat (mt_value msg) + unat transfer_fee < 2 ^ 128" "mt_value msg \<le> a_balance (L (tx_sender tx))"
      "a_balance (L (tx_sender tx)) < mt_value msg + transfer_fee"
    and "ep_chain n = bc" "make_slot_proposer E R bc (ep_stake n) sid (ep_myid n) = Some (Some (Some (v, pf)))"
  shows "\<exists>p. add_tx E bc tx_pool_new tx = Some (True, p) \<and> get_pending p = [tx] \<and>
    on_slot E R (n\<lparr>ep_tx_pool := p\<rparr>) sid now = Some None"
proof -
  have cur: "current_block E bc = Some (last cs)" using chain_inv_current(1) [OF assms(2)] .
  have "validate_tx E bc tx = Some (Inr ())"
    using assms(1,3-5,7,8,10) cur
    by (simp add: validate_tx_def pool_account_def get_account_def ledger_ofD get_value_def get_nonce_def uadd_exact not_less)
  then have add: "add_tx E bc tx_pool_new tx = Some (True, tx_pool_new\<lparr>tp_pending := [(tx_hash E tx, tx)]\<rparr>)"
    by (simp add: add_tx_def tx_pool_new_def)
  have exc: "exc_transfer_tx E tx (state_at bc (block_state_root (last cs))) =
      Some (Inl (internal_into BalanceNotEnough), state_at bc (block_state_root (last cs)))"
    using assms(3-9,11)
    by (simp add: exc_transfer_tx_def get_to_address_def get_value_def get_from_address_def
      get_nonce_def get_account_def verify_tx_sign_def ledger_ofD uadd_exact Let_def)
  have last: "get_block E (bc_db bc) (block_hash E (last cs)) = Some (Some (last cs))"
    using holdsD(1,2) [of E "bc_db bc" cs] assms(2) by (simp add: chain_inv_def)
  have "on_slot E R (n\<lparr>ep_tx_pool := tx_pool_new\<lparr>tp_pending := [(tx_hash E tx, tx)]\<rparr>\<rparr>) sid now = Some None"
    using exc by (simp add: on_slot_def get_head_block_def assms(12,13) cur produce_block_def last builder_apply_block_def
        prepare_transactions_def get_pending_def block_new_def exc_txs_in_block_def get_txs_def unwrap_ok_def)
  with add show ?thesis by (simp add: get_pending_def)
qed

section \<open>Heights of an epoch\<close>

text \<open>The heights \<^verbatim>\<open>get_height_from_eid\<close> gives for an epoch belong to the epoch before it.\<close>

lemma epoch_product:
  assumes "unat e < 2 ^ 57"
  shows "umul oc e EPOCH_LENGTH = Some (e * EPOCH_LENGTH)" "unat (e * EPOCH_LENGTH) = unat e * 64"
  using assms by (simp_all add: umul_def EPOCH_LENGTH_def unat_word_ariths)

lemma epoch_heights_off:
  assumes "0 < e" "unat e < 2 ^ 57" "get_height_from_eid E e = Some (low, hi)" "low \<le> h" "h \<le> hi"
  shows "epoch_from_height h + 1 = e"
proof -
  have "int (unat e) < int (2 ^ 57)" using assms(2) by (rule of_nat_less_iff [THEN iffD2])
  then have "signed_take_bit 63 (uint e) = uint e"
    by (intro signed_take_bit_int_eq_self) (simp_all add: order_trans [OF _ uint_ge_0])
  moreover have "0 < uint e" using assms(1) by (simp add: word_less_def)
  ultimately have s: "\<not> sint e \<le> 0" by (simp add: sint_uint)
  have e1: "1 \<le> unat e" using assms(1) by (simp add: word_less_nat_alt)
  have v: "usub (overflow_checks E) e 1 = Some (e - 1)" "unat (e - 1) = unat e - 1"
    using e1 by (simp_all add: usub_exact unat_sub_exact word_le_nat_alt)
  have m: "umul (overflow_checks E) (e - 1) EPOCH_LENGTH = Some ((e - 1) * EPOCH_LENGTH)"
    "unat ((e - 1) * EPOCH_LENGTH) = (unat e - 1) * 64"
    "umul (overflow_checks E) e EPOCH_LENGTH = Some (e * EPOCH_LENGTH)" "unat (e * EPOCH_LENGTH) = unat e * 64"
    using epoch_product [OF assms(2)] epoch_product [of "e - 1"] assms(2) v(2) by simp_all
  have w: "usub (overflow_checks E) (e * EPOCH_LENGTH) 1 = Some (e * EPOCH_LENGTH - 1)" "unat (e * EPOCH_LENGTH - 1) = unat e * 64 - 1"
    using e1 m(4) by (simp_all add: usub_exact unat_sub_exact word_le_nat_alt)
  have "low = (e - 1) * EPOCH_LENGTH" "hi = e * EPOCH_LENGTH - 1"
    using assms(3) s by (simp_all add: get_height_from_eid_def v(1) m(1,3) w(1))
  then have "(unat e - 1) * 64 \<le> unat h" "unat h \<le> unat e * 64 - 1"
    using assms(4,5) m(2) w(2) by (simp_all add: word_le_nat_alt)
  then have "unat h div 64 + 1 = unat e" using e1 by linarith
  then have "unat (epoch_from_height h) + 1 = unat e" by (simp add: epoch_from_height_def EPOCH_LENGTH_def unat_div)
  then show ?thesis using unat_bound [of e] by (simp add: word_unat_eq_iff unat_word_ariths)
qed

end
