(* ===== verification/Genesis_State.thy ===== *)
theory Genesis_State
  imports Blockchain
begin

text \<open>
  What a node reads after genesis. A value that is the empty byte string would read as absent once a state is reopened; the
  states genesis writes have none when the codecs give none, so that the reopened state holds the allocation and
  the genesis validator.
\<close>

definition cells_filled :: "('kv, 'm, 't, 'z) storage_env_scheme \<Rightarrow> ('kv, 'm) state_db \<Rightarrow> bool" where
  "cells_filled E s \<longleftrightarrow> (\<forall>k. get_storage E s k \<noteq> Some (Some []))"

lemma cells_filled_set: "cells_filled E s \<Longrightarrow> v \<noteq> [] \<Longrightarrow> cells_filled E (set_storage s k v)"
  by (simp add: cells_filled_def)

lemma commit_reopens:
  assumes "storage_ok E G" "state_ok E G s f" "cells_filled E s" "state_commit E s = Some s'"
    and "archive_ok E G d" "archive_get E d = archive_get E (sdb s')"
  shows "get_storage E (state_from_existing d (state_root s')) = get_storage E s"
proof -
  have s': "state_ok E G s' (foldl apply_change f (local_changes s))"
    using state_commit_ok [OF assms(1,2)] assms(4) by (metis option.inject)
  then have "state_ok E G (state_from_existing d (state_root s')) (foldl apply_change f (local_changes s))"
    using assms(5,6) by (simp add: state_ok_def)
  note t = state_ok_get_storage [OF this] and get = state_ok_get_storage [OF assms(2)]
  have "keys_distinct (local_changes s)" using assms(2) by (simp add: state_ok_def)
  note fold = foldl_apply_change [OF this, of f]
  show ?thesis
  proof
    fix k
    have "get_storage E s k \<noteq> Some (Some [])" using assms(3) by (simp add: cells_filled_def)
    then show "get_storage E (state_from_existing d (state_root s')) k = get_storage E s k"
      by (auto simp: t get fold split: option.splits)
  qed
qed

lemma staking_insert_filled:
  assumes "cells_filled E s" "\<And>x. ser (entry_codec E) x \<noteq> []" "digest_ok E" "staking_insert E s v = Some s'"
  shows "cells_filled E s'"
proof -
  have "as_bytes (map_key E v) \<noteq> []"
    using length_blake2b_256 [OF assms(3)] by (simp add: map_key_def Let_def) (metis list.size(3) zero_neq_numeral)
  with assms show ?thesis
    by (auto simp: staking_insert_def Let_def split: bind_splits option.splits intro!: cells_filled_set)
qed

lemma balance_ops_filled:
  assumes "cells_filled E s" "\<And>x. ser (account_codec E) x \<noteq> []"
  shows "add_balance E s a v = Some s' \<Longrightarrow> cells_filled E s'" "sub_balance E s a v = Some s' \<Longrightarrow> cells_filled E s'"
    and "inc_nonce E s a = Some s' \<Longrightarrow> cells_filled E s'"
  using assms by (auto simp: add_balance_def sub_balance_def inc_nonce_def set_account_def split: bind_splits intro!: cells_filled_set)

lemma exc_transfer_tx_filled:
  assumes "cells_filled E s" "\<And>x. ser (account_codec E) x \<noteq> []" "exc_transfer_tx E tx s = Some (Inr h, s')"
  shows "cells_filled E s'"
proof -
  obtain msg :: msg_transfer and s1 s2 where s: "sub_balance E s (tx_sender tx) transfer_fee = Some s1" "inc_nonce E s1 (tx_sender tx) = Some s2"
    "transfer E s2 (tx_sender tx) (mt_receiver msg) (mt_value msg) = Some s'"
    using exc_transfer_tx_InrE [OF assms(3)] by metis
  have "cells_filled E s2" using balance_ops_filled(2,3) [OF _ assms(2)] assms(1) s(1,2) by blast
  with s(3) show ?thesis
    by (auto simp: transfer_def split: bind_splits if_splits dest: balance_ops_filled(1,2) [OF _ assms(2)])
qed

lemma setup_allocation_reopens:
  assumes "storage_ok E G" "state_ok E G s Map.empty" "local_changes s = []"
    and "staking_ok E" "balance_ok E" "hex_lower_ok E"
    and ne: "\<And>x. ser (account_codec E) x \<noteq> []" "\<And>x. ser (entry_codec E) x \<noteq> []"
    and run: "setup_allocation E s = Some (s4, r)"
    and d: "archive_ok E G d" "archive_get E d = archive_get E (sdb s4)"
  shows "get_storage E (state_from_existing d (state_root s4)) = get_storage E s4 \<and> cells_filled E s4"
proof -
  have dg: "digest_ok E" using assms(4) by (simp add: staking_ok_def)
  from run obtain s1 s2 s3 v where s: "add_balance E s genesis_address 1000000000000000000 = Some s1"
    "state_commit E s1 = Some s2" "staking_insert E s2 v = Some s3" "state_commit E s3 = Some s4"
    by (auto simp: setup_allocation_def ALLOCATION_def VALIDATORS_def genesis_hex [OF assms(6)] balance_commit_def split: bind_splits)
  have "cells_filled E s" using state_ok_get_storage [OF assms(2)] assms(3) by (simp add: cells_filled_def)
  then have c1: "cells_filled E s1"
    using s(1) ne(1) by (auto simp: add_balance_def set_account_def split: bind_splits intro!: cells_filled_set)
  have ok1: "state_ok E G s1 Map.empty"
    using s(1) assms(2) by (auto simp: add_balance_def set_account_def split: bind_splits)
  obtain f2 where s2: "state_ok E G s2 f2" "\<And>k. get_storage E s2 k = get_storage E s1 k"
    using state_commit_get [OF assms(1) ok1] s(2) by (metis option.inject)
  then have "cells_filled E s2" using c1 by (simp add: cells_filled_def)
  from staking_insert_filled [OF this ne(2) dg s(3)] have c3: "cells_filled E s3" .
  have ok3: "state_ok E G s3 f2" using staking_insert_state_ok [OF s2(1) s(3)] .
  have "get_storage E s4 k = get_storage E s3 k" for k
    using state_commit_get [OF assms(1) ok3] s(4) by (metis option.inject)
  then show ?thesis using commit_reopens [OF assms(1) ok3 c3 s(4) d] c3 by (simp add: fun_eq_iff cells_filled_def)
qed

lemma genesis_state:
  assumes "storage_ok E G" "staking_ok E" "balance_ok E" "hex_lower_ok E" "chain_fresh E G bc"
    and "\<And>x. ser (account_codec E) x \<noteq> []" "\<And>x. ser (entry_codec E) x \<noteq> []"
    and "setup_genesis E bc = Some (h, bc')"
  shows "ledger_of E (state_at bc' (block_state_root (bc_genesis bc')))
      ((\<lambda>_. account_default)(genesis_address := account_default\<lparr>a_balance := 1000000000000000000\<rparr>))"
    and "validators_of E (get_storage E (state_at bc' (block_state_root (bc_genesis bc')))) [genesis_validator]"
    and "cells_filled E (state_at bc' (block_state_root (bc_genesis bc')))"
proof -
  from assms(5) have F: "archive_ok E G (bc_state_backend bc)" "trie_at E (archive_get E (bc_state_backend bc)) NULL_ROOT Map.empty"
    by (simp_all add: chain_fresh_def)
  let ?s = "state_from_existing (bc_state_backend bc) NULL_ROOT"
  have ok: "state_ok E G ?s Map.empty" "local_changes ?s = []" using F by (simp_all add: state_ok_def)
  obtain s f where s: "setup_allocation E ?s = Some (s, state_root s)" "state_ok E G s f"
    "ledger_of E s ((\<lambda>_. account_default)(genesis_address := account_default\<lparr>a_balance := 1000000000000000000\<rparr>))"
    "validators_of E (get_storage E s) [genesis_validator]"
    using setup_allocation_ok [OF assms(1) ok assms(2-4)] by blast
  from assms(8) s(1) have bc': "bc_state_backend bc' = bc_state_backend (share_backend bc s)" "block_state_root (bc_genesis bc') = state_root s"
    by (auto simp: setup_genesis_def Let_def split: bind_splits)
  have "archive_ok E G (sdb s)" using s(2) by (simp add: state_ok_def)
  note sh = share_backend_ok [OF assms(1) F(1) this]
  have "get_storage E (state_at bc' (block_state_root (bc_genesis bc'))) = get_storage E s \<and> cells_filled E s"
    unfolding state_at_def bc'
    by (rule setup_allocation_reopens [OF assms(1) ok assms(2-4,6,7) s(1) sh])
  then show "ledger_of E (state_at bc' (block_state_root (bc_genesis bc')))
      ((\<lambda>_. account_default)(genesis_address := account_default\<lparr>a_balance := 1000000000000000000\<rparr>))"
    and "validators_of E (get_storage E (state_at bc' (block_state_root (bc_genesis bc')))) [genesis_validator]"
    and "cells_filled E (state_at bc' (block_state_root (bc_genesis bc')))"
    using s(3,4) by (simp_all add: ledger_of_def load_account_def cells_filled_def)
qed

end
