(* ===== verification/Sample_Tx_Pool.thy ===== *)
theory Sample_Tx_Pool
  imports Tx_Pool Sample_Chain
begin

text \<open>The theorems on the pool of a node, at a chain with one block and an empty state.\<close>

definition pool_block :: block where
  "pool_block = set_state_root block_default NULL_ROOT"

definition pool_db :: "memory_kv chain_db" where
  "pool_db = (case write_block sample_chain sample_store pool_block of
     Inr d \<Rightarrow> (case write_head_hash sample_chain d (block_hash sample_chain pool_block) of Inr d' \<Rightarrow> d'))"

definition pool_chain :: "(memory_kv, sample_mem, memory_kv) block_chain" where
  "pool_chain = sample_node\<lparr>bc_db := pool_db\<rparr>"

lemma pool_chain_current: "current_block sample_chain pool_chain = Some pool_block"
proof -
  obtain d1 d2 where "write_block sample_chain sample_store pool_block = Inr d1" "write_head_hash sample_chain d1 (block_hash sample_chain pool_block) = Inr d2"
      "get_block sample_chain d2 = (get_block sample_chain sample_store)(block_hash sample_chain pool_block \<mapsto> Some pool_block)"
      "get_header_hash sample_chain d2 = (get_header_hash sample_chain sample_store)(block_height pool_block \<mapsto> Some (block_hash sample_chain pool_block))"
      "head_hash sample_chain d2 = Some (Some (block_hash sample_chain pool_block))"
    using bs.append_law [of "(sample_chain, \<lambda>r. map_of (kv_map r))" sample_store pool_block] by auto
  then show ?thesis by (simp add: current_block_def head_block_def pool_chain_def pool_db_def)
qed

lemma pool_chain_account: "pool_account sample_chain pool_chain a = Some account_default"
proof -
  have "state_ok sample_chain sample_ghost (state_at pool_chain NULL_ROOT) Map.empty"
    using sample_node_fresh by (simp add: chain_fresh_def state_ok_def state_at_def pool_chain_def)
  then have "get_storage sample_chain (state_at pool_chain NULL_ROOT) k = Some None" for k
    using state_ok_get_storage [of sample_chain sample_ghost] by (simp add: state_at_def state_from_existing_def)
  then show ?thesis
    by (simp add: pool_account_def pool_chain_current pool_block_def get_account_def load_account_def)
qed

definition priced_tx :: "u64 \<Rightarrow> transaction" where
  "priced_tx price = (sample_raw_tx 0)\<lparr>tx_gas_price := price\<rparr>"

lemma priced_tx_valid: "validate_tx sample_chain pool_chain (priced_tx price) = Some (Inr ())"
  by (simp add: validate_tx_def pool_chain_account priced_tx_def get_value_def get_nonce_def account_default_def exact_arith)

definition full_pool :: tx_pool where
  "full_pool = \<lparr>tp_pending = [(Hash [], priced_tx 1)], tp_pool = [], tp_ordered_queue = [price_ref (Hash [], priced_tx 1)],
    tp_block_limit = 0, tp_queue_limit = 0\<rparr>"

lemma full_pool_synced: "synced full_pool"
  by (simp add: synced_def full_pool_def is_heap_def)

lemma priced_hash: "tx_hash sample_chain (priced_tx price) \<notin> fst ` set (entries full_pool)"
  by (simp add: full_pool_def tx_hash_def blake2b_256_def inner_blake2b_256_def sample_blake2b_def BLANK_HASH_def)

theorem insert_tx_spec_witness:
  "\<exists>p'. insert_tx sample_chain pool_chain full_pool (priced_tx 5) = Some p' \<and> synced p' \<and>
    mset (entries p') = {#(tx_hash sample_chain (priced_tx 5), priced_tx 5)#}"
proof -
  from insert_tx_spec [OF full_pool_synced _ _ priced_tx_valid priced_hash, of 5] obtain p' h old rest
    where "insert_tx sample_chain pool_chain full_pool (priced_tx 5) = Some p'" "synced p'"
      "mset (entries full_pool) = add_mset (h, old) rest" "mset (entries p') = add_mset (tx_hash sample_chain (priced_tx 5), priced_tx 5) rest"
    by (auto simp: full_pool_def)
  then show ?thesis by (auto simp: full_pool_def)
qed

theorem stale_reference_panics_witness:
  "\<exists>p'. insert_tx sample_chain pool_chain (remove_tx full_pool (Hash [])) (priced_tx 5) = Some p' \<and>
    insert_tx sample_chain pool_chain p' (priced_tx 6) = None"
  by (rule stale_reference_panics [OF full_pool_synced _ _ _ _ priced_tx_valid priced_hash _ priced_tx_valid, where t = "priced_tx 1"])
    (simp_all add: full_pool_def priced_tx_def get_gas_price_def)

end
