(* ===== verification/Sample_Vrf.thy ===== *)
theory Sample_Vrf
  imports Vrf Sample
begin

text \<open>
  An instance of the parameters of the verifiable random function: the field with two elements, which is
  also the group of points, with encodings of 32 equal bytes.
\<close>

datatype f2 = F0 | F1

instantiation f2 :: field
begin

definition zero_f2_def [simp]: "0 = F0"

definition one_f2_def [simp]: "1 = F1"

definition plus_f2_def: "a + b = (if a = b then F0 else F1)"

definition minus_f2_def: "a - b = (if a = b then F0 else F1)"

definition uminus_f2_def [simp]: "- a = (a :: f2)"

definition times_f2_def: "a * b = (if a = F1 then b else F0)"

definition inverse_f2_def [simp]: "inverse a = (a :: f2)"

definition divide_f2_def: "a div b = (if b = F1 then a else F0)"

instance
proof
  fix a b c :: f2
  show "a + b + c = a + (b + c)" by (cases a; cases b; cases c) (simp_all add: plus_f2_def)
  show "(a + b) * c = a * c + b * c" by (cases a; cases b; cases c) (simp_all add: plus_f2_def times_f2_def)
  show "a * b * c = a * (b * c)" by (cases a) (simp_all add: times_f2_def)
  show "a + b = b + a" by (simp add: plus_f2_def eq_commute)
  show "a * b = b * a" by (cases a; cases b) (simp_all add: times_f2_def)
  show "0 + a = a" by (cases a) (simp_all add: plus_f2_def)
  show "- a + a = 0" by (simp add: plus_f2_def)
  show "a - b = a + - b" by (simp add: plus_f2_def minus_f2_def)
  show "1 * a = a" by (simp add: times_f2_def)
  show "(0 :: f2) \<noteq> 1" by simp
  show "a \<noteq> 0 \<Longrightarrow> inverse a * a = 1" by (cases a) (simp_all add: times_f2_def)
  show "a div b = a * inverse b" by (cases a; cases b) (simp_all add: divide_f2_def times_f2_def)
  show "inverse (0 :: f2) = 0" by simp
qed

end

definition f2_bytes :: "f2 \<Rightarrow> bytes" where
  "f2_bytes a = replicate 32 (if a = F1 then 1 else 0)"

definition f2_read :: "bytes \<Rightarrow> f2" where
  "f2_read b = (if hd b = 0 then F0 else F1)"

definition sample_ristretto :: "(f2, f2, unit) ristretto" where
  "sample_ristretto = ristretto.make f2_read f2_read (\<lambda>b. Some (f2_read b)) f2_bytes (*) 1 f2_bytes (\<lambda>b. Some (f2_read b))
    (\<lambda>b. take 32 (rev b @ replicate 32 0)) (\<lambda>b. take 64 (rev b @ replicate 64 0)) (\<lambda>b. take 32 b)
    (\<lambda>sk. sk @ sk) (\<lambda>b. None) (\<lambda>_. True) (\<lambda>_. 0)"

lemma sample_ristretto_sel [simp]:
  "scalar_mod_order sample_ristretto = f2_read"
  "scalar_mod_order_wide sample_ristretto = f2_read"
  "scalar_canonical sample_ristretto = (\<lambda>b. Some (f2_read b))"
  "scalar_bytes sample_ristretto = f2_bytes"
  "point_mul sample_ristretto = (*)"
  "base_point sample_ristretto = 1"
  "point_compress sample_ristretto = f2_bytes"
  "point_decompress sample_ristretto = (\<lambda>b. Some (f2_read b))"
  "var_blake2b_32 sample_ristretto = (\<lambda>b. take 32 (rev b @ replicate 32 0))"
  "blake2b_512 sample_ristretto = (\<lambda>b. take 64 (rev b @ replicate 64 0))"
  "expanded_bytes sample_ristretto = (\<lambda>sk. sk @ sk)"
  by (simp_all add: sample_ristretto_def ristretto.defs)

lemma f2_read_bytes [simp]: "f2_read (f2_bytes a) = a"
  by (cases a) (simp_all add: f2_read_def f2_bytes_def)

lemma sample_ristretto_ok: "ristretto_ok sample_ristretto"
  by (simp add: ristretto_ok_def distrib_right mult.assoc) (simp add: f2_bytes_def)

text \<open>The key 1 and the input of one zero byte: the challenge of the proof is 1.\<close>

theorem vrf_completeness_witness:
  "(case vrf_compute_with_proof sample_ristretto (vrf_from_scalar sample_ristretto F1) [0] of
     (val, pf) \<Rightarrow> vrf_is_valid sample_ristretto (vsk_public (vrf_from_scalar sample_ristretto F1)) [0] val pf \<and>
       val = vrf_compute sample_ristretto (vrf_from_scalar sample_ristretto F1) [0])"
proof -
  have "F1 + offset sample_ristretto (vsk_public (vrf_from_scalar sample_ristretto F1)) [0] \<noteq> 0"
    by (simp add: offset_def hash_s_def hash_chain_def f2_read_def plus_f2_def)
  then show ?thesis by (rule vrf_completeness [OF sample_ristretto_ok])
qed

end
