(* ===== verification/Sample_Epoch.thy ===== *)
theory Sample_Epoch
  imports Epoch Genesis_State Sample_Tx_Pool Sample_Vrf
begin

text \<open>
  A node after genesis whose key is that of the genesis validator, in the environments of the other instances, with a chance
  of one half for a slot: the theorems on the lottery, the committee and the production of blocks hold of it.
\<close>

section \<open>The node\<close>

definition sample_slot_env :: "(f2, f2, unit) slot_env" where
  "sample_slot_env = ristretto.extend sample_ristretto (slot_env.fields (\<lambda>_ _. Some (1 / 2)))"

lemma sample_slot_env_sel [simp]:
  "scalar_mod_order sample_slot_env = f2_read"
  "scalar_mod_order_wide sample_slot_env = f2_read"
  "scalar_canonical sample_slot_env = (\<lambda>b. Some (f2_read b))"
  "scalar_bytes sample_slot_env = f2_bytes"
  "point_mul sample_slot_env = (*)"
  "base_point sample_slot_env = 1"
  "point_compress sample_slot_env = f2_bytes"
  "point_decompress sample_slot_env = (\<lambda>b. Some (f2_read b))"
  "var_blake2b_32 sample_slot_env = (\<lambda>b. take 32 (rev b @ replicate 32 0))"
  "blake2b_512 sample_slot_env = (\<lambda>b. take 64 (rev b @ replicate 64 0))"
  "expanded_bytes sample_slot_env = (\<lambda>sk. sk @ sk)"
  "float_chance sample_slot_env = (\<lambda>_ _. Some (1 / 2))"
  by (simp_all add: sample_slot_env_def sample_ristretto_def ristretto.defs slot_env.defs)

lemma sample_slot_env_ok: "ristretto_ok sample_slot_env"
  by (simp add: ristretto_ok_def distrib_right mult.assoc) (simp add: f2_bytes_def)

text \<open>In this environment the public key is the secret key.\<close>

definition genesis_key :: privkey where
  "genesis_key = \<lparr>priv_inner = H256 ed_genesis_pub_key\<rparr>"

lemma genesis_key_length [simp]: "length ed_genesis_pub_key = 32"
  by (simp add: ed_genesis_pub_key_def)

abbreviation sample_pos :: epoch_pos where
  "sample_pos \<equiv> epoch_pos_new False"

lemma sample_codecs_filled:
  "ser (account_codec sample_chain) x \<noteq> []" "ser (entry_codec sample_chain) y \<noteq> []"
  by (simp_all add: sample_account_def sample_entry_def fields_codec_def enc_list_def enc_bytes_def word_field_def Let_def)

abbreviation genesis_ledger :: "address \<Rightarrow> account" where
  "genesis_ledger \<equiv> (\<lambda>_. account_default)(genesis_address := account_default\<lparr>a_balance := 1000000000000000000\<rparr>)"

abbreviation genesis_root :: hash where
  "genesis_root \<equiv> block_state_root (bc_genesis sample_started)"

lemma sample_genesis_state:
  "ledger_of sample_chain (state_at sample_started genesis_root) genesis_ledger"
  "validators_of sample_chain (get_storage sample_chain (state_at sample_started genesis_root)) [genesis_validator]"
  "cells_filled sample_chain (state_at sample_started genesis_root)"
  using genesis_state [OF sample_storage_ok [OF sample_like_chain(1)] sample_staking_ok sample_balance_oks(1) sample_hex_ok
      sample_node_fresh sample_codecs_filled sample_started_ok(1)] by simp_all

lemma genesis_validator_key [simp]: "val_pubkey genesis_validator = ed_genesis_pub_key"
  by (simp add: genesis_validator_def)

section \<open>The lottery\<close>



definition genesis_epoch_info :: epoch_info where
  "genesis_epoch_info = \<lparr>ep_seed = 0, ep_rng_seed = replicate 32 0, ep_validators =
    [\<lparr>vs_pubkey = ed_genesis_pub_key, vs_stake_amount = val_effective_balance genesis_validator, vs_sid = 0, vs_validator = True\<rparr>]\<rparr>"

lemma sample_epoch_info: "get_epoch_info sample_chain sample_started sample_pos 0 = Some (Some genesis_epoch_info)"
proof -
  have "validator_set sample_chain (state_at sample_started genesis_root) = Some (Some [genesis_validator])"
    by (rule validator_set_refines [OF sample_staking_ok sample_genesis_state(2)])
  moreover have "current_block sample_chain sample_started = Some (bc_genesis sample_started)"
    using chain_inv_current(1) [OF sample_started_ok(2)] by simp
  ultimately show ?thesis
    by (simp add: get_epoch_info_def genesis_epoch_def epoch_pos_new_def genesis_epoch_info_def stake_of_def)
qed

abbreviation sample_input :: bytes where
  "sample_input \<equiv> blake2b_256 sample_chain (ep_rng_seed genesis_epoch_info @ to_be_bytes 8 (0 :: u64))"

lemma sample_input_eq: "sample_input = 3 # replicate 31 0"
proof -
  have "le_bytes n 0 = replicate n 0" for n by (induction n) simp_all
  then have "ep_rng_seed genesis_epoch_info @ to_be_bytes 8 (0 :: u64) = replicate 40 0"
    by (simp add: genesis_epoch_info_def to_be_bytes_def replicate_add [symmetric])
  then show ?thesis by (simp add: blake2b_256_def inner_blake2b_256_def sample_blake2b_def)
qed

abbreviation sample_secret :: "(f2, f2) vrf_secret_key" where
  "sample_secret \<equiv> vrf_from_scalar sample_slot_env F1"

lemma sample_chain_keys [simp]:
  "secret_from_bytes sample_chain = sample_len 32" "public_from_secret sample_chain = (\<lambda>sk. sk)"
  by (simp_all add: sample_chain_def)

lemma sample_secret_key: "convert_secret_key sample_chain sample_slot_env (privkey_to_bytes genesis_key) = Some sample_secret"
  by (simp add: convert_secret_key_def genesis_key_def privkey_to_bytes_def sample_len_def slice_def f2_read_def)
    (simp add: ed_genesis_pub_key_def)

lemma sample_offset: "offset sample_slot_env (vsk_public sample_secret) sample_input = F0"
  by (simp add: offset_def hash_s_def hash_chain_def sample_input_eq f2_read_def)

lemma sample_scalar [simp]: "vsk_scalar sample_secret = F1"
  by (simp add: vrf_from_scalar_def Let_def)

definition sample_win :: "vrf_value \<times> vrf_evidence" where
  "sample_win = vrf_compute_with_proof sample_slot_env sample_secret sample_input"

lemma sample_win_sel:
  "fst sample_win = Value (replicate 32 1)" "length (evidence_bytes (snd sample_win)) = 64"
  by (simp_all add: sample_win_def vrf_compute_with_proof_def Let_def sample_offset plus_f2_def safe_invert_def basemul_def
      times_f2_def f2_bytes_def pack2_def)

lemma sample_threshold: "\<exists>t. calc_epoch_threshold sample_slot_env e genesis_epoch_info = Some t \<and> cmp_random_threshold (fst sample_win) t = Some True"
proof -
  obtain t where t: "calc_epoch_threshold sample_slot_env e genesis_epoch_info = Some t" "2 ^ 128 * (1 / 2) \<le> rat_of_nat (unat t) + 1"
    using threshold_floor [of sample_slot_env 200 "word_of_nat (length (ep_validators genesis_epoch_info))" "1 / 2"]
    by (auto simp: calc_epoch_threshold_def)
  have "rat_of_nat (2 ^ 127) \<le> rat_of_nat (unat t + 1)" using t(2) by simp
  then have "2 ^ 127 \<le> unat t + 1" by (simp only: of_nat_le_iff)
  moreover have "nat_of_le (replicate n 1) * 255 + 1 = 256 ^ n" for n by (induction n) simp_all
  from this [of 16] have "nat_of_le (replicate 16 1) < 2 ^ 126" by simp
  ultimately have "(from_be_bytes (replicate 16 1) :: u128) < t"
    by (simp add: from_be_bytes_def word_less_nat_alt unat_of_nat_small)
  with t(1) show ?thesis by (simp add: sample_win_sel cmp_random_threshold_def slice_def)
qed

lemma sample_wins:
  "make_slot_proposer sample_chain sample_slot_env sample_started sample_pos 0 genesis_key = Some (Some (Some sample_win))"
proof -
  obtain t where t: "calc_epoch_threshold sample_slot_env 0 genesis_epoch_info = Some t" "cmp_random_threshold (fst sample_win) t = Some True"
    using sample_threshold by blast
  have "key_listed sample_chain genesis_key (ep_validators genesis_epoch_info) = Some True"
    by (simp add: genesis_epoch_info_def genesis_key_def privkey_to_pubkey_def to_secrit_key_def privkey_to_bytes_def sample_len_def
        pubkey_equal_def)
  with t show ?thesis
    by (simp add: make_slot_proposer_def Let_def sample_epoch_info sample_secret_key sample_win_def [symmetric] case_prod_unfold)
qed

theorem winner_proves_slot_witness:
  "vrf_is_valid sample_slot_env (vsk_public sample_secret) sample_input (fst sample_win) (snd sample_win)"
proof -
  have "make_slot_proposer sample_chain sample_slot_env sample_started sample_pos 0 genesis_key =
      Some (Some (Some (fst sample_win, snd sample_win)))" by (simp add: sample_wins)
  moreover have "vsk_scalar sample_secret + offset sample_slot_env (vsk_public sample_secret) sample_input \<noteq> 0"
    by (simp add: sample_offset plus_f2_def)
  ultimately show ?thesis
    using winner_proves_slot [OF sample_slot_env_ok _ _ sample_secret_key] sample_epoch_info by (metis div_0)
qed

section \<open>Production\<close>

text \<open>A payment from the genesis account, signed with some key.\<close>

definition genesis_raw_tx :: "u128 \<Rightarrow> transaction" where
  "genesis_raw_tx v = transaction_new genesis_address 1 0 0 [] (ser sample_transfer \<lparr>mt_receiver = addr_b, mt_value = v\<rparr>)"

definition genesis_tx :: "u128 \<Rightarrow> transaction" where
  "genesis_tx v = (case tx_sign sample_chain (genesis_raw_tx v) sample_key of Some (Inr tx) \<Rightarrow> tx | _ \<Rightarrow> genesis_raw_tx v)"

lemma genesis_tx_sel [simp]:
  "verify_sign sample_chain (genesis_tx v) = Some (Inr ())" "tx_sender (genesis_tx v) = genesis_address" "tx_nonce (genesis_tx v) = 1"
  "tx_data (genesis_tx v) = ser sample_transfer \<lparr>mt_receiver = addr_b, mt_value = v\<rparr>"
proof -
  from tx_sign_ok [OF sample_key_ok(1), of "genesis_raw_tx v"] obtain si
    where "genesis_tx v = set_sign_data (genesis_raw_tx v) si" "verify_sign sample_chain (set_sign_data (genesis_raw_tx v) si) = Some (Inr ())"
    by (auto simp: genesis_tx_def)
  then show "verify_sign sample_chain (genesis_tx v) = Some (Inr ())" "tx_sender (genesis_tx v) = genesis_address" "tx_nonce (genesis_tx v) = 1"
    "tx_data (genesis_tx v) = ser sample_transfer \<lparr>mt_receiver = addr_b, mt_value = v\<rparr>"
    by (simp_all add: set_sign_data_def genesis_raw_tx_def transaction_new_def)
qed

definition sample_proposal :: "(memory_kv, sample_mem, memory_kv) epoch_proposal" where
  "sample_proposal = \<lparr>ep_myid = genesis_key, ep_pubkey = \<lparr>pub_inner = H256 ed_genesis_pub_key\<rparr>, ep_chain = sample_started,
    ep_stake = sample_pos, ep_tx_pool = tx_pool_new\<lparr>tp_pending := [(tx_hash sample_chain (genesis_tx 30), genesis_tx 30)]\<rparr>,
    ep_network_send = \<lparr>receiver_alive = True, sent = []\<rparr>\<rparr>"

lemma sample_proposal_sel [simp]:
  "ep_myid sample_proposal = genesis_key" "ep_chain sample_proposal = sample_started" "ep_stake sample_proposal = sample_pos"
  "get_pending (ep_tx_pool sample_proposal) = [genesis_tx 30]"
  "tp_pending (ep_tx_pool sample_proposal) = [(tx_hash sample_chain (genesis_tx 30), genesis_tx 30)]"
  "ep_network_send sample_proposal = \<lparr>receiver_alive = True, sent = []\<rparr>"
  by (simp_all add: sample_proposal_def get_pending_def)

theorem accepted_tx_stops_proposer_witness:
  "\<exists>p. add_tx sample_chain sample_started tx_pool_new (genesis_tx 1000000000000000000) = Some (True, p) \<and>
    on_slot sample_chain sample_slot_env (sample_proposal\<lparr>ep_tx_pool := p\<rparr>) 0 (Some (GENESIS_TIME + 6)) = Some None"
proof -
  have L: "ledger_of sample_chain (state_at sample_started (block_state_root (last [bc_genesis sample_started]))) genesis_ledger"
    using sample_genesis_state(1) by simp
  have win: "make_slot_proposer sample_chain sample_slot_env sample_started (ep_stake sample_proposal) 0 (ep_myid sample_proposal) =
      Some (Some (Some (fst sample_win, snd sample_win)))" by (simp add: sample_wins)
  let ?msg = "\<lparr>mt_receiver = addr_b, mt_value = 1000000000000000000\<rparr>"
  have "\<exists>p. add_tx sample_chain sample_started tx_pool_new (genesis_tx 1000000000000000000) = Some (True, p) \<and>
      get_pending p = [genesis_tx 1000000000000000000] \<and>
      on_slot sample_chain sample_slot_env (sample_proposal\<lparr>ep_tx_pool := p\<rparr>) 0 (Some (GENESIS_TIME + 6)) = Some None"
    by (rule accepted_tx_stops_proposer [OF sample_chain_sel(1) sample_started_ok(2) L _ _ _ _ _ _ _ _ _ win, where msg = ?msg])
      (simp_all add: genesis_address_wf account_default_def transfer_fee_def)
  then show ?thesis by blast
qed

lemma sample_execution:
  obtains s2 L2 where
    "exc_txs sample_chain [genesis_tx 30] (state_at sample_started genesis_root) address_default = Some (Inr (), s2)"
    "ledger_of sample_chain s2 L2" "a_nonce (L2 genesis_address) = 1" "cells_filled sample_chain s2"
proof -
  let ?S = "state_at sample_started genesis_root" and ?msg = "\<lparr>mt_receiver = addr_b, mt_value = 30\<rparr>"
  have "hd (as_slice genesis_address) = 0xd2" "hd (as_slice address_default) = 0" "hd (as_slice addr_b) = 2"
    by (simp_all add: genesis_address_def address_default_def addr_b_def)
  then have "genesis_address \<noteq> addr_b" "address_default \<noteq> genesis_address" "address_default \<noteq> addr_b" by auto
  moreover have "address_wf address_default" by (simp add: address_wf_def address_default_def)
  ultimately have wf: "address_wf genesis_address" "address_wf address_default" "genesis_address \<noteq> addr_b"
    "address_default \<noteq> genesis_address" "address_default \<noteq> addr_b"
    using genesis_address_wf by simp_all
  obtain s1 where s1: "exc_transfer_tx sample_chain (genesis_tx 30) ?S = Some (Inr hash_default, s1)"
    "ledger_of sample_chain s1 (paid genesis_address addr_b 30 genesis_ledger)"
    using exc_transfer_tx_paid [OF sample_balance_oks(1) sample_genesis_state(1), of "genesis_tx 30" ?msg "{genesis_address, addr_b}"] wf
    by (auto simp: account_default_def transfer_fee_def total_supply_def worth_def)
  obtain s2 where s2: "add_balance sample_chain s1 address_default transfer_fee = Some s2"
      "ledger_of sample_chain s2 (credit address_default transfer_fee (paid genesis_address addr_b 30 genesis_ledger))"
    using add_balance_ledger [OF sample_balance_oks(1) s1(2) wf(2), of transfer_fee] wf
    by (auto simp: paid_def credit_def debit_def next_nonce_def account_default_def transfer_fee_def)
  have "cells_filled sample_chain s2"
    using sample_genesis_state(3) exc_transfer_tx_filled [OF _ sample_codecs_filled(1) s1(1)] balance_ops_filled(1) [OF _ sample_codecs_filled(1) s2(1)] by blast
  with s1(1) s2 wf show thesis
    by (intro that [of s2]) (auto simp: paid_def account_default_def)
qed

lemma sample_produced:
  obtains b bc1 where
    "produce_block sample_chain sample_started (ep_tx_pool sample_proposal) 0 (block_hash sample_chain (bc_genesis sample_started))
       (fst sample_win) (snd sample_win) (Some (GENESIS_TIME + 6)) = Some (b, bc1)"
    "block_height b = 1" "h_time (b_header b) = GENESIS_TIME + 6"
    "get_account sample_chain (state_at bc1 (block_state_root b)) genesis_address \<noteq> None"
proof -
  let ?S = "state_at sample_started genesis_root"
  note storage = sample_storage_ok [OF sample_like_chain(1)]
  obtain s2 L2 where s2: "exc_txs sample_chain [genesis_tx 30] ?S address_default = Some (Inr (), s2)" "ledger_of sample_chain s2 L2"
    "cells_filled sample_chain s2" using sample_execution by metis
  obtain f where f: "state_ok sample_chain sample_ghost ?S f" "archive_ok sample_chain sample_ghost (bc_state_backend sample_started)"
    using sample_started_ok(2) by (auto simp: chain_inv_def states_kept_def state_ok_def state_at_def)
  have ok: "state_ok sample_chain sample_ghost s2 f" by (rule exc_txs_state_ok [OF f(1) s2(1)])
  obtain s3 f3 where s3: "state_commit sample_chain s2 = Some s3" "state_ok sample_chain sample_ghost s3 f3"
    using state_commit_get [OF storage ok] by metis
  have "archive_ok sample_chain sample_ghost (sdb s3)" using s3(2) by (simp add: state_ok_def)
  note sh = share_backend_ok [OF storage f(2) this]
  have "get_storage sample_chain (state_at (share_backend sample_started s3) (state_root s3)) = get_storage sample_chain s2"
    unfolding state_at_def by (rule commit_reopens [OF storage ok s2(3) s3(1) sh])
  then have acc: "get_account sample_chain (state_at (share_backend sample_started s3) (state_root s3)) genesis_address = Some (L2 genesis_address)"
    using ledger_ofD [OF s2(2) genesis_address_wf] by (simp add: get_account_def load_account_def)
  have head: "get_block sample_chain (bc_db sample_started) (block_hash sample_chain (bc_genesis sample_started)) = Some (Some (bc_genesis sample_started))"
    using sample_started_ok(2) holdsD(2) by (fastforce simp: chain_inv_def)
  obtain vp where vp: "vrf_proof_new (evidence_bytes (snd sample_win)) = Some vp"
    using sample_win_sel(2) by (simp add: vrf_proof_new_def slice_def)
  have ap: "builder_apply_block sample_chain sample_started genesis_root
      (block_new sample_chain header_default [genesis_tx 30] [] []) = Some (state_root s3, share_backend sample_started s3)"
    using s2(1) s3(1) by (simp add: builder_apply_block_def exc_txs_in_block_def get_txs_def block_new_def balance_commit_def)
  define b where "b = (let b0 = block_new sample_chain header_default [genesis_tx 30] [] []
    in b0\<lparr>b_header := (b_header b0)\<lparr>h_parent_hash := block_hash sample_chain (bc_genesis sample_started), h_height := 1, h_slot := 0,
         h_vrf_output := value_bytes (fst sample_win), h_vrf_proof := vp, h_state_root := state_root s3, h_time := GENESIS_TIME + 6\<rparr>\<rparr>)"
  have "produce_block sample_chain sample_started (ep_tx_pool sample_proposal) 0 (block_hash sample_chain (bc_genesis sample_started))
       (fst sample_win) (snd sample_win) (Some (GENESIS_TIME + 6)) = Some (b, share_backend sample_started s3)"
    by (simp add: produce_block_def head prepare_transactions_def ap vp exact_arith Let_def b_def)
  moreover have "block_height b = 1" "h_time (b_header b) = GENESIS_TIME + 6" and post: "block_state_root b = state_root s3"
    by (simp_all add: b_def Let_def block_height_def block_state_root_def)
  moreover have "get_account sample_chain (state_at (share_backend sample_started s3) (block_state_root b)) genesis_address \<noteq> None"
    unfolding post using acc by simp
  ultimately show thesis by (intro that)
qed

lemma sample_slot_wins:
  "make_slot_proposer sample_chain sample_slot_env (ep_chain sample_proposal) (ep_stake sample_proposal) 0 (ep_myid sample_proposal) =
    Some (Some (Some (fst sample_win, snd sample_win)))"
  by (simp add: sample_wins)

lemma sample_slot_run:
  obtains b bc1 H where
    "produce_block sample_chain (ep_chain sample_proposal) (ep_tx_pool sample_proposal) 0
       (block_hash sample_chain (last [bc_genesis sample_started])) (fst sample_win) (snd sample_win) (Some (GENESIS_TIME + 6)) = Some (b, bc1)"
    "b_header b \<in> H" "inj_on (header_hash sample_chain) H"
    "chain_inv sample_chain sample_ghost H (ep_chain sample_proposal) [bc_genesis sample_started]"
    "\<forall>e \<in> set (tp_pending (ep_tx_pool sample_proposal)). get_account sample_chain (state_at bc1 (block_state_root b)) (tx_sender (snd e)) \<noteq> None"
    "h_time (b_header (last [bc_genesis sample_started])) < h_time (b_header b)"
proof -
  let ?g = "bc_genesis sample_started"
  obtain b bc1 where b: "produce_block sample_chain sample_started (ep_tx_pool sample_proposal) 0 (block_hash sample_chain ?g)
       (fst sample_win) (snd sample_win) (Some (GENESIS_TIME + 6)) = Some (b, bc1)"
    "block_height b = 1" "h_time (b_header b) = GENESIS_TIME + 6"
    "get_account sample_chain (state_at bc1 (block_state_root b)) genesis_address \<noteq> None" using sample_produced .
  let ?H = "{b_header ?g, b_header b}"
  have "header_hash sample_chain (b_header ?g) \<noteq> header_hash sample_chain (b_header b)"
    using sample_header_hash_height [of "b_header ?g" "b_header b"] b(2) sample_genesis_sel(1) by (auto simp: block_height_def)
  then have "inj_on (header_hash sample_chain) ?H" by auto
  moreover have "chain_inv sample_chain sample_ghost ?H sample_started [?g]"
    using sample_started_ok(2) by (simp add: chain_inv_def)
  moreover have "h_time (b_header ?g) < h_time (b_header b)" by (simp add: b(3) GENESIS_TIME_def)
  ultimately show thesis using b(1,4) by (intro that [of b bc1 ?H]) simp_all
qed

text \<open>The genesis validator produces the first block after genesis, with the payment in it.\<close>

theorem on_slot_produces_witness:
  "\<exists>n' b. on_slot sample_chain sample_slot_env sample_proposal 0 (Some (GENESIS_TIME + 6)) = Some (Some n') \<and>
    current_block sample_chain (ep_chain n') = Some b \<and> b_txs b = [genesis_tx 30] \<and>
    sent (ep_network_send n') = [Publish [topic_into MapBlock] (PBlock (ser (block_codec sample_chain) b))]"
proof -
  obtain b bc1 H where b: "produce_block sample_chain (ep_chain sample_proposal) (ep_tx_pool sample_proposal) 0
       (block_hash sample_chain (last [bc_genesis sample_started])) (fst sample_win) (snd sample_win) (Some (GENESIS_TIME + 6)) = Some (b, bc1)"
    "b_header b \<in> H" and inj: "inj_on (header_hash sample_chain) H"
    and inv: "chain_inv sample_chain sample_ghost H (ep_chain sample_proposal) [bc_genesis sample_started]"
    and acc: "\<forall>e \<in> set (tp_pending (ep_tx_pool sample_proposal)). get_account sample_chain (state_at bc1 (block_state_root b)) (tx_sender (snd e)) \<noteq> None"
    and later: "h_time (b_header (last [bc_genesis sample_started])) < h_time (b_header b)"
    using sample_slot_run .
  obtain n' where n': "on_slot sample_chain sample_slot_env sample_proposal 0 (Some (GENESIS_TIME + 6)) = Some (Some n')"
    "chain_inv sample_chain sample_ghost H (ep_chain n') ([bc_genesis sample_started] @ [b])" "b_txs b = [genesis_tx 30]"
    "sent (ep_network_send n') = [Publish [topic_into MapBlock] (PBlock (ser (block_codec sample_chain) b))]"
    using on_slot_produces [OF sample_chain_ok sample_storage_ok [OF sample_like_chain(1)] sample_chain_sel(1) inj inv _ _ sample_slot_wins b acc]
      later by auto
  then show ?thesis using chain_inv_current(1) [OF n'(2)] by auto
qed

end
