(* ===== verification/Sample_Sync.thy ===== *)
theory Sample_Sync
  imports Sync_Manager Net_Service Sample_Epoch
begin

text \<open>
  Concrete instances of the parameters of the network: a priority queue that is an association list, a cache of seen
  messages that forgets nothing, and the identity as shuffling, with the witnesses of the properties of the handler and
  of the synchronisation.
\<close>

section \<open>A priority queue\<close>

definition pick_first :: "(block \<times> i64) \<Rightarrow> (block \<times> i64) \<Rightarrow> block \<times> i64" where
  "pick_first x y = (if sint (snd y) \<le> sint (snd x) then x else y)"

definition sample_pop :: "(block \<times> i64) list \<Rightarrow> ((block \<times> i64) \<times> (block \<times> i64) list) option" where
  "sample_pop q =
    (case AList.clearjunk q of
       [] \<Rightarrow> None
     | x # xs \<Rightarrow> let e = fold pick_first xs x in Some (e, AList.delete (fst e) q))"

definition sample_node_env :: "(block \<times> i64) list node_env" where
  "sample_node_env =
    \<lparr>queue_new = [], queue_push = (\<lambda>q b p. AList.update b p q), queue_pop = sample_pop, queue_is_empty = (\<lambda>q. q = []),
     transaction_codec = \<lparr>ser = (\<lambda>tx. ser (txs_codec sample_chain) [tx]),
       de = (\<lambda>bs. case de (txs_codec sample_chain) bs of Some [tx] \<Rightarrow> Some tx | _ \<Rightarrow> None)\<rparr>\<rparr>"

lemma fold_pick_first:
  "fold pick_first xs x \<in> insert x (set xs) \<and> (\<forall>y \<in> insert x (set xs). sint (snd y) \<le> sint (snd (fold pick_first xs x)))"
proof (induction xs arbitrary: x)
  case (Cons a xs)
  from Cons [of "pick_first a x"] show ?case by (auto simp: pick_first_def split: if_splits)
qed simp

lemma sample_queue_ok: "queue_ok sample_node_env map_of"
proof -
  have pop: "\<exists>b p q'. sample_pop q = Some ((b, p), q') \<and> map_of q b = Some p \<and>
      (\<forall>c r. map_of q c = Some r \<longrightarrow> sint r \<le> sint p) \<and> map_of q' = (map_of q)(b := None)" if ne: "map_of q \<noteq> Map.empty" for q
  proof -
    have j: "map_of (AList.clearjunk q) = map_of q" "keys_distinct (AList.clearjunk q)"
      by (simp_all add: AList.map_of_clearjunk AList.distinct_clearjunk)
    then obtain x xs where q: "AList.clearjunk q = x # xs" using ne by (cases "AList.clearjunk q") auto
    define e where "e = fold pick_first xs x"
    have e: "e \<in> set (AList.clearjunk q)" "\<forall>y \<in> set (AList.clearjunk q). sint (snd y) \<le> sint (snd e)"
      using fold_pick_first [of xs x] by (simp_all add: q e_def)
    have a: "map_of q (fst e) = Some (snd e)" unfolding j(1) [symmetric] using e(1) j(2) by simp
    have b: "\<forall>c r. map_of q c = Some r \<longrightarrow> sint r \<le> sint (snd e)"
      unfolding j(1) [symmetric] using e(2) by (auto dest!: map_of_SomeD)
    have c: "sample_pop q = Some ((fst e, snd e), AList.delete (fst e) q)"
      by (simp add: sample_pop_def q e_def Let_def)
    have "map_of (AList.delete (fst e) q) = (map_of q)(fst e := None)" by simp
    with a b c show ?thesis by (intro exI conjI)
  qed
  show ?thesis unfolding queue_ok_def
  proof (intro conjI allI impI)
    fix q show "queue_is_empty sample_node_env q \<longleftrightarrow> map_of q = Map.empty" by (simp add: sample_node_env_def)
  next
    fix q :: "(block \<times> i64) list" assume "map_of q \<noteq> Map.empty"
    from pop [OF this] show "\<exists>b p q'. queue_pop sample_node_env q = Some ((b, p), q') \<and> map_of q b = Some p \<and>
        (\<forall>c r. map_of q c = Some r \<longrightarrow> sint r \<le> sint p) \<and> map_of q' = (map_of q)(b := None)"
      unfolding sample_node_env_def node_env.select_convs .
  qed (simp_all add: sample_node_env_def)
qed

section \<open>The handler\<close>

definition sample_processor :: "(memory_kv, sample_mem, memory_kv, (block \<times> i64) list) message_processor" where
  "sample_processor = message_processor_new sample_node_env sample_started tx_pool_new
    \<lparr>receiver_alive = True, sent = []\<rparr> \<lparr>receiver_alive = True, sent = []\<rparr>"

lemma sample_processor_sel [simp]:
  "mp_chain sample_processor = sample_started" "mp_queue sample_processor = []"
  "mp_network sample_processor = \<lparr>receiver_alive = True, sent = []\<rparr>"
  by (simp_all add: sample_processor_def message_processor_new_def sample_node_env_def)

text \<open>A node with the genesis block only is asked for two blocks from there.\<close>

theorem range_request_served_witness:
  "on_blocks_by_range_request sample_chain sample_processor [7] 3
     \<lparr>br_head_block_root = hash_default, br_start_slot = 0, br_count = 2, br_step = 1\<rparr> =
    Some (Some (sample_processor\<lparr>mp_network := \<lparr>receiver_alive = True, sent =
      [P2P [7] (Response 3 (Success (RBlocksByRange (ser (block_codec sample_chain) (bc_genesis sample_started))))),
       P2P [7] (Response 3 (StreamTermination TBlocksByRange))]\<rparr>\<rparr>))"
proof -
  have inv: "chain_inv sample_chain sample_ghost sample_headers (mp_chain sample_processor) [bc_genesis sample_started]"
    using sample_started_ok(2) by simp
  have "1 = answer_length (length [bc_genesis sample_started]) (unat (1 :: u64)) (unat (0 :: u64)) (Some (unat (2 :: u64)))"
    by (simp add: answer_length_def)
  from range_request_served [OF inv, of "\<lparr>br_head_block_root = hash_default, br_start_slot = 0, br_count = 2, br_step = 1\<rparr>" 1 "[7]" 3]
    this show ?thesis by simp
qed

section \<open>The synchronisation\<close>

definition sample_sync_env :: sync_env where
  "sample_sync_env = \<lparr>blocks_hash = (\<lambda>bs. 0), shuffle_peers = (\<lambda>n ps. ps)\<rparr>"

definition sample_sync :: "(memory_kv, sample_mem, memory_kv) sync_manager" where
  "sample_sync = the (sync_spawn sample_chain sample_started \<lparr>receiver_alive = True, sent = []\<rparr>)"

definition sample_remote :: peer_sync_info where
  "sample_remote = \<lparr>pi_genesis_hash = hash_default, pi_finalized_root = hash_default, pi_finalized_number = 12,
    pi_head_root = hash_default, pi_network_id = 31133\<rparr>"

text \<open>A fresh task that is told of a peer twelve blocks ahead.\<close>

theorem reachable_sync_ok_witness:
  "sync_reach sample_chain sample_sync_env sample_sync [AddPeer [7] sample_remote] \<and>
    sync_handle sample_chain sample_sync_env sample_sync (AddPeer [7] sample_remote) \<noteq> None"
proof -
  have "sync_spawn sample_chain sample_started \<lparr>receiver_alive = True, sent = []\<rparr> = Some sample_sync"
    using chain_inv_current(1) [OF sample_started_ok(2)] by (simp add: sample_sync_def sync_spawn_def range_sync_new_def)
  then have "sync_reach sample_chain sample_sync_env sample_sync []" by (rule reach_start)
  from reach_receive [OF this, of "AddPeer [7] sample_remote"]
  have r: "sync_reach sample_chain sample_sync_env sample_sync [AddPeer [7] sample_remote]" by simp
  from reachable_sync_ok [OF r _ refl] have "sync_handle sample_chain sample_sync_env sample_sync (AddPeer [7] sample_remote) \<noteq> None" by simp
  with r show ?thesis ..
qed

section \<open>The cache of seen messages\<close>

definition sample_lru :: "message_id list lru_env" where
  "sample_lru = \<lparr>lru_put = (\<lambda>l i. (i \<in> set l, i # l))\<rparr>"

definition sample_behaviour :: "message_id list behaviour" where
  "sample_behaviour = \<lparr>bh_events = [], bh_seen_gossip_messages = [], bh_p2p = p2p_new\<rparr>"

end
