(* ===== verification/Spec2Isabelle.thy ===== *)
theory Spec2Isabelle
  imports Sample_Chain Sample_Pool Sample_Sync
begin

text \<open>
  \<^bold>\<open>Verification of a MAP node.\<close> The program is a block chain node in Rust. A block (\<^verbatim>\<open>core/src/block.rs\<close>) carries
  transactions; \<^verbatim>\<open>executor/src/lib.rs\<close> runs them on accounts and validators kept in a state trie
  (\<^verbatim>\<open>core/src/state.rs\<close>); \<^verbatim>\<open>chain/src\<close> stores blocks and decides which become the head; \<^verbatim>\<open>pool/src\<close> keeps pending
  transactions; \<^verbatim>\<open>generator/src\<close> draws the proposer of a slot and produces a block; \<^verbatim>\<open>network/src\<close> gossips blocks, serves and
  downloads them. The tasks of a node share the chain and the pool and talk over channels.

  \<^bold>\<open>Reading the model.\<close> A panic is \<^term>\<open>None\<close>, a \<^verbatim>\<open>Result\<close> a sum, and state is passed and returned, also with an error. A
  loop that may run forever is a partial function whose outer \<^term>\<open>None\<close> is the endless run, so that termination is a theorem
  (no definition uses fuel). Integers have the width of the code; the field \<open>overflow_checks\<close> tells whether the build checks
  overflow. A \<^verbatim>\<open>HashMap\<close> or \<^verbatim>\<open>HashSet\<close> is a list in its order of iteration, a channel the list of what was sent. Shared
  objects behind a lock are threaded through the operations that take the lock. Log lines are left out.

  Code outside the repository is a record of parameters, extended along the imports: \<open>crates\<close> (blake2b, hex), \<open>dalek\<close>
  (ed25519), \<open>storage_env\<close> (memory-db, trie-db, the key-value store), \<open>tx_env\<close> to \<open>chain_env\<close> (bincode codecs, RocksDB);
  \<open>ristretto\<close> and \<open>slot_env\<close> (curve, hashes, the floating point chance); \<open>node_env\<close> (priority queue), \<open>lru_env\<close>
  and \<open>sync_env\<close> (shuffling, hash of a batch). What their documentation promises are the predicates named \<open>_ok\<close>.

  \<^bold>\<open>Theories.\<close>
  \<^item> \<^verbatim>\<open>Prelude\<close>, \<^verbatim>\<open>Errors\<close>, \<^verbatim>\<open>Types\<close>, \<^verbatim>\<open>Keys\<close>: integers, panics, byte order, dictionaries; \<^verbatim>\<open>common/errors\<close>, \<^verbatim>\<open>common/hash\<close>,
    \<^verbatim>\<open>core/src/types.rs\<close>, \<^verbatim>\<open>common/ed25519\<close>.
  \<^item> \<^verbatim>\<open>Store\<close>, \<^verbatim>\<open>State\<close>: \<^verbatim>\<open>common/store\<close>, \<^verbatim>\<open>core/src/state.rs\<close>, \<^verbatim>\<open>core/src/trie.rs\<close>. The locales of the stores are
    interpreted on the model; a commit keeps what every key reads and its root does not depend on the order of changes.
  \<^item> \<^verbatim>\<open>Transaction\<close>, \<^verbatim>\<open>Block\<close>, \<^verbatim>\<open>Balance\<close>, \<^verbatim>\<open>Staking\<close>, \<^verbatim>\<open>Runtime\<close>, \<^verbatim>\<open>Executor\<close>: the files of the same names in \<^verbatim>\<open>core/src\<close> (with
    \<^verbatim>\<open>storage.rs\<close> and \<^verbatim>\<open>genesis.rs\<close>) and \<^verbatim>\<open>executor/src\<close>. Balances refine a ledger, the linked cells of validators a list; a
    block conserves money; each branch of a transfer is described.
  \<^item> \<^verbatim>\<open>Poa\<close>, \<^verbatim>\<open>ChainDB\<close>, \<^verbatim>\<open>Blockchain\<close>, \<^verbatim>\<open>Genesis_State\<close>: \<^verbatim>\<open>consensus/src/poa.rs\<close>, \<^verbatim>\<open>chain/src/store.rs\<close>, \<^verbatim>\<open>chain/src/blockchain.rs\<close>.
    Every reachable store holds one line of valid blocks (\<open>chain_inv\<close>), by induction over imports.
  \<^item> \<^verbatim>\<open>Collections\<close>, \<^verbatim>\<open>Pool_Queue\<close>, \<^verbatim>\<open>Pool\<close>, \<^verbatim>\<open>Pool_Inv\<close>, \<^verbatim>\<open>Pool_Ops\<close>: \<^verbatim>\<open>pool/src/transaction_pool\<close>, with its invariant, the effect
    and the limits of each operation and the iteration over pending transactions. \<^verbatim>\<open>Binary_Heap\<close>, \<^verbatim>\<open>Tx_Pool\<close>:
    \<^verbatim>\<open>pool/src/tx_pool.rs\<close> over the heap of the standard library.
  \<^item> \<^verbatim>\<open>Vrf\<close>, \<^verbatim>\<open>Apos\<close>, \<^verbatim>\<open>Epoch\<close>: \<^verbatim>\<open>common/crypto/src/vrf.rs\<close>, \<^verbatim>\<open>generator/src\<close>. Proofs of a slot are accepted, the lottery has its
    chance, a winner produces a block its own chain accepts; a block runs the same twice (\<open>agree\<close>).
  \<^item> \<^verbatim>\<open>Messages\<close>, \<^verbatim>\<open>Processor\<close>, \<^verbatim>\<open>Net_Service\<close>: the messages, the handler and the path to the swarm in \<^verbatim>\<open>network/src\<close>.
    Range requests are answered in finite time; the next block is imported from gossip.
  \<^item> \<^verbatim>\<open>Batches\<close>, \<^verbatim>\<open>Range_Sync\<close>, \<^verbatim>\<open>Sync_Manager\<close>: \<^verbatim>\<open>network/src/sync\<close>. \<open>sync_reach\<close> is the step relation of the task, its inbox
    and the threads of the block processor; its invariant \<open>sync_ok\<close> holds in every reachable state.
  \<^item> \<^verbatim>\<open>Sample\<close>, \<^verbatim>\<open>Sample_Chain\<close>, \<^verbatim>\<open>Sample_Pool\<close>, \<^verbatim>\<open>Sample_Tx_Pool\<close>, \<^verbatim>\<open>Sample_Vrf\<close>, \<^verbatim>\<open>Sample_Epoch\<close>, \<^verbatim>\<open>Sample_Sync\<close>: concrete
    parameters for which the assumptions are proved, and the witness of each property with assumptions.

  This theory holds the property that spans the components: a published block becomes the head of a peer.

  \<^bold>\<open>Bounds.\<close> Theorems on heights assume chains shorter than \<open>2 ^ 64\<close> blocks (\<open>2 ^ 63\<close> where heights are negated as
  \<^verbatim>\<open>i64\<close>), those on money that sums fit their words where they do not assume the overflow checks.

  \<^bold>\<open>Not modelled.\<close> The substreams and codecs of \<^verbatim>\<open>network/src/p2p\<close> (\<^verbatim>\<open>handler.rs\<close>, \<^verbatim>\<open>codec\<close>, the upgrades in \<^verbatim>\<open>protocol.rs\<close>) and
  the set up of the swarm: they are made of values of the libp2p and tokio crates. The node codec of the trie
  (\<^verbatim>\<open>core/src/trie.rs\<close>), an instance for trie-db. Opening of files, command line, logging, metrics, the JSON server, the
  tasks and timers of tokio, and \<^verbatim>\<open>common/mtree\<close>, which nothing uses. Consensus between competing branches is not in the
  code: the chain accepts only children of its head.
\<close>

section \<open>From the producer of a block to the head of its peers\<close>

text \<open>C38. A block that a node produces, imports and publishes reaches the head of every peer that has the same chain: the
  published message is delivered as a gossiped block when the peer has not seen it, the peer computes the same state root,
  appends the block to its chain and forwards the message. Blocks the peer has cached for later heights do not
  matter.\<close>

theorem published_block_imported:
  assumes "chain_ok E c" "storage_ok E G" "overflow_checks E" "inj_on (header_hash E) H"
    and "chain_inv E G H (ep_chain n) cs" "length cs < 2 ^ 63" "receiver_alive (ep_network_send n)"
    and "make_slot_proposer E R (ep_chain n) (ep_stake n) sid (ep_myid n) = Some (Some (Some (v, pf)))"
    and "produce_block E (ep_chain n) (ep_tx_pool n) sid (block_hash E (last cs)) v pf now = Some (b, bc1)" "b_header b \<in> H"
    and "\<forall>e \<in> set (tp_pending (ep_tx_pool n)). get_account E (state_at bc1 (block_state_root b)) (tx_sender (snd e)) \<noteq> None"
    and "h_time (b_header (last cs)) < h_time (b_header b)"
    and "chain_inv E G H (mp_chain mp) cs"
    and "\<forall>k. trie_get (trie E) (archive_get E (bc_state_backend (mp_chain mp))) (block_state_root (last cs)) k =
      trie_get (trie E) (archive_get E (bc_state_backend (ep_chain n))) (block_state_root (last cs)) k"
    and "queue_ok N content" "cached_ahead content (length cs) (mp_queue mp)" "receiver_alive (mp_network mp)"
    and "\<not> fst (lru_put L (bh_seen_gossip_messages bh) i)" "bh_events bh = []"
  shows "\<exists>n' t d bh' msg mp'. on_slot E R n sid now = Some (Some n') \<and> chain_inv E G H (ep_chain n') (cs @ [b]) \<and>
    (\<exists>out. sent (ep_network_send n') = sent (ep_network_send n) @ [Publish [t] out] \<and> publish [t] out = [CallPublish t d]) \<and>
    behaviour_poll (inject_gossip L bh source i [t] d) = (Some (GossipMessage i source [t] msg), bh') \<and>
    handle_message E N mp (handler_message_of (ServicePubsub i source [t] msg)) = Some (Some mp') \<and>
    chain_inv E G H (mp_chain mp') (cs @ [b]) \<and> sent (mp_network mp') = sent (mp_network mp) @ [Propagate source i]"
proof -
  have len: "length cs < 2 ^ 64" using assms(6) by simp
  obtain n' where n': "on_slot E R n sid now = Some (Some n')" "chain_inv E G H (ep_chain n') (cs @ [b])"
      "sent (ep_network_send n') = sent (ep_network_send n) @ [Publish [topic_into MapBlock] (PBlock (ser (block_codec E) b))]"
    using on_slot_later [OF assms(1-5) len assms(7-12)] by blast
  let ?t = "topic_into MapBlock" let ?data = "ser (block_codec E) b"
  have pub: "publish [?t] (PBlock ?data) = [CallPublish ?t ?data]" by (simp add: publish_def)
  obtain bh' where bh': "behaviour_poll (inject_gossip L bh source i [?t] ?data) = (Some (GossipMessage i source [?t] (PBlock ?data)), bh')"
    using published_block_delivered [OF pub assms(18,19)] by blast
  obtain b0 where b0: "apply_transactions E (ep_chain n) (block_state_root (last cs)) b0 = Some (block_state_root b, bc1)"
    "b_txs b = b_txs b0" "h_parent_hash (b_header b) = block_hash E (last cs)" "unat (block_height b) = length cs" "validate_block E b = Inr ()"
    using produce_blockE [OF assms(5,3,9)] by metis
  have kept: "states_kept E G (bc_state_backend (ep_chain n)) cs" "states_kept E G (bc_state_backend (mp_chain mp)) cs"
    using assms(5,13) by (simp_all add: chain_inv_def)
  obtain bc2 where ap: "apply_transactions E (mp_chain mp) (block_state_root (last cs)) b = Some (block_state_root b, bc2)"
    using apply_transactions_peer [OF assms(2) kept chain_inv_current(2) [OF assms(5)] assms(14) b0(1,2)] .
  obtain bc' where imp: "import_block E (mp_chain mp) b = Some (Inr (), bc')" "chain_inv E G H bc' (cs @ [b])"
    using import_block_accepts [OF assms(1-4,13,10) len ap b0(4,3) _ b0(5)] assms(12) by (auto simp: not_le)
  have head: "current_block E (mp_chain mp) = Some (last cs)" "unat (block_height (last cs)) + 1 = length cs"
    using chain_inv_current(1) [OF assms(13)] holdsD(6) assms(13) by (auto simp: chain_inv_def)
  obtain q where gossip: "on_block_gossip E N mp source b = Some (Some (True, mp\<lparr>mp_chain := bc', mp_queue := q\<rparr>))"
    using gossip_next_block [OF assms(15) _ head(1) _ _ imp(1)] assms(6,16) b0(4) head(2) by auto
  have "de (block_codec E) ?data = Some b" using chain_okD(3) [OF assms(1)] by (simp add: codec_okD)
  then have "handle_message E N mp (handler_message_of (ServicePubsub i source [?t] (PBlock ?data))) =
      Some (Some (propagate_message (mp\<lparr>mp_chain := bc', mp_queue := q\<rparr>) i source))"
    by (simp add: handle_message_def handler_message_of_def handle_gossip_def gossip)
  then show ?thesis using n' pub bh' imp(2) assms(17)
    by (intro exI conjI) (auto simp: propagate_message_def)
qed

text \<open>The block the genesis validator produces reaches a second node that also starts from genesis.\<close>

theorem published_block_imported_witness:
  "\<exists>b n' t d bh' msg mp'. on_slot sample_chain sample_slot_env sample_proposal 0 (Some (GENESIS_TIME + 6)) = Some (Some n') \<and>
    current_block sample_chain (ep_chain n') = Some b \<and>
    behaviour_poll (inject_gossip sample_lru sample_behaviour [7] ''m'' [t] d) = (Some (GossipMessage ''m'' [7] [t] msg), bh') \<and>
    handle_message sample_chain sample_node_env sample_processor (handler_message_of (ServicePubsub ''m'' [7] [t] msg)) = Some (Some mp') \<and>
    current_block sample_chain (mp_chain mp') = Some b \<and> sent (mp_network mp') = [Propagate [7] ''m'']"
proof -
  obtain b bc1 H where b: "produce_block sample_chain (ep_chain sample_proposal) (ep_tx_pool sample_proposal) 0
       (block_hash sample_chain (last [bc_genesis sample_started])) (fst sample_win) (snd sample_win) (Some (GENESIS_TIME + 6)) = Some (b, bc1)"
    "b_header b \<in> H" and inj: "inj_on (header_hash sample_chain) H"
    and inv: "chain_inv sample_chain sample_ghost H (ep_chain sample_proposal) [bc_genesis sample_started]"
    and acc: "\<forall>e \<in> set (tp_pending (ep_tx_pool sample_proposal)). get_account sample_chain (state_at bc1 (block_state_root b)) (tx_sender (snd e)) \<noteq> None"
    and later: "h_time (b_header (last [bc_genesis sample_started])) < h_time (b_header b)"
    using sample_slot_run .
  have peer: "chain_inv sample_chain sample_ghost H (mp_chain sample_processor) [bc_genesis sample_started]" using inv by simp
  have ahead: "cached_ahead map_of (length [bc_genesis sample_started]) (mp_queue sample_processor)" by (simp add: cached_ahead_def)
  obtain n' t d bh' msg mp' where flow: "on_slot sample_chain sample_slot_env sample_proposal 0 (Some (GENESIS_TIME + 6)) = Some (Some n')"
    "chain_inv sample_chain sample_ghost H (ep_chain n') ([bc_genesis sample_started] @ [b])"
    "behaviour_poll (inject_gossip sample_lru sample_behaviour [7] ''m'' [t] d) = (Some (GossipMessage ''m'' [7] [t] msg), bh')"
    "handle_message sample_chain sample_node_env sample_processor (handler_message_of (ServicePubsub ''m'' [7] [t] msg)) = Some (Some mp')"
    "chain_inv sample_chain sample_ghost H (mp_chain mp') ([bc_genesis sample_started] @ [b])" "sent (mp_network mp') = [Propagate [7] ''m'']"
    using published_block_imported [OF sample_chain_ok sample_storage_ok [OF sample_like_chain(1)] sample_chain_sel(1) inj inv _ _
        sample_slot_wins b acc later peer _ sample_queue_ok ahead, of sample_lru sample_behaviour "''m''" "[7]"]
    by (auto simp: sample_lru_def sample_behaviour_def)
  have "current_block sample_chain (ep_chain n') = Some b" "current_block sample_chain (mp_chain mp') = Some b"
    using chain_inv_current(1) [OF flow(2)] chain_inv_current(1) [OF flow(5)] by simp_all
  with flow(1,3,4,6) show ?thesis by (intro exI conjI)
qed

end
